(* ===== verification/Prelude.thy ===== *)
theory Prelude
  imports Main "HOL-Library.Word"
begin

unbundle bit_operations_syntax

section \<open>Bytes, strings and machine integers shared by every component\<close>

text \<open>
  Go's \<open>[]byte\<close> is a list of 8-bit words, a Go \<open>string\<close> is a byte sequence too and is
  modelled by HOL's \<open>string\<close> (a list of 8-bit characters); \<open>bytes_of\<close> and \<open>string_of\<close>
  are the conversions \<open>[]byte(s)\<close> and \<open>string(b)\<close>, which copy the bytes unchanged.
  The theory also holds the big-endian integers of \<open>encoding/binary\<close>, the decimal
  rendering of \<open>fmt\<close>'s \<open>%d\<close>, instants of time, and the collections of lemmas that the
  component theories add to:
  \<^item> \<open>byte_bits\<close>: how the bits of shifted, masked and truncated words are read;
  \<^item> \<open>len_simps\<close>: lengths of encoded values.
\<close>

named_theorems byte_bits
named_theorems len_simps

type_synonym byte = "8 word"
type_synonym bytes = "byte list"

subsection \<open>Bits of bytes\<close>

lemma bit_byte_ge [byte_bits]: "8 \<le> n \<Longrightarrow> \<not> bit (b :: byte) n"
  by (auto dest: bit_imp_le_length)

lemma bit_word32_ge [byte_bits]: "32 \<le> n \<Longrightarrow> \<not> bit (w :: 32 word) n"
  by (auto dest: bit_imp_le_length)

lemma bit_byte_double [byte_bits]: "bit (w * 2 :: byte) n \<longleftrightarrow> n < 8 \<and> 0 < n \<and> bit w (n - 1)"
  by (subst mult.commute) (auto simp: bit_double_iff possible_bit_word)

lemmas word_bit_reads [byte_bits] = bit_simps

text \<open>Two bytes with the same eight bits are equal; each bit is a separate small goal.\<close>

lemma byte_eqI:
  fixes a b :: byte
  assumes "bit a 0 = bit b 0" "bit a 1 = bit b 1" "bit a 2 = bit b 2" "bit a 3 = bit b 3"
    "bit a 4 = bit b 4" "bit a 5 = bit b 5" "bit a 6 = bit b 6" "bit a 7 = bit b 7"
  shows "a = b"
proof (rule bit_word_eqI)
  fix n assume "n < LENGTH(8)"
  then have "n \<in> {0,1,2,3,4,5,6,7}" by auto
  then show "bit a n = bit b n" using assms by auto
qed

lemma and_one_nonzero [simp]: "(x AND 1 \<noteq> (0::'a::len word)) = bit x 0"
  by (simp add: and_one_eq bit_0 odd_iff_mod_2_eq_one)

subsection \<open>Conversions between strings and bytes\<close>

definition byte_of_char :: "char \<Rightarrow> byte" where
  "byte_of_char c = word_of_nat (of_char c)"

definition char_of_byte :: "byte \<Rightarrow> char" where
  "char_of_byte b = char_of (unat b)"

lemma char_of_byte_of_char [simp]: "char_of_byte (byte_of_char c) = c"
proof -
  have "of_char c < (256::nat)" using nat_of_char_less_256 [of c] by simp
  then show ?thesis
    by (simp add: char_of_byte_def byte_of_char_def unat_of_nat)
qed

lemma byte_of_char_of_byte [simp]: "byte_of_char (char_of_byte b) = b"
proof -
  have "unat b < 2 ^ LENGTH(8)" by (rule unsigned_less)
  then show ?thesis by (simp add: char_of_byte_def byte_of_char_def)
qed

definition bytes_of :: "string \<Rightarrow> bytes" where
  "bytes_of s = map byte_of_char s"

definition string_of :: "bytes \<Rightarrow> string" where
  "string_of b = map char_of_byte b"

lemma string_of_bytes_of [simp]: "string_of (bytes_of s) = s"
  by (simp add: string_of_def bytes_of_def comp_def)

lemma bytes_of_string_of [simp]: "bytes_of (string_of b) = b"
  by (simp add: string_of_def bytes_of_def comp_def)

lemma length_bytes_of [simp, len_simps]: "length (bytes_of s) = length s"
  by (simp add: bytes_of_def)

lemma length_string_of [simp, len_simps]: "length (string_of b) = length b"
  by (simp add: string_of_def)

lemma bytes_of_append: "bytes_of (s @ t) = bytes_of s @ bytes_of t"
  by (simp add: bytes_of_def)

lemma bytes_of_eq_Nil [simp]: "bytes_of s = [] \<longleftrightarrow> s = []"
  by (simp add: bytes_of_def)

lemma bytes_of_inject [simp]: "bytes_of s = bytes_of t \<longleftrightarrow> s = t"
  by (metis string_of_bytes_of)

lemma string_of_inject [simp]: "string_of a = string_of b \<longleftrightarrow> a = b"
  by (metis bytes_of_string_of)

subsection \<open>Big-endian integers (\<open>encoding/binary\<close>)\<close>

definition put_be16 :: "16 word \<Rightarrow> bytes" where
  "put_be16 v = [ucast (drop_bit 8 v), ucast v]"

definition put_be32 :: "32 word \<Rightarrow> bytes" where
  "put_be32 v = [ucast (drop_bit 24 v), ucast (drop_bit 16 v), ucast (drop_bit 8 v), ucast v]"

definition put_be64 :: "64 word \<Rightarrow> bytes" where
  "put_be64 v = put_be32 (ucast (drop_bit 32 v)) @ put_be32 (ucast v)"

fun be16 :: "bytes \<Rightarrow> 16 word" where
  "be16 [b0, b1] = ucast b1 OR push_bit 8 (ucast b0)"
| "be16 _ = 0"

fun be32 :: "bytes \<Rightarrow> 32 word" where
  "be32 [b0, b1, b2, b3] =
     ucast b3 OR push_bit 8 (ucast b2) OR push_bit 16 (ucast b1) OR push_bit 24 (ucast b0)"
| "be32 _ = 0"

lemma length_put_be [simp, len_simps]:
  "length (put_be16 v) = 2" "length (put_be32 w) = 4" "length (put_be64 x) = 8"
  by (simp_all add: put_be16_def put_be32_def put_be64_def)

lemma be16_put_be16 [simp]: "be16 (put_be16 v) = v"
proof (rule bit_word_eqI)
  fix n assume "n < LENGTH(16)"
  then consider "n < 8" | "8 \<le> n" "n < 16" by fastforce
  then show "bit (be16 (put_be16 v)) n = bit v n"
    by cases (auto simp: put_be16_def byte_bits)
qed

lemma be32_put_be32 [simp]: "be32 (put_be32 v) = v"
proof (rule bit_word_eqI)
  fix n assume "n < LENGTH(32)"
  then consider "n < 8" | "8 \<le> n" "n < 16" | "16 \<le> n" "n < 24" | "24 \<le> n" "n < 32"
    by fastforce
  then show "bit (be32 (put_be32 v)) n = bit v n"
    by cases (auto simp: put_be32_def byte_bits)
qed

lemma length_4_conv: "length xs = 4 \<longleftrightarrow> (\<exists>a b c d. xs = [a, b, c, d])"
  by (auto simp: numeral_eq_Suc length_Suc_conv)

lemma put_be32_be32: "length bs = 4 \<Longrightarrow> put_be32 (be32 bs) = bs"
  by (auto simp: length_4_conv put_be32_def byte_bits intro!: bit_word_eqI)

lemma put_be32_inject [simp]: "put_be32 v = put_be32 w \<longleftrightarrow> v = w"
  by (metis be32_put_be32)

lemma put_be16_inject [simp]: "put_be16 v = put_be16 w \<longleftrightarrow> v = w"
  by (metis be16_put_be16)

lemma put_be64_inject [simp]: "put_be64 v = put_be64 w \<longleftrightarrow> v = w"
proof
  assume "put_be64 v = put_be64 w"
  then have hi: "(ucast (drop_bit 32 v) :: 32 word) = ucast (drop_bit 32 w)"
    and lo: "(ucast v :: 32 word) = ucast w"
    by (simp_all add: put_be64_def)
  show "v = w"
  proof (rule bit_word_eqI)
    fix n assume n: "n < LENGTH(64)"
    show "bit v n = bit w n"
    proof (cases "n < 32")
      case True
      with lo have "bit (ucast v :: 32 word) n = bit (ucast w :: 32 word) n" by simp
      with True show ?thesis by (simp add: byte_bits)
    next
      case False
      from hi have "bit (ucast (drop_bit 32 v) :: 32 word) (n - 32) = bit (ucast (drop_bit 32 w) :: 32 word) (n - 32)"
        by simp
      with False n show ?thesis by (auto simp: byte_bits)
    qed
  qed
qed simp

subsection \<open>Decimal rendering\<close>

text \<open>\<open>fmt.Sprintf("%d", n)\<close> for a non-negative number.\<close>

fun decimal :: "nat \<Rightarrow> string" where
  "decimal n = (if n < 10 then [char_of (48 + n)] else decimal (n div 10) @ [char_of (48 + n mod 10)])"

declare decimal.simps [simp del]

fun undecimal :: "string \<Rightarrow> nat" where
  "undecimal s = foldl (\<lambda>acc c. 10 * acc + (of_char c - 48)) 0 s"

lemma of_char_digit: "d < 10 \<Longrightarrow> of_char (char_of (48 + d) :: char) = (48 + d :: nat)"
  by simp

lemma undecimal_decimal: "undecimal (decimal n) = n"
proof (induction n rule: decimal.induct)
  case (1 n)
  show ?case
  proof (cases "n < 10")
    case True
    then show ?thesis by (simp add: decimal.simps [of n])
  next
    case False
    with 1 have "foldl (\<lambda>acc c. 10 * acc + (of_char c - 48)) 0 (decimal (n div 10)) = n div 10"
      by simp
    with False show ?thesis by (simp add: decimal.simps [of n])
  qed
qed

lemma decimal_inject [simp]: "decimal m = decimal n \<longleftrightarrow> m = n"
  by (metis undecimal_decimal)

lemma decimal_digits: "c \<in> set (decimal n) \<Longrightarrow> (48::nat) \<le> of_char c \<and> of_char c \<le> (57::nat)"
proof (induction n rule: decimal.induct)
  case (1 n)
  then show ?case
    by (subst (asm) decimal.simps) (auto split: if_splits)
qed

definition decimal_int :: "int \<Rightarrow> string" where
  "decimal_int i = (if i < 0 then CHR ''-'' # decimal (nat (- i)) else decimal (nat i))"

subsection \<open>Instants\<close>

text \<open>
  A \<open>time.Time\<close> is its distance from the Unix epoch in nanoseconds; the zero value of the
  type is midnight of 1 January of year 1. \<open>Unix()\<close> rounds down to whole seconds.
\<close>

type_synonym instant = int

definition second :: instant where "second = 1000000000"

definition zero_time :: instant where "zero_time = - 62135596800 * second"

definition unix_seconds :: "instant \<Rightarrow> int" where
  "unix_seconds t = t div second"

definition time_unix :: "int \<Rightarrow> instant" where
  "time_unix s = s * second"

lemma unix_time_unix [simp]: "unix_seconds (time_unix s) = s"
  by (simp add: unix_seconds_def time_unix_def second_def)

lemma zero_time_unix: "zero_time = time_unix (- 62135596800)"
  by (simp add: zero_time_def time_unix_def)

lemma time_unix_inject [simp]: "time_unix a = time_unix b \<longleftrightarrow> a = b"
  by (metis unix_time_unix)

subsection \<open>Lists\<close>

lemma take_drop_append3:
  "length a = n \<Longrightarrow> take n (a @ b) = a" "length a = n \<Longrightarrow> drop n (a @ b) = b"
  by simp_all

lemma length_le_Suc_conv: "n < length xs \<Longrightarrow> xs = take n xs @ xs ! n # drop (Suc n) xs"
  by (rule id_take_nth_drop)

text \<open>The last \<open>n\<close> elements, which is what \<open>xs[len(xs)-n:]\<close> keeps of a list longer than \<open>n\<close>.\<close>

definition lastn :: "nat \<Rightarrow> 'a list \<Rightarrow> 'a list" where
  "lastn n xs = drop (length xs - n) xs"

lemma length_lastn [simp]: "length (lastn n xs) = min n (length xs)"
  by (auto simp: lastn_def)

lemma lastn_short [simp]: "length xs \<le> n \<Longrightarrow> lastn n xs = xs"
  by (simp add: lastn_def)

lemma lastn_lastn_append: "lastn n (lastn n xs @ ys) = lastn n (xs @ ys)"
proof (cases "length xs \<le> n")
  case False
  then have "length (lastn n xs @ ys) - n = length ys" by simp
  moreover have "length (xs @ ys) - n = (length xs - n) + length ys" using False by simp
  ultimately show ?thesis
    using False by (simp add: lastn_def add.commute)
qed simp

lemma foldl_lastn:
  "foldl (\<lambda>xs x. lastn n (xs @ [x])) (lastn n xs) ys = lastn n (xs @ ys)"
  by (induction ys arbitrary: xs) (simp_all add: lastn_lastn_append)

subsection \<open>Files\<close>

text \<open>
  The file system is a map from paths to contents. How a write ends is up to the operating
  system, so the operations that save take the function that writes; \<open>disk_write\<close> is the write
  that succeeds.
\<close>

type_synonym disk = "string \<Rightarrow> bytes option"
type_synonym disk_writer = "string \<Rightarrow> bytes \<Rightarrow> disk \<Rightarrow> disk \<times> bool"

definition disk_write :: disk_writer where
  "disk_write p b d = (d(p := Some b), True)"

end
