(* ===== verification/Interfaces.thy ===== *)
theory Interfaces
  imports Prelude
begin

section \<open>Interfaces between the components\<close>

text \<open>
  Each locale is a contract that several components share. A component that provides it
  interprets the locale on its own definitions; the lemmas proved here are then facts about
  the component.
  \<^item> \<open>codec\<close>: an encoder and a fallible decoder that undoes it;
  \<^item> \<open>stepper\<close>: a deterministic machine with an invariant that every operation keeps;
  \<^item> \<open>projection\<close>: a stepper whose states have an abstract view that every operation
    follows (a functional refinement).
\<close>

subsection \<open>Codecs\<close>

locale codec =
  fixes enc :: "'a \<Rightarrow> 'c"
    and dec :: "'c \<Rightarrow> 'e + 'a"
    and valid :: "'a \<Rightarrow> bool"
  assumes dec_enc: "valid x \<Longrightarrow> dec (enc x) = Inr x"
begin

lemma enc_inject: "valid x \<Longrightarrow> valid y \<Longrightarrow> enc x = enc y \<longleftrightarrow> x = y"
  by (metis dec_enc sum.inject(2))

lemma inj_on_enc: "inj_on enc {x. valid x}"
  by (rule inj_onI) (simp add: enc_inject)

lemma map_enc_inject:
  "\<forall>x \<in> set xs. valid x \<Longrightarrow> \<forall>y \<in> set ys. valid y \<Longrightarrow> map enc xs = map enc ys \<longleftrightarrow> xs = ys"
proof (induction xs arbitrary: ys)
  case (Cons x xs)
  then show ?case by (cases ys) (auto simp: enc_inject)
qed auto

end

subsection \<open>Machines with an invariant\<close>

locale stepper =
  fixes step :: "'s \<Rightarrow> 'op \<Rightarrow> 's"
    and inv :: "'s \<Rightarrow> bool"
  assumes step_inv: "inv s \<Longrightarrow> inv (step s x)"
begin

lemma run_inv: "inv s \<Longrightarrow> inv (foldl step s xs)"
  by (induction xs arbitrary: s) (auto intro: step_inv)

end

locale projection = stepper +
  fixes view :: "'s \<Rightarrow> 'v"
    and astep :: "'v \<Rightarrow> 'op \<Rightarrow> 'v"
  assumes view_step: "inv s \<Longrightarrow> view (step s x) = astep (view s) x"
begin

lemma view_run: "inv s \<Longrightarrow> view (foldl step s xs) = foldl astep (view s) xs"
  by (induction xs arbitrary: s) (simp_all add: view_step step_inv)

end

end
