(* ===== verification/Text_Encodings.thy ===== *)
theory Text_Encodings
  imports Interfaces
begin

section \<open>Hexadecimal and Crockford base-32 text\<close>

text \<open>
  What \<open>hub/hex.go\<close> and \<open>invite/codec.go\<close> use of \<open>encoding/hex\<close>, \<open>encoding/base32\<close>,
  \<open>strings\<close> and \<open>unicode/utf8\<close>, with the two functions of \<open>hub/hex.go\<close> built on it,
  \<open>mustHex\<close> and \<open>parseHex\<close>, and the alias table \<open>normalizeCrockford\<close> of the invite codec.
  Both text encodings are interpretations of the locale \<open>codec\<close>.
\<close>

subsection \<open>\<open>encoding/hex\<close>\<close>

datatype hex_error = InvalidByte char | OddLength

definition hex_table :: string where
  "hex_table = ''0123456789abcdef''"

definition hex_value :: "char \<Rightarrow> nat option" where
  "hex_value c =
     (let n = of_char c :: nat in
      if 48 \<le> n \<and> n \<le> 57 then Some (n - 48)
      else if 97 \<le> n \<and> n \<le> 102 then Some (n - 87)
      else if 65 \<le> n \<and> n \<le> 70 then Some (n - 55)
      else None)"

definition hex_encode :: "bytes \<Rightarrow> string" where
  "hex_encode bs =
     concat (map (\<lambda>b. [hex_table ! (unat b div 16), hex_table ! (unat b mod 16)]) bs)"

fun hex_decode :: "string \<Rightarrow> hex_error + bytes" where
  "hex_decode [] = Inr []"
| "hex_decode [c] = (if hex_value c = None then Inl (InvalidByte c) else Inl OddLength)"
| "hex_decode (p # q # s) =
     (case hex_value p of
        None \<Rightarrow> Inl (InvalidByte p)
      | Some a \<Rightarrow>
          (case hex_value q of
             None \<Rightarrow> Inl (InvalidByte q)
           | Some b \<Rightarrow>
               (case hex_decode s of
                  Inl e \<Rightarrow> Inl e
                | Inr r \<Rightarrow> Inr (word_of_nat (16 * a + b) # r))))"

lemma hex_value_table: "n < 16 \<Longrightarrow> hex_value (hex_table ! n) = Some n"
proof -
  have "\<forall>k \<in> set [0..<16]. hex_value (hex_table ! k) = Some k" by code_simp
  then show "n < 16 \<Longrightarrow> hex_value (hex_table ! n) = Some n" by simp
qed

lemma unat_byte_less: "unat (b :: byte) < 256"
proof -
  have "unat b < 2 ^ LENGTH(8)" by (rule unsigned_less)
  then show ?thesis by simp
qed

lemma hex_decode_encode: "hex_decode (hex_encode bs) = Inr bs"
proof (induction bs)
  case (Cons b bs)
  have "unat b div 16 < 16" "unat b mod 16 < 16"
    using unat_byte_less [of b] by (simp_all add: less_mult_imp_div_less)
  moreover have "word_of_nat (16 * (unat b div 16) + unat b mod 16) = b"
    by simp
  ultimately show ?case
    using Cons.IH by (simp add: hex_encode_def hex_value_table)
qed (simp add: hex_encode_def)

lemma length_hex_encode [len_simps]: "length (hex_encode bs) = 2 * length bs"
  by (induction bs) (simp_all add: hex_encode_def)

interpretation hexc: codec hex_encode hex_decode "\<lambda>_. True"
  by unfold_locales (rule hex_decode_encode)

text \<open>\<open>hub/hex.go\<close>: the keys of every map of the hub are hex strings of public keys.\<close>

definition mustHex :: "bytes \<Rightarrow> string" where
  "mustHex p = hex_encode p"

definition parseHex :: "string \<Rightarrow> hex_error + bytes" where
  "parseHex s = (case hex_decode s of Inl e \<Rightarrow> Inl e | Inr b \<Rightarrow> Inr b)"

lemma parseHex_mustHex [simp]: "parseHex (mustHex p) = Inr p"
  by (simp add: parseHex_def mustHex_def hexc.dec_enc)

lemma mustHex_inject [simp]: "mustHex p = mustHex q \<longleftrightarrow> p = q"
  by (simp add: mustHex_def hexc.enc_inject)

subsection \<open>\<open>encoding/base32\<close> with the Crockford alphabet, unpadded\<close>

definition crockford_alphabet :: string where
  "crockford_alphabet = ''0123456789ABCDEFGHJKMNPQRSTVWXYZ''"

text \<open>The eight 5-bit digits of five bytes.\<close>

definition quintets :: "byte \<Rightarrow> byte \<Rightarrow> byte \<Rightarrow> byte \<Rightarrow> byte \<Rightarrow> byte list" where
  "quintets a b c d e =
     [drop_bit 3 a,
      (push_bit 2 a AND 0x1F) OR drop_bit 6 b,
      drop_bit 1 b AND 0x1F,
      (push_bit 4 b AND 0x1F) OR drop_bit 4 c,
      (push_bit 1 c AND 0x1F) OR drop_bit 7 d,
      drop_bit 2 d AND 0x1F,
      (push_bit 3 d AND 0x1F) OR drop_bit 5 e,
      e AND 0x1F]"

fun b32_digits :: "bytes \<Rightarrow> byte list" where
  "b32_digits [] = []"
| "b32_digits [a] = take 2 (quintets a 0 0 0 0)"
| "b32_digits [a, b] = take 4 (quintets a b 0 0 0)"
| "b32_digits [a, b, c] = take 5 (quintets a b c 0 0)"
| "b32_digits [a, b, c, d] = take 7 (quintets a b c d 0)"
| "b32_digits (a # b # c # d # e # rest) = quintets a b c d e @ b32_digits rest"

definition b32_encode :: "bytes \<Rightarrow> string" where
  "b32_encode bs = map (\<lambda>q. crockford_alphabet ! unat (q AND 0x1F)) (b32_digits bs)"

datatype b32_error = CorruptInput nat

fun index_of :: "char \<Rightarrow> string \<Rightarrow> nat option" where
  "index_of c [] = None"
| "index_of c (d # ds) = (if c = d then Some 0 else map_option Suc (index_of c ds))"

definition b32_value :: "char \<Rightarrow> byte option" where
  "b32_value c = map_option word_of_nat (index_of c crockford_alphabet)"

fun b32_values :: "nat \<Rightarrow> string \<Rightarrow> b32_error + byte list" where
  "b32_values i [] = Inr []"
| "b32_values i (c # cs) =
     (case b32_value c of
        None \<Rightarrow> Inl (CorruptInput i)
      | Some q \<Rightarrow>
          (case b32_values (Suc i) cs of Inl e \<Rightarrow> Inl e | Inr qs \<Rightarrow> Inr (q # qs)))"

text \<open>
  Packing 5-bit digits into bytes. A last group of 1, 3 or 6 digits yields no byte at all and
  no error: without padding \<open>encoding/base32\<close> has no case for these lengths.
\<close>

definition pack0 :: "byte \<Rightarrow> byte \<Rightarrow> byte" where
  "pack0 q0 q1 = push_bit 3 q0 OR drop_bit 2 q1"

definition pack1 :: "byte \<Rightarrow> byte \<Rightarrow> byte \<Rightarrow> byte" where
  "pack1 q1 q2 q3 = push_bit 6 q1 OR push_bit 1 q2 OR drop_bit 4 q3"

definition pack2 :: "byte \<Rightarrow> byte \<Rightarrow> byte" where
  "pack2 q3 q4 = push_bit 4 q3 OR drop_bit 1 q4"

definition pack3 :: "byte \<Rightarrow> byte \<Rightarrow> byte \<Rightarrow> byte" where
  "pack3 q4 q5 q6 = push_bit 7 q4 OR push_bit 2 q5 OR drop_bit 3 q6"

definition pack4 :: "byte \<Rightarrow> byte \<Rightarrow> byte" where
  "pack4 q6 q7 = push_bit 5 q6 OR q7"

fun b32_pack :: "byte list \<Rightarrow> bytes" where
  "b32_pack (q0 # q1 # q2 # q3 # q4 # q5 # q6 # q7 # rest) =
     [pack0 q0 q1, pack1 q1 q2 q3, pack2 q3 q4, pack3 q4 q5 q6, pack4 q6 q7] @ b32_pack rest"
| "b32_pack [q0, q1, q2, q3, q4, q5, q6] =
     [pack0 q0 q1, pack1 q1 q2 q3, pack2 q3 q4, pack3 q4 q5 q6]"
| "b32_pack [q0, q1, q2, q3, q4] = [pack0 q0 q1, pack1 q1 q2 q3, pack2 q3 q4]"
| "b32_pack [q0, q1, q2, q3] = [pack0 q0 q1, pack1 q1 q2 q3]"
| "b32_pack [q0, q1] = [pack0 q0 q1]"
| "b32_pack _ = []"

definition strip_newlines :: "string \<Rightarrow> string" where
  "strip_newlines s = filter (\<lambda>c. c \<noteq> CHR 0x0D \<and> c \<noteq> CHR 0x0A) s"

definition b32_decode :: "string \<Rightarrow> b32_error + bytes" where
  "b32_decode s =
     (case b32_values 0 (strip_newlines s) of Inl e \<Rightarrow> Inl e | Inr qs \<Rightarrow> Inr (b32_pack qs))"

subsubsection \<open>Round trip\<close>

lemma index_of_nth: "distinct ds \<Longrightarrow> n < length ds \<Longrightarrow> index_of (ds ! n) ds = Some n"
proof (induction ds arbitrary: n)
  case (Cons d ds)
  then show ?case by (cases n) auto
qed simp

lemma length_alphabet [simp]: "length crockford_alphabet = 32"
  by (simp add: crockford_alphabet_def)

lemma distinct_alphabet: "distinct crockford_alphabet"
  by (simp add: crockford_alphabet_def)

lemma unat_and_31: "unat (q AND 0x1F :: byte) < 32"
proof -
  have "q AND 0x1F \<le> (0x1F :: byte)" by (rule word_and_le1)
  then have "unat (q AND 0x1F) \<le> unat (0x1F :: byte)" by (rule word_le_nat_alt [THEN iffD1])
  then show ?thesis by simp
qed

lemma b32_value_char:
  "b32_value (crockford_alphabet ! unat (q AND 0x1F)) = Some (q AND 0x1F)"
  by (simp add: b32_value_def index_of_nth [OF distinct_alphabet] unat_and_31)

lemma b32_values_map:
  "b32_values i (map (\<lambda>q. crockford_alphabet ! unat (q AND 0x1F)) qs) =
     Inr (map (\<lambda>q. q AND 0x1F) qs)"
  by (induction qs arbitrary: i) (simp_all add: b32_value_char)

lemma b32_digits_small: "q \<in> set (b32_digits bs) \<Longrightarrow> q AND 0x1F = q"
  by (induction bs rule: b32_digits.induct)
    (auto simp: quintets_def byte_bits intro!: byte_eqI)

lemma map_digits_small: "map (\<lambda>q. q AND 0x1F) (b32_digits bs) = b32_digits bs"
  by (simp add: b32_digits_small map_idI)

lemma pack_quintets:
  "pack0 (drop_bit 3 a) ((push_bit 2 a AND 0x1F) OR drop_bit 6 b) = a"
  "pack1 ((push_bit 2 a AND 0x1F) OR drop_bit 6 b) (drop_bit 1 b AND 0x1F)
     ((push_bit 4 b AND 0x1F) OR drop_bit 4 c) = b"
  "pack2 ((push_bit 4 b AND 0x1F) OR drop_bit 4 c) ((push_bit 1 c AND 0x1F) OR drop_bit 7 d) = c"
  "pack3 ((push_bit 1 c AND 0x1F) OR drop_bit 7 d) (drop_bit 2 d AND 0x1F)
     ((push_bit 3 d AND 0x1F) OR drop_bit 5 e) = d"
  "pack4 ((push_bit 3 d AND 0x1F) OR drop_bit 5 e) (e AND 0x1F) = e"
  unfolding pack0_def pack1_def pack2_def pack3_def pack4_def
  by (rule byte_eqI; simp add: byte_bits; simp add: numeral_2_eq_2 numeral_3_eq_3)+

lemma b32_pack_digits: "b32_pack (b32_digits bs) = bs"
proof (induction bs rule: b32_digits.induct)
  case (2 a)
  show ?case using pack_quintets(1) [of a 0] by (simp add: quintets_def)
next
  case (3 a b)
  show ?case using pack_quintets(1) [of a b] pack_quintets(2) [of a b 0] by (simp add: quintets_def)
next
  case (4 a b c)
  show ?case using pack_quintets(1) [of a b] pack_quintets(2) [of a b c] pack_quintets(3) [of b c 0]
    by (simp add: quintets_def)
next
  case (5 a b c d)
  show ?case using pack_quintets(1) [of a b] pack_quintets(2) [of a b c] pack_quintets(3) [of b c d]
      pack_quintets(4) [of c d 0]
    by (simp add: quintets_def)
next
  case (6 a b c d e rest)
  then show ?case using pack_quintets(1) [of a b] pack_quintets(2) [of a b c]
      pack_quintets(3) [of b c d] pack_quintets(4) [of c d e] pack_quintets(5) [of d e]
    by (simp add: quintets_def)
qed simp

lemma alphabet_no_newline:
  "c \<in> set crockford_alphabet \<Longrightarrow> c \<noteq> CHR 0x0D \<and> c \<noteq> CHR 0x0A"
  by (auto simp: crockford_alphabet_def)

lemma b32_encode_alphabet: "set (b32_encode bs) \<subseteq> set crockford_alphabet"
  by (auto simp: b32_encode_def unat_and_31)

lemma strip_newlines_encode: "strip_newlines (b32_encode bs) = b32_encode bs"
  unfolding strip_newlines_def
  using b32_encode_alphabet alphabet_no_newline by (intro filter_True) blast

lemma b32_decode_encode: "b32_decode (b32_encode bs) = Inr bs"
  unfolding b32_decode_def strip_newlines_encode
  by (simp add: b32_encode_def b32_values_map map_digits_small b32_pack_digits)

interpretation b32: codec b32_encode b32_decode "\<lambda>_. True"
  by unfold_locales (rule b32_decode_encode)

lemma length_b32_encode: "length (b32_encode bs) = (8 * length bs + 4) div 5"
  by (simp add: b32_encode_def, induction bs rule: b32_digits.induct)
    (simp_all add: quintets_def)

end
