(* ===== verification/Envelope.thy ===== *)
theory Envelope
  imports Text_Encodings
begin

section \<open>Envelopes and identities (\<open>hub/envelope.go\<close>, \<open>hub/identity.go\<close>)\<close>

text \<open>
  An envelope is the only application payload that crosses a hub: a sealed box with addressing
  in the clear, signed by its sender. The cryptographic primitives (Ed25519, X25519, the NaCl
  box) are parameters, collected in the record \<open>crypto\<close>; \<open>sign_correct\<close> and \<open>box_correct\<close> state
  their documented behaviour. Random bytes and the time are arguments; a failed read of the
  random source is \<open>None\<close>.
\<close>

subsection \<open>Primitives\<close>

record crypto =
  ed_public :: "bytes \<Rightarrow> bytes"
  ed_sign :: "bytes \<Rightarrow> bytes \<Rightarrow> bytes"
  ed_verify :: "bytes \<Rightarrow> bytes \<Rightarrow> bytes \<Rightarrow> bool"
  x_public :: "bytes \<Rightarrow> bytes"
  box_seal :: "bytes \<Rightarrow> bytes \<Rightarrow> bytes \<Rightarrow> bytes \<Rightarrow> bytes"
  box_open :: "bytes \<Rightarrow> bytes \<Rightarrow> bytes \<Rightarrow> bytes \<Rightarrow> bytes option"

definition sign_correct :: "crypto \<Rightarrow> bool" where
  "sign_correct C \<longleftrightarrow> (\<forall>priv msg. ed_verify C (ed_public C priv) msg (ed_sign C priv msg))"

definition box_correct :: "crypto \<Rightarrow> bool" where
  "box_correct C \<longleftrightarrow>
     (\<forall>msg nonce a b. length (box_seal C msg nonce (x_public C b) a) = length msg + 16 \<and>
        box_open C (box_seal C msg nonce (x_public C b) a) nonce (x_public C a) b = Some msg)"

record identity =
  id_ed_priv :: bytes
  id_ed_pub :: bytes
  id_x_priv :: bytes
  id_x_pub :: bytes
  id_name :: string

text \<open>The keys of an identity belong together, as \<open>GenerateIdentity\<close> makes them.\<close>

definition wf_identity :: "crypto \<Rightarrow> identity \<Rightarrow> bool" where
  "wf_identity C i \<longleftrightarrow> id_ed_pub i = ed_public C (id_ed_priv i) \<and> length (id_ed_pub i) = 32 \<and>
     id_x_pub i = x_public C (id_x_priv i) \<and> length (id_x_pub i) = 32"

subsection \<open>Envelopes\<close>

record envelope =
  env_id :: string
  env_from :: bytes
  env_to :: bytes
  env_ts :: "64 word"
  env_type :: string
  env_sig :: bytes
  env_ciphertext :: bytes

datatype env_error =
    BadFrom
  | BadSignature
  | MissingTs
  | CiphertextTooSmall
  | CiphertextTooLarge
  | PlaintextTooLarge
  | RandomFailed
  | ShortBox
  | OpenFailed

definition nonce_size :: nat where "nonce_size = 24"
definition max_plaintext :: nat where "max_plaintext = 32 * 1024"
definition max_ciphertext :: nat where "max_ciphertext = 64 * 1024"

lemmas env_consts = nonce_size_def max_plaintext_def max_ciphertext_def

definition put_field :: "bytes \<Rightarrow> bytes" where
  "put_field b = put_be32 (word_of_nat (length b)) @ b"

definition signedBytes :: "envelope \<Rightarrow> bytes" where
  "signedBytes e =
     put_field (bytes_of (env_id e)) @ put_field (env_from e) @ put_field (env_to e)
     @ put_field (put_be64 (env_ts e)) @ put_field (bytes_of (env_type e))
     @ put_field (env_ciphertext e)"

definition env_sign :: "crypto \<Rightarrow> bytes \<Rightarrow> envelope \<Rightarrow> envelope" where
  "env_sign C priv e = e\<lparr>env_sig := ed_sign C priv (signedBytes e)\<rparr>"

definition env_verify :: "crypto \<Rightarrow> envelope \<Rightarrow> env_error option" where
  "env_verify C e =
     (if length (env_from e) \<noteq> 32 then Some BadFrom
      else if \<not> ed_verify C (env_from e) (signedBytes e) (env_sig e) then Some BadSignature
      else if env_ts e = 0 then Some MissingTs
      else if length (env_ciphertext e) < nonce_size + 16 then Some CiphertextTooSmall
      else if max_ciphertext < length (env_ciphertext e) then Some CiphertextTooLarge
      else None)"

definition seal ::
  "crypto \<Rightarrow> bytes option \<Rightarrow> bytes option \<Rightarrow> 64 word \<Rightarrow> identity \<Rightarrow> bytes \<Rightarrow> bytes \<Rightarrow> string \<Rightarrow> bytes
     \<Rightarrow> env_error + envelope" where
  "seal C rnd_nonce rnd_id now from to_x to_ed typ plaintext =
     (if max_plaintext < length plaintext then Inl PlaintextTooLarge
      else case rnd_nonce of
        None \<Rightarrow> Inl RandomFailed
      | Some nonce \<Rightarrow>
          (let sealed = nonce @ box_seal C plaintext nonce to_x (id_x_priv from) in
           case rnd_id of
             None \<Rightarrow> Inl RandomFailed
           | Some i \<Rightarrow>
               Inr (env_sign C (id_ed_priv from)
                 \<lparr>env_id = hex_encode i, env_from = id_ed_pub from, env_to = to_ed, env_ts = now,
                  env_type = typ, env_sig = [], env_ciphertext = sealed\<rparr>)))"

definition open_env :: "crypto \<Rightarrow> identity \<Rightarrow> bytes \<Rightarrow> envelope \<Rightarrow> env_error + bytes" where
  "open_env C to from_x e =
     (case env_verify C e of
        Some err \<Rightarrow> Inl err
      | None \<Rightarrow>
          (if length (env_ciphertext e) < nonce_size then Inl ShortBox
           else let nonce = take nonce_size (env_ciphertext e) in
             case box_open C (drop nonce_size (env_ciphertext e)) nonce from_x (id_x_priv to) of
               None \<Rightarrow> Inl OpenFailed
             | Some plain \<Rightarrow> Inr plain))"

subsection \<open>The signed bytes determine the envelope\<close>

definition field_ok :: "bytes \<Rightarrow> bool" where
  "field_ok b \<longleftrightarrow> length b < 2 ^ 32"

lemma put_field_inject:
  assumes "field_ok a" "field_ok b" "put_field a @ r = put_field b @ s"
  shows "a = b \<and> r = s"
proof -
  from assms(3) have "put_be32 (word_of_nat (length a)) = put_be32 (word_of_nat (length b))"
    and rest: "a @ r = b @ s"
    by (simp_all add: put_field_def append_eq_append_conv)
  then have "(word_of_nat (length a) :: 32 word) = word_of_nat (length b)" by simp
  then have "unat (word_of_nat (length a) :: 32 word) = unat (word_of_nat (length b) :: 32 word)"
    by simp
  then have "length a = length b"
    using assms(1,2) by (simp add: field_ok_def unat_of_nat)
  with rest show ?thesis by simp
qed

definition fields_ok :: "envelope \<Rightarrow> bool" where
  "fields_ok e \<longleftrightarrow> field_ok (bytes_of (env_id e)) \<and> field_ok (env_from e) \<and> field_ok (env_to e) \<and>
     field_ok (bytes_of (env_type e)) \<and> field_ok (env_ciphertext e)"

lemma field_ok_be64 [simp]: "field_ok (put_be64 v)"
  by (simp add: field_ok_def)

lemma signedBytes_inject:
  assumes "fields_ok e" "fields_ok f" "signedBytes e = signedBytes f"
  shows "e = f\<lparr>env_sig := env_sig e\<rparr>"
proof -
  from assms(1,2) have ok: "field_ok (bytes_of (env_id e))" "field_ok (bytes_of (env_id f))"
    "field_ok (env_from e)" "field_ok (env_from f)" "field_ok (env_to e)" "field_ok (env_to f)"
    "field_ok (bytes_of (env_type e))" "field_ok (bytes_of (env_type f))"
    "field_ok (env_ciphertext e)" "field_ok (env_ciphertext f)"
    by (simp_all add: fields_ok_def)
  note eq = assms(3) [unfolded signedBytes_def]
  note s1 = put_field_inject [OF ok(1,2) eq]
  note s2 = put_field_inject [OF ok(3,4) s1 [THEN conjunct2]]
  note s3 = put_field_inject [OF ok(5,6) s2 [THEN conjunct2]]
  note s4 = put_field_inject [OF field_ok_be64 field_ok_be64 s3 [THEN conjunct2]]
  note s5 = put_field_inject [OF ok(7,8) s4 [THEN conjunct2]]
  have s6: "env_ciphertext e = env_ciphertext f"
    using put_field_inject [OF ok(9,10), of "[]" "[]"] s5 by simp
  show ?thesis
    using s1 s2 s3 s4 s5 s6 by (cases e; cases f) simp
qed

subsection \<open>Sealing and opening\<close>

lemma signedBytes_sig [simp]: "signedBytes (e\<lparr>env_sig := x\<rparr>) = signedBytes e"
  by (simp add: signedBytes_def)

lemma verify_signed:
  assumes "sign_correct C" "env_from e = ed_public C priv" "length (env_from e) = 32"
  shows "env_verify C (env_sign C priv e) =
    (if env_ts e = 0 then Some MissingTs
     else if length (env_ciphertext e) < nonce_size + 16 then Some CiphertextTooSmall
     else if max_ciphertext < length (env_ciphertext e) then Some CiphertextTooLarge
     else None)"
  using assms by (simp add: env_verify_def env_sign_def sign_correct_def)

lemma seal_Inr:
  assumes "seal C rn ri now from to_x to_ed typ plain = Inr e"
  obtains nonce i where "rn = Some nonce" "ri = Some i" "length plain \<le> max_plaintext"
    "e = env_sign C (id_ed_priv from)
           \<lparr>env_id = hex_encode i, env_from = id_ed_pub from, env_to = to_ed, env_ts = now,
            env_type = typ, env_sig = [],
            env_ciphertext = nonce @ box_seal C plain nonce to_x (id_x_priv from)\<rparr>"
  using assms by (auto simp: seal_def Let_def split: if_splits option.splits)

lemma seal_verifies:
  assumes C: "sign_correct C" "box_correct C" and ids: "wf_identity C from" "wf_identity C to"
    and now: "now \<noteq> 0" and nonce: "\<And>n. rn = Some n \<Longrightarrow> length n = nonce_size"
    and e: "seal C rn ri now from (id_x_pub to) to_ed typ plain = Inr e"
  shows "env_verify C e = None"
proof -
  from e obtain n i where n: "rn = Some n" and len: "length plain \<le> max_plaintext"
    and e: "e = env_sign C (id_ed_priv from)
           \<lparr>env_id = hex_encode i, env_from = id_ed_pub from, env_to = to_ed, env_ts = now,
            env_type = typ, env_sig = [],
            env_ciphertext = n @ box_seal C plain n (id_x_pub to) (id_x_priv from)\<rparr>"
    by (rule seal_Inr)
  have "length (box_seal C plain n (id_x_pub to) (id_x_priv from)) = length plain + 16"
    using C(2) ids(2) by (simp add: box_correct_def wf_identity_def)
  moreover have "length n = 24" using nonce [OF n] by (simp add: nonce_size_def)
  moreover have "length (ed_public C (id_ed_priv from)) = 32"
    "id_ed_pub from = ed_public C (id_ed_priv from)"
    using ids(1) unfolding wf_identity_def by metis+
  ultimately show ?thesis
    unfolding e using C(1) now len
    by (subst verify_signed) (simp_all add: env_consts)
qed

subsection \<open>Properties\<close>

text \<open>
  C17: The bytes an envelope's signature covers determine the envelope: two envelopes with the
  same signed bytes (every field shorter than 4 GiB) agree in identifier, sender, addressee,
  time, type and ciphertext, so a signature can be moved to no other envelope.
\<close>

theorem signed_bytes_canonical:
  assumes "fields_ok e" "fields_ok f" "signedBytes e = signedBytes f"
  shows "env_id e = env_id f \<and> env_from e = env_from f \<and> env_to e = env_to f \<and>
    env_ts e = env_ts f \<and> env_type e = env_type f \<and> env_ciphertext e = env_ciphertext f"
proof -
  note eq = signedBytes_inject [OF assms]
  show ?thesis
    using arg_cong [OF eq, of env_id] arg_cong [OF eq, of env_from] arg_cong [OF eq, of env_to]
      arg_cong [OF eq, of env_ts] arg_cong [OF eq, of env_type] arg_cong [OF eq, of env_ciphertext]
    by simp
qed

definition demo_envelope :: envelope where
  "demo_envelope =
     \<lparr>env_id = ''00ff'', env_from = replicate 32 1, env_to = replicate 32 2, env_ts = 1700000000,
      env_type = ''chat'', env_sig = [7], env_ciphertext = replicate 48 3\<rparr>"

theorem signed_bytes_canonical_witness:
  "env_to (demo_envelope\<lparr>env_sig := [8]\<rparr>) = env_to demo_envelope"
proof -
  have "fields_ok demo_envelope" "fields_ok (demo_envelope\<lparr>env_sig := [8]\<rparr>)"
    by (simp_all add: fields_ok_def field_ok_def demo_envelope_def)
  moreover have "signedBytes (demo_envelope\<lparr>env_sig := [8]\<rparr>) = signedBytes demo_envelope" by simp
  ultimately show ?thesis using signed_bytes_canonical by blast
qed

text \<open>
  C4: A message of at most 32 KiB sealed for a recipient passes \<open>Verify\<close> on every hub it crosses
  and opens, for that recipient and with the sender's box key, to exactly the plaintext; a longer
  one, and a failing random source, are refused before anything is sealed.
\<close>

theorem seal_open:
  assumes "sign_correct C" "box_correct C" "wf_identity C from" "wf_identity C to"
    and "now \<noteq> 0" "length n = nonce_size"
  shows "if max_plaintext < length plain
      then seal C (Some n) (Some i) now from (id_x_pub to) to_ed typ plain = Inl PlaintextTooLarge
      else (\<exists>e. seal C (Some n) (Some i) now from (id_x_pub to) to_ed typ plain = Inr e
           \<and> env_verify C e = None \<and> env_to e = to_ed
           \<and> open_env C to (id_x_pub from) e = Inr plain)"
proof (cases "length plain \<le> max_plaintext")
  case True
  define e where "e = env_sign C (id_ed_priv from)
           \<lparr>env_id = hex_encode i, env_from = id_ed_pub from, env_to = to_ed, env_ts = now,
            env_type = typ, env_sig = [],
            env_ciphertext = n @ box_seal C plain n (id_x_pub to) (id_x_priv from)\<rparr>"
  have e: "seal C (Some n) (Some i) now from (id_x_pub to) to_ed typ plain = Inr e"
    using True by (simp add: seal_def e_def)
  have v: "env_verify C e = None"
    using seal_verifies [OF assms(1-5) _ e] assms(6) by simp
  have ct: "env_ciphertext e = n @ box_seal C plain n (id_x_pub to) (id_x_priv from)"
    and to: "env_to e = to_ed"
    by (simp_all add: e_def env_sign_def)
  have "box_open C (box_seal C plain n (id_x_pub to) (id_x_priv from)) n (id_x_pub from)
      (id_x_priv to) = Some plain"
    using assms(2-4) by (simp add: box_correct_def wf_identity_def)
  then have "open_env C to (id_x_pub from) e = Inr plain"
    using v assms(6) by (simp add: open_env_def ct Let_def)
  with True e v to show ?thesis by simp
qed (simp add: seal_def)

text \<open>A concrete instance of the primitives, with no secrecy, for the witnesses.\<close>

definition demo_crypto :: crypto where
  "demo_crypto =
     \<lparr>ed_public = drop 32, ed_sign = (\<lambda>priv msg. drop 32 priv @ msg),
      ed_verify = (\<lambda>pub msg sig. sig = pub @ msg), x_public = id,
      box_seal = (\<lambda>msg nonce peer priv. replicate 16 0 @ msg),
      box_open = (\<lambda>box nonce peer priv. Some (drop 16 box))\<rparr>"

definition demo_identity :: "byte \<Rightarrow> identity" where
  "demo_identity b =
     \<lparr>id_ed_priv = replicate 64 b, id_ed_pub = replicate 32 b, id_x_priv = replicate 32 b,
      id_x_pub = replicate 32 b, id_name = ''demo''\<rparr>"

lemma demo_crypto_ok: "sign_correct demo_crypto" "box_correct demo_crypto"
  by (simp_all add: sign_correct_def box_correct_def demo_crypto_def)

lemma demo_identity_ok: "wf_identity demo_crypto (demo_identity b)"
  by (simp add: wf_identity_def demo_crypto_def demo_identity_def)

theorem seal_open_witness:
  "\<exists>e. seal demo_crypto (Some (replicate 24 9)) (Some [1]) 5 (demo_identity 1)
          (id_x_pub (demo_identity 2)) [2] ''chat'' [104, 105] = Inr e \<and>
       open_env demo_crypto (demo_identity 2) (id_x_pub (demo_identity 1)) e = Inr [104, 105]"
proof -
  have "length [104, 105 :: byte] \<le> max_plaintext" by (simp add: max_plaintext_def)
  then show ?thesis
    using seal_open [OF demo_crypto_ok demo_identity_ok [of 1] demo_identity_ok [of 2],
      of 5 "replicate 24 9" "[104, 105]" "[1]" "[2]" "''chat''"]
    by (auto simp: nonce_size_def seal_def)
qed

end
