(* ===== verification/Wire_Frames.thy ===== *)
theory Wire_Frames
  imports Envelope Interfaces
begin

section \<open>The wire protocol (\<open>hub/wire.go\<close>, frames of \<open>hub/transport.go\<close>)\<close>

text \<open>
  Messages travel as JSON objects behind a four-byte big-endian length. This theory models the
  message types, \<open>WriteFrame\<close> and \<open>ReadFrame\<close>, and the \<open>frameConn\<close> that adds packet capture.
  The JSON text of a value is a parameter, the record \<open>json_lib\<close>: one encoder and one decoder
  per Go type that the protocol marshals. A decoder that fails is \<open>None\<close>; where the code
  ignores the error (\<open>Ping\<close>) the decoder gives the value the struct is left with.
  A byte stream to read from is the list of bytes that will arrive before the peer closes; the
  writer is a function that takes its state and the bytes of one \<open>Write\<close> and may fail.
\<close>

subsection \<open>Message types\<close>

definition TypeHello :: string where "TypeHello = ''hello''"
definition TypeHelloOK :: string where "TypeHelloOK = ''hello_ok''"
definition TypePeerHello :: string where "TypePeerHello = ''peer_hello''"
definition TypePeerOK :: string where "TypePeerOK = ''peer_ok''"
definition TypeEnvelope :: string where "TypeEnvelope = ''envelope''"
definition TypePresence :: string where "TypePresence = ''presence''"
definition TypePresenceGossip :: string where "TypePresenceGossip = ''presence_gossip''"
definition TypePing :: string where "TypePing = ''ping''"
definition TypePong :: string where "TypePong = ''pong''"
definition TypeError :: string where "TypeError = ''error''"

lemmas type_consts = TypeHello_def TypeHelloOK_def TypePeerHello_def TypePeerOK_def
  TypeEnvelope_def TypePresence_def TypePresenceGossip_def TypePing_def TypePong_def TypeError_def

definition MaxFrame :: nat where "MaxFrame = 2 ^ 20"

definition RoleSpoke :: string where "RoleSpoke = ''spoke''"
definition RoleHub :: string where "RoleHub = ''hub''"

lemmas role_consts = RoleSpoke_def RoleHub_def

record message =
  msg_type :: string
  msg_body :: bytes

record hello =
  hel_role :: string
  hel_ed :: bytes
  hel_x :: bytes
  hel_name :: string
  hel_ts :: "64 word"
  hel_cloud :: bool
  hel_v6 :: string
  hel_v4 :: string
  hel_port :: "16 word"
  hel_sig :: bytes

record hello_ok =
  hok_ed :: bytes
  hok_x :: bytes
  hok_name :: string
  hok_observed :: string
  hok_ts :: "64 word"
  hok_sig :: bytes
  hok_cloud :: bool

record presence =
  pre_pubs :: "bytes list"
  pre_x :: bytes
  pre_name :: string

record gossip_entry =
  ge_pub :: bytes
  ge_x :: bytes
  ge_name :: string

record presence_gossip =
  pg_hub :: bytes
  pg_entries :: "gossip_entry list"
  pg_seq :: "64 word"
  pg_bloom :: bytes
  pg_sig :: bytes

text \<open>The clock reading of a \<open>Ping\<close> is an \<open>int64\<close>; its decoder yields no other value.\<close>

record json_lib =
  js_message :: "message \<Rightarrow> bytes option"
  un_message :: "bytes \<Rightarrow> message option"
  js_hello :: "hello \<Rightarrow> bytes"
  un_hello :: "bytes \<Rightarrow> hello option"
  js_hello_ok :: "hello_ok \<Rightarrow> bytes"
  un_hello_ok :: "bytes \<Rightarrow> hello_ok option"
  js_envelope :: "envelope \<Rightarrow> bytes"
  un_envelope :: "bytes \<Rightarrow> envelope option"
  js_presence :: "presence \<Rightarrow> bytes"
  un_presence :: "bytes \<Rightarrow> presence option"
  js_gossip :: "presence_gossip \<Rightarrow> bytes"
  un_gossip :: "bytes \<Rightarrow> presence_gossip option"
  js_ping :: "int \<Rightarrow> bytes"
  un_ping :: "bytes \<Rightarrow> int"

definition msgOf :: "string \<Rightarrow> bytes \<Rightarrow> message" where
  "msgOf t body = \<lparr>msg_type = t, msg_body = body\<rparr>"

lemma msgOf_inject [simp]: "msgOf t b = msgOf t' b' \<longleftrightarrow> t = t' \<and> b = b'"
  by (simp add: msgOf_def)

lemma msgOf_sel [simp]: "msg_type (msgOf t b) = t" "msg_body (msgOf t b) = b"
  by (simp_all add: msgOf_def)

subsection \<open>Frames\<close>

datatype wire_error =
    WireMarshal
  | FrameTooLarge
  | WriteFailed
  | EOF
  | UnexpectedEOF
  | BadFrameLength
  | WireUnmarshal

type_synonym 'w writer = "'w \<Rightarrow> bytes \<Rightarrow> 'w \<times> bool"

definition write_frame :: "json_lib \<Rightarrow> 'w writer \<Rightarrow> 'w \<Rightarrow> message \<Rightarrow> 'w \<times> wire_error option" where
  "write_frame J wr w msg =
     (case js_message J msg of
        None \<Rightarrow> (w, Some WireMarshal)
      | Some body \<Rightarrow>
          (if MaxFrame < length body then (w, Some FrameTooLarge)
           else case wr w (put_be32 (word_of_nat (length body))) of
             (w1, False) \<Rightarrow> (w1, Some WriteFailed)
           | (w1, True) \<Rightarrow>
               (case wr w1 body of
                  (w2, ok) \<Rightarrow> (w2, if ok then None else Some WriteFailed))))"

text \<open>
  \<open>io.ReadFull\<close>: all \<open>n\<close> bytes, or an error that tells an empty stream from a short one; a
  failed read has consumed what there was.
\<close>

definition read_full :: "nat \<Rightarrow> bytes \<Rightarrow> (wire_error + bytes) \<times> bytes" where
  "read_full n s =
     (if n \<le> length s then (Inr (take n s), drop n s)
      else (Inl (if s = [] then EOF else UnexpectedEOF), []))"

definition read_frame :: "json_lib \<Rightarrow> bytes \<Rightarrow> (wire_error + message) \<times> bytes" where
  "read_frame J s =
     (case read_full 4 s of
        (Inl e, r) \<Rightarrow> (Inl e, r)
      | (Inr hdr, r) \<Rightarrow>
          (let n = unat (be32 hdr) in
           if n = 0 \<or> MaxFrame < n then (Inl BadFrameLength, r)
           else case read_full n r of
             (Inl e, r') \<Rightarrow> (Inl e, r')
           | (Inr buf, r') \<Rightarrow>
               (case un_message J buf of
                  None \<Rightarrow> (Inl WireUnmarshal, r')
                | Some msg \<Rightarrow> (Inr msg, r'))))"

text \<open>A message that JSON carries unchanged: it marshals, and the text reads back as it.\<close>

definition json_message_ok :: "json_lib \<Rightarrow> message \<Rightarrow> bool" where
  "json_message_ok J m \<longleftrightarrow>
     (case js_message J m of
        None \<Rightarrow> False
      | Some b \<Rightarrow> b \<noteq> [] \<and> un_message J b = Some m)"

definition frame :: "json_lib \<Rightarrow> message \<Rightarrow> bytes" where
  "frame J m = (case js_message J m of
     None \<Rightarrow> [] | Some b \<Rightarrow> put_be32 (word_of_nat (length b)) @ b)"

text \<open>The reader's loop: frames until the first error.\<close>

fun read_frames :: "nat \<Rightarrow> json_lib \<Rightarrow> bytes \<Rightarrow> message list \<times> wire_error option" where
  "read_frames 0 J s = ([], None)"
| "read_frames (Suc n) J s =
     (case read_frame J s of
        (Inl e, r) \<Rightarrow> ([], Some e)
      | (Inr m, r) \<Rightarrow> (case read_frames n J r of (ms, e) \<Rightarrow> (m # ms, e)))"

lemma read_full_append [simp]: "length a = n \<Longrightarrow> read_full n (a @ r) = (Inr a, r)"
  by (simp add: read_full_def)

lemma read_full_rest: "read_full n s = (x, r) \<Longrightarrow> \<exists>p. s = p @ r"
  by (auto simp: read_full_def split: if_splits intro: exI [of _ "take n s"])

lemma read_frame_rest: "read_frame J s = (x, r) \<Longrightarrow> \<exists>p. s = p @ r"
  by (fastforce simp: read_frame_def Let_def split: prod.splits sum.splits if_splits option.splits
      dest!: read_full_rest)

lemma read_frame_frame:
  assumes "json_message_ok J m" "length (the (js_message J m)) \<le> MaxFrame"
  shows "read_frame J (frame J m @ r) = (Inr m, r)"
proof -
  from assms obtain b where b: "js_message J m = Some b" "b \<noteq> []" "un_message J b = Some m"
    and len: "length b \<le> MaxFrame"
    by (auto simp: json_message_ok_def split: option.splits)
  have "unat (word_of_nat (length b) :: 32 word) = length b"
    using len by (simp add: unat_of_nat MaxFrame_def)
  then show ?thesis
    using b len by (simp add: read_frame_def frame_def)
qed

lemma read_frames_stream:
  assumes "\<forall>m \<in> set ms. json_message_ok J m \<and> length (the (js_message J m)) \<le> MaxFrame"
  shows "read_frames (length ms + n) J (concat (map (frame J) ms) @ r) =
    (case read_frames n J r of (ms', e) \<Rightarrow> (ms @ ms', e))"
  using assms by (induction ms) (auto simp: read_frame_frame split: prod.splits)

text \<open>A buffer is a writer that never fails.\<close>

definition buffer_write :: "bytes writer" where
  "buffer_write w b = (w @ b, True)"

lemma write_frame_buffer:
  assumes "json_message_ok J m" "length (the (js_message J m)) \<le> MaxFrame"
  shows "write_frame J buffer_write w m = (w @ frame J m, None)"
  using assms by (auto simp: write_frame_def frame_def buffer_write_def json_message_ok_def
      split: option.splits)

subsection \<open>Connections with capture (\<open>frameConn\<close>)\<close>

record 'w frame_conn =
  fc_writer :: 'w
  fc_in :: bytes
  fc_dump :: bytes
  fc_capture :: bool

text \<open>\<open>ReadMsg\<close> tees every byte it consumes into the dump when capturing.\<close>

definition conn_read :: "json_lib \<Rightarrow> 'w frame_conn \<Rightarrow> (wire_error + message) \<times> 'w frame_conn" where
  "conn_read J c =
     (case read_frame J (fc_in c) of
        (res, r) \<Rightarrow>
          (res, c\<lparr>fc_in := r,
                  fc_dump := (if fc_capture c
                    then fc_dump c @ take (length (fc_in c) - length r) (fc_in c)
                    else fc_dump c)\<rparr>))"

definition conn_write ::
  "json_lib \<Rightarrow> 'w writer \<Rightarrow> 'w frame_conn \<Rightarrow> message \<Rightarrow> 'w frame_conn \<times> wire_error option" where
  "conn_write J wr c msg =
     (let c1 = (if fc_capture c
                then c\<lparr>fc_dump := fc_dump c @ (case js_message J msg of None \<Rightarrow> [] | Some b \<Rightarrow> b)\<rparr>
                else c)
      in case write_frame J wr (fc_writer c1) msg of
           (w, e) \<Rightarrow> (c1\<lparr>fc_writer := w\<rparr>, e))"

subsection \<open>Properties\<close>

text \<open>
  Messages written one after the other with \<open>WriteFrame\<close> come out of \<open>ReadFrame\<close> in the same
  order and unchanged, and the reader then stands exactly at the bytes that follow: no message
  of at most 1 MiB can be split, merged or lost by the framing.
\<close>

theorem frame_stream_roundtrip:
  assumes "\<forall>m \<in> set ms. json_message_ok J m \<and> length (the (js_message J m)) \<le> MaxFrame"
  shows "read_frames (length ms) J
      (fst (foldl (\<lambda>(w, e) m. write_frame J buffer_write w m) ([], None) ms) @ r) = (ms, None)"
proof -
  have "foldl (\<lambda>(w, e) m. write_frame J buffer_write w m) (w, None) ms =
      (w @ concat (map (frame J) ms), None)" for w
    using assms by (induction ms arbitrary: w) (simp_all add: write_frame_buffer)
  then show ?thesis
    using read_frames_stream [OF assms, of 0 r] by simp
qed

text \<open>A small concrete JSON library for the witnesses: every text is its own message body.\<close>

definition demo_json :: json_lib where
  "demo_json =
     \<lparr>js_message = (\<lambda>m. Some (byte_of_char (hd (msg_type m @ ''-'')) # msg_body m)),
      un_message = (\<lambda>b. case b of [] \<Rightarrow> None
         | c # r \<Rightarrow> Some \<lparr>msg_type = [char_of_byte c], msg_body = r\<rparr>),
      js_hello = (\<lambda>h. []), un_hello = (\<lambda>b. None), js_hello_ok = (\<lambda>h. []), un_hello_ok = (\<lambda>b. None),
      js_envelope = (\<lambda>e. []), un_envelope = (\<lambda>b. None), js_presence = (\<lambda>p. []),
      un_presence = (\<lambda>b. None), js_gossip = (\<lambda>g. []), un_gossip = (\<lambda>b. None),
      js_ping = (\<lambda>t. []), un_ping = (\<lambda>b. 0)\<rparr>"

theorem frame_stream_roundtrip_witness:
  "read_frames 2 demo_json
     (fst (foldl (\<lambda>(w, e) m. write_frame demo_json buffer_write w m) ([], None)
        [msgOf ''a'' [1, 2], msgOf ''b'' []]) @ [9]) = ([msgOf ''a'' [1, 2], msgOf ''b'' []], None)"
proof -
  have "\<forall>m \<in> set [msgOf ''a'' [1, 2], msgOf ''b'' []].
      json_message_ok demo_json m \<and> length (the (js_message demo_json m)) \<le> MaxFrame"
    by (simp add: json_message_ok_def demo_json_def msgOf_def MaxFrame_def)
  from frame_stream_roundtrip [OF this, of "[9]"] show ?thesis by (simp add: numeral_2_eq_2)
qed

text \<open>
  \<open>ReadFrame\<close> on any bytes: it fails with the end-of-stream errors of \<open>io.ReadFull\<close> on a short
  header or body, refuses a zero length and any length above 1 MiB after the four header bytes
  without reading a body, and otherwise consumes the header and exactly the announced bytes.
\<close>

theorem read_frame_cases:
  "read_frame J s =
    (if s = [] then (Inl EOF, [])
     else if length s < 4 then (Inl UnexpectedEOF, [])
     else let n = unat (be32 (take 4 s)); body = drop 4 s in
       if n = 0 \<or> MaxFrame < n then (Inl BadFrameLength, body)
       else if body = [] then (Inl EOF, [])
       else if length body < n then (Inl UnexpectedEOF, [])
       else ((case un_message J (take n body) of None \<Rightarrow> Inl WireUnmarshal | Some m \<Rightarrow> Inr m),
             drop n body))"
  by (auto simp: read_frame_def read_full_def Let_def split: option.splits)

text \<open>
  A capturing connection records exactly the traffic: after reading a message the dump has
  grown by precisely the bytes that left the stream (also when the read fails), after writing
  one by its JSON text, and without capture the dump does not change.
\<close>

theorem capture_exact:
  "conn_read J c = (res, c') \<Longrightarrow>
     (if fc_capture c then \<exists>p. fc_in c = p @ fc_in c' \<and> fc_dump c' = fc_dump c @ p
      else fc_dump c' = fc_dump c) \<and>
     fc_dump (fst (conn_write J wr c' m)) =
       fc_dump c' @ (if fc_capture c then (case js_message J m of None \<Rightarrow> [] | Some b \<Rightarrow> b) else [])"
  by (auto simp: conn_read_def conn_write_def Let_def split: prod.splits dest!: read_frame_rest)

theorem capture_exact_witness:
  "let c = \<lparr>fc_writer = [], fc_in = [0, 0, 0, 2, 97, 5, 77], fc_dump = [], fc_capture = True\<rparr> in
   fc_dump (fst (conn_write demo_json buffer_write (snd (conn_read demo_json c)) (msgOf ''b'' [6]))) =
     [0, 0, 0, 2, 97, 5, 98, 6]"
  (is "let c = ?c in _")
proof -
  obtain res c' where c': "conn_read demo_json ?c = (res, c')" by fastforce
  have "fc_dump c' = [0, 0, 0, 2, 97, 5]"
    using c' by (auto simp: conn_read_def read_frame_cases demo_json_def MaxFrame_def Let_def)
  with capture_exact [OF c', of buffer_write "msgOf ''b'' [6]"] c' show ?thesis
    by (simp add: demo_json_def byte_of_char_def Let_def)
qed

end
