(* ===== verification/Handshake.thy ===== *)
theory Handshake
  imports Wire_Frames Sha256 "HOL-Library.AList"
begin

section \<open>Handshake messages, Bloom filter and replay filter (\<open>hub/handshake.go\<close>)\<close>

text \<open>
  The signed parts of \<open>Hello\<close> and \<open>HelloOK\<close>, the Bloom filter that large presence gossip
  carries, and \<open>seenIDs\<close>, the filter that makes a hub forward an envelope once. The TLS
  certificate of the same file is set-up of a library and is not modelled: peers authenticate
  each other by the signed hellos only. A Go map is an association list with distinct keys; the
  refinement to a finite map is an interpretation of \<open>projection\<close>.
\<close>

subsection \<open>Signed hellos\<close>

definition helloSignedBytes :: "hello \<Rightarrow> bytes" where
  "helloSignedBytes h =
     bytes_of (hel_role h) @ hel_ed h @ hel_x h @ bytes_of (hel_name h) @ put_be64 (hel_ts h)
     @ bytes_of (hel_v6 h) @ bytes_of (hel_v4 h) @ put_be16 (hel_port h)"

definition hello_sign :: "crypto \<Rightarrow> bytes \<Rightarrow> hello \<Rightarrow> hello" where
  "hello_sign C priv h = h\<lparr>hel_sig := ed_sign C priv (helloSignedBytes h)\<rparr>"

text \<open>The error is the single value \<open>errBadHello\<close>; the clock comparison has an empty body.\<close>

definition hello_verify :: "crypto \<Rightarrow> hello \<Rightarrow> bool" where
  "hello_verify C h \<longleftrightarrow>
     \<not> (length (hel_ed h) \<noteq> 32) \<and>
     \<not> (\<not> ed_verify C (hel_ed h) (helloSignedBytes h) (hel_sig h))"

definition helloOKBytes :: "hello_ok \<Rightarrow> bytes" where
  "helloOKBytes h =
     hok_ed h @ hok_x h @ bytes_of (hok_name h) @ put_be64 (hok_ts h) @ bytes_of (hok_observed h)"

definition hello_ok_sign :: "crypto \<Rightarrow> bytes \<Rightarrow> hello_ok \<Rightarrow> hello_ok" where
  "hello_ok_sign C priv h = h\<lparr>hok_sig := ed_sign C priv (helloOKBytes h)\<rparr>"

definition hello_ok_verify :: "crypto \<Rightarrow> hello_ok \<Rightarrow> bool" where
  "hello_ok_verify C h \<longleftrightarrow>
     \<not> (length (hok_ed h) \<noteq> 32) \<and>
     \<not> (\<not> ed_verify C (hok_ed h) (helloOKBytes h) (hok_sig h))"

lemma hello_verify_signed:
  assumes "sign_correct C" "hel_ed h = ed_public C priv" "length (hel_ed h) = 32"
  shows "hello_verify C (hello_sign C priv h)"
  using assms by (simp add: hello_verify_def hello_sign_def helloSignedBytes_def sign_correct_def)

lemma hello_ok_verify_signed:
  assumes "sign_correct C" "hok_ed h = ed_public C priv" "length (hok_ed h) = 32"
  shows "hello_ok_verify C (hello_ok_sign C priv h)"
  using assms by (simp add: hello_ok_verify_def hello_ok_sign_def helloOKBytes_def sign_correct_def)

lemma hello_sign_sel [simp]:
  "hel_role (hello_sign C p h) = hel_role h" "hel_ed (hello_sign C p h) = hel_ed h"
  "hel_x (hello_sign C p h) = hel_x h" "hel_name (hello_sign C p h) = hel_name h"
  by (simp_all add: hello_sign_def)

lemma hello_ok_sign_sel [simp]:
  "hok_ed (hello_ok_sign C p h) = hok_ed h" "hok_x (hello_ok_sign C p h) = hok_x h"
  "hok_name (hello_ok_sign C p h) = hok_name h" "hok_cloud (hello_ok_sign C p h) = hok_cloud h"
  by (simp_all add: hello_ok_sign_def)

subsection \<open>Bloom filter\<close>

definition bloomM :: nat where "bloomM = 2048"
definition bloomK :: nat where "bloomK = 4"

lemmas bloom_consts = bloomM_def bloomK_def

definition newBloom :: bytes where "newBloom = replicate (bloomM div 8) 0"

definition bloomIndex :: "bytes \<Rightarrow> nat \<Rightarrow> nat" where
  "bloomIndex pub i = unat (be32 (take 4 (sha256 (word_of_nat i # pub)))) mod bloomM"

definition bloom_set :: "nat \<Rightarrow> bytes \<Rightarrow> bytes" where
  "bloom_set idx b = b[idx div 8 := b ! (idx div 8) OR push_bit (idx mod 8) 1]"

definition bloom_add :: "bytes \<Rightarrow> bytes \<Rightarrow> bytes" where
  "bloom_add b pub = fold (\<lambda>i. bloom_set (bloomIndex pub i)) [0..<bloomK] b"

definition bloom_bit :: "bytes \<Rightarrow> nat \<Rightarrow> bool" where
  "bloom_bit b idx \<longleftrightarrow> b ! (idx div 8) AND push_bit (idx mod 8) 1 \<noteq> 0"

definition bloom_has :: "bytes \<Rightarrow> bytes \<Rightarrow> bool" where
  "bloom_has b pub \<longleftrightarrow> list_all (\<lambda>i. bloom_bit b (bloomIndex pub i)) [0..<bloomK]"

definition bloom_inv :: "bytes \<Rightarrow> bool" where
  "bloom_inv b \<longleftrightarrow> length b = bloomM div 8"

definition bloom_view :: "bytes \<Rightarrow> nat set" where
  "bloom_view b = {k. k < bloomM \<and> bloom_bit b k}"

lemma bloomIndex_less [simp]: "bloomIndex pub i < bloomM"
  by (simp add: bloomIndex_def bloomM_def)

lemma bloom_bit_iff: "bloom_bit b k \<longleftrightarrow> bit (b ! (k div 8)) (k mod 8)"
proof -
  have "(w :: byte) AND push_bit n 1 \<noteq> 0 \<longleftrightarrow> bit w n" if "n < 8" for w n
  proof
    assume "w AND push_bit n 1 \<noteq> 0"
    then obtain j where "bit (w AND push_bit n 1) j" by (auto simp: bit_eq_iff)
    then show "bit w n" by (auto simp: byte_bits bit_1_iff)
  next
    assume "bit w n"
    then have "bit (w AND push_bit n 1) n" using that by (auto simp: byte_bits bit_1_iff)
    then show "w AND push_bit n 1 \<noteq> 0" by auto
  qed
  then show ?thesis by (simp add: bloom_bit_def)
qed

lemma bloom_set_inv: "bloom_inv b \<Longrightarrow> bloom_inv (bloom_set k b)"
  by (simp add: bloom_inv_def bloom_set_def)

lemma bloom_bit_set:
  assumes "bloom_inv b" "k < bloomM" "j < bloomM"
  shows "bloom_bit (bloom_set k b) j \<longleftrightarrow> j = k \<or> bloom_bit b j"
proof (cases "j div 8 = k div 8")
  case True
  have same: "j = k \<longleftrightarrow> j mod 8 = k mod 8"
    using True by (metis div_mult_mod_eq)
  have "k div 8 < length b" using assms by (simp add: bloom_inv_def bloom_consts)
  then have "bloom_set k b ! (j div 8) = b ! (j div 8) OR push_bit (k mod 8) 1"
    using True by (simp add: bloom_set_def)
  then show ?thesis
    using same by (auto simp: bloom_bit_iff byte_bits bit_1_iff)
next
  case False
  then have "bloom_set k b ! (j div 8) = b ! (j div 8)" by (simp add: bloom_set_def)
  moreover have "j \<noteq> k" using False by auto
  ultimately show ?thesis by (simp add: bloom_bit_iff)
qed

lemma bloom_view_set:
  "bloom_inv b \<Longrightarrow> k < bloomM \<Longrightarrow> bloom_view (bloom_set k b) = insert k (bloom_view b)"
  by (auto simp: bloom_view_def bloom_bit_set)

lemma bloom_fold:
  assumes "bloom_inv b"
  shows "bloom_inv (fold (\<lambda>i. bloom_set (bloomIndex pub i)) is b) \<and>
    bloom_view (fold (\<lambda>i. bloom_set (bloomIndex pub i)) is b) =
      bloom_view b \<union> bloomIndex pub ` set is"
  using assms by (induction "is" arbitrary: b) (auto simp: bloom_set_inv bloom_view_set)

lemma bloom_has_view:
  "bloom_has b pub \<longleftrightarrow> bloomIndex pub ` {0..<bloomK} \<subseteq> bloom_view b"
  by (auto simp: bloom_has_def bloom_view_def list_all_iff)

text \<open>The bit array refines the set of marked positions.\<close>

interpretation bloom_set_view: projection bloom_add bloom_inv bloom_view
  "\<lambda>S pub. S \<union> bloomIndex pub ` {0..<bloomK}"
  by unfold_locales (simp_all add: bloom_add_def bloom_fold)

lemma newBloom_inv: "bloom_inv newBloom"
  by (simp add: bloom_inv_def newBloom_def)

lemma newBloom_view: "bloom_view newBloom = {}"
  by (auto simp: bloom_view_def bloom_bit_def newBloom_def bloom_consts)

lemma foldl_union: "foldl (\<lambda>S x. S \<union> f x) A xs = A \<union> (\<Union>x \<in> set xs. f x)"
  by (induction xs arbitrary: A) auto

subsection \<open>Replay filter\<close>

type_synonym seen = "(string \<times> instant) list"

definition newSeen :: seen where "newSeen = []"

definition seen_limit :: nat where "seen_limit = 4096"
definition seen_window :: int where "seen_window = 10 * 60 * second"

text \<open>The clock is read for the entry and, past the limit, again for the cut.\<close>

definition seen_add :: "instant \<Rightarrow> instant \<Rightarrow> string \<Rightarrow> seen \<Rightarrow> seen \<times> bool" where
  "seen_add now now' i m =
     (if map_of m i \<noteq> None then (m, False)
      else let m1 = AList.update i now m in
        if seen_limit < length m1
        then (filter (\<lambda>(k, t). \<not> t < now' - seen_window) m1, True)
        else (m1, True))"

definition seen_inv :: "seen \<Rightarrow> bool" where
  "seen_inv m \<longleftrightarrow> distinct (map fst m)"

type_synonym seen_op = "instant \<times> instant \<times> string"

definition seen_step :: "seen \<Rightarrow> seen_op \<Rightarrow> seen" where
  "seen_step m = (\<lambda>(now, now', i). fst (seen_add now now' i m))"

text \<open>The same operation on a finite map, which is what the Go map is.\<close>

definition seen_astep :: "(string \<rightharpoonup> instant) \<Rightarrow> seen_op \<Rightarrow> string \<rightharpoonup> instant" where
  "seen_astep m = (\<lambda>(now, now', i).
     if m i \<noteq> None then m
     else let m1 = m(i \<mapsto> now) in
       if seen_limit < card (dom m1)
       then (\<lambda>k. case m1 k of None \<Rightarrow> None | Some t \<Rightarrow> if t < now' - seen_window then None else Some t)
       else m1)"

lemma map_of_filter_val:
  "distinct (map fst m) \<Longrightarrow> map_of (filter (\<lambda>(k, v). P v) m) k =
    (case map_of m k of None \<Rightarrow> None | Some v \<Rightarrow> if P v then Some v else None)"
  by (induction m) (auto split: option.splits dest: weak_map_of_SomeI simp: map_of_eq_None_iff rev_image_eqI)

lemma seen_inv_add: "seen_inv m \<Longrightarrow> seen_inv (fst (seen_add now now' i m))"
  by (auto simp: seen_inv_def seen_add_def Let_def distinct_update distinct_map_filter)

lemma dom_card_alist: "distinct (map fst m) \<Longrightarrow> card (dom (map_of m)) = length m"
  by (metis distinct_card dom_map_of_conv_image_fst length_map list.set_map)

interpretation seen_map: projection seen_step seen_inv map_of seen_astep
proof unfold_locales
  fix m and x :: seen_op assume "seen_inv m"
  then show "seen_inv (seen_step m x)"
    by (cases x) (simp add: seen_step_def seen_inv_add)
next
  fix m and x :: seen_op assume inv: "seen_inv m"
  obtain now now' i where x: "x = (now, now', i)" by (cases x)
  have d: "distinct (map fst (AList.update i now m))"
    using inv by (simp add: seen_inv_def distinct_update)
  then have "card (dom ((map_of m)(i \<mapsto> now))) = length (AList.update i now m)"
    by (metis dom_card_alist update_conv')
  then show "map_of (seen_step m x) = seen_astep (map_of m) x"
    using map_of_filter_val [OF d, of "\<lambda>t. \<not> t < now' - seen_window"]
    by (auto simp: x seen_step_def seen_add_def seen_astep_def Let_def update_conv' fun_eq_iff
        split: option.splits)
qed

lemma seen_astep_keeps:
  "m i = Some t \<Longrightarrow> now' - seen_window \<le> t \<Longrightarrow> seen_astep m (now, now', j) i = Some t"
  by (auto simp: seen_astep_def Let_def)

lemma seen_foldl_keeps:
  "m i = Some t \<Longrightarrow> \<forall>(now, now', j) \<in> set ops. now' - seen_window \<le> t \<Longrightarrow>
    foldl seen_astep m ops i = Some t"
  by (induction ops arbitrary: m) (auto simp: seen_astep_keeps split: prod.splits)

lemma seen_add_accepts: "snd (seen_add now now' i m) \<longleftrightarrow> map_of m i = None"
  by (simp add: seen_add_def Let_def)

lemma seen_add_stores:
  assumes "seen_inv m" "snd (seen_add now now' i m)" "now' - seen_window \<le> now"
  shows "map_of (fst (seen_add now now' i m)) i = Some now"
proof -
  have "map_of (fst (seen_add now now' i m)) = seen_astep (map_of m) (now, now', i)"
    using seen_map.view_step [OF assms(1), of "(now, now', i)"] by (simp add: seen_step_def)
  then show ?thesis
    using assms(2,3) by (auto simp: seen_add_accepts seen_astep_def Let_def)
qed

subsection \<open>Properties\<close>

text \<open>
  The Bloom filter has no false negative and exactly the false positives its four hash
  positions allow: after adding any keys it answers yes for a key if and only if every position
  of that key is a position of some added key, it answers yes for each added key, and it stays
  256 bytes long, so no access is out of range.
\<close>

theorem bloom_exact:
  "length (foldl bloom_add newBloom pubs) = 256 \<and>
   (bloom_has (foldl bloom_add newBloom pubs) p \<longleftrightarrow>
      bloomIndex p ` {0..<bloomK} \<subseteq> (\<Union>q \<in> set pubs. bloomIndex q ` {0..<bloomK})) \<and>
   list_all (bloom_has (foldl bloom_add newBloom pubs)) pubs"
proof -
  have v: "bloom_view (foldl bloom_add newBloom pubs) =
      (\<Union>q \<in> set pubs. bloomIndex q ` {0..<bloomK})"
    using bloom_set_view.view_run [OF newBloom_inv, of pubs] by (simp add: newBloom_view foldl_union)
  have "length (foldl bloom_add newBloom pubs) = 256"
    using bloom_set_view.run_inv [OF newBloom_inv, of pubs] by (simp add: bloom_inv_def bloomM_def)
  then show ?thesis by (auto simp: bloom_has_view v list_all_iff)
qed

text \<open>
  An envelope identifier that \<open>seenIDs.Add\<close> accepted is refused by every later \<open>Add\<close> for at
  least ten minutes: whatever is added in between, and however often the table overflows and is
  swept, as long as each sweep reads the clock within ten minutes of the acceptance.
\<close>

theorem seen_no_replay:
  assumes "seen_inv m" "snd (seen_add now now' i m)" "now' - seen_window \<le> now"
    and "list_all (\<lambda>(t, t', j). t' - seen_window \<le> now) ops"
  shows "seen_add a b i (foldl seen_step (fst (seen_add now now' i m)) ops) =
    (foldl seen_step (fst (seen_add now now' i m)) ops, False)"
proof -
  have "map_of (foldl seen_step (fst (seen_add now now' i m)) ops) i = Some now"
    unfolding seen_map.view_run [OF seen_inv_add [OF assms(1)]]
    using seen_add_stores [OF assms(1-3)] assms(4)
    by (intro seen_foldl_keeps) (simp_all add: list_all_iff)
  then show ?thesis by (simp add: seen_add_def)
qed

theorem seen_no_replay_witness:
  "snd (seen_add 99 99 ''x'' (foldl seen_step (fst (seen_add 5 6 ''x'' newSeen)) [(7, 8, ''y''), (8, 9, ''x'')])) = False"
proof -
  have "seen_inv newSeen" "snd (seen_add 5 6 ''x'' newSeen)" "6 - seen_window \<le> 5"
    "list_all (\<lambda>(t, t', j). t' - seen_window \<le> 5) [(7, 8, ''y''), (8, 9, ''x'')]"
    by (simp_all add: seen_inv_def newSeen_def seen_add_def Let_def seen_window_def second_def)
  from seen_no_replay [OF this, of 99 99] show ?thesis by simp
qed

text \<open>
  The replay table cannot grow without limit on old traffic: an \<open>Add\<close> that is refused leaves
  it alone, and one that is accepted leaves at most 4096 identifiers or only identifiers accepted
  within the last ten minutes; the keys stay distinct.
\<close>

theorem seen_bounded:
  "if snd (seen_add now now' i m)
   then length (fst (seen_add now now' i m)) \<le> 4096 \<or>
        list_all (\<lambda>(k, t). now' - seen_window \<le> t) (fst (seen_add now now' i m))
   else fst (seen_add now now' i m) = m"
  by (auto simp: seen_add_def Let_def list_all_iff seen_limit_def)

text \<open>
  What the signature of a hello protects: two hellos with the same signed bytes, whose keys
  have the fixed size and whose role and name have the same lengths, have the same role, keys,
  name, time and port, and the same listen addresses up to the boundary between them.
\<close>

theorem hello_signature_binds:
  assumes "helloSignedBytes h = helloSignedBytes k"
    and "length (hel_ed h) = 32" "length (hel_ed k) = 32" "length (hel_x h) = length (hel_x k)"
    and "length (hel_role h) = length (hel_role k)" "length (hel_name h) = length (hel_name k)"
  shows "hel_role h = hel_role k \<and> hel_ed h = hel_ed k \<and> hel_x h = hel_x k \<and>
    hel_name h = hel_name k \<and> hel_ts h = hel_ts k \<and> hel_port h = hel_port k \<and>
    hel_v6 h @ hel_v4 h = hel_v6 k @ hel_v4 k"
proof -
  have "(bytes_of (hel_role h) @ hel_ed h @ hel_x h @ bytes_of (hel_name h) @ put_be64 (hel_ts h)
        @ bytes_of (hel_v6 h) @ bytes_of (hel_v4 h)) @ put_be16 (hel_port h) =
      (bytes_of (hel_role k) @ hel_ed k @ hel_x k @ bytes_of (hel_name k) @ put_be64 (hel_ts k)
        @ bytes_of (hel_v6 k) @ bytes_of (hel_v4 k)) @ put_be16 (hel_port k)"
    using assms(1) by (simp add: helloSignedBytes_def)
  then have "bytes_of (hel_role h) @ hel_ed h @ hel_x h @ bytes_of (hel_name h) @ put_be64 (hel_ts h)
        @ bytes_of (hel_v6 h) @ bytes_of (hel_v4 h) =
      bytes_of (hel_role k) @ hel_ed k @ hel_x k @ bytes_of (hel_name k) @ put_be64 (hel_ts k)
        @ bytes_of (hel_v6 k) @ bytes_of (hel_v4 k)" and "hel_port h = hel_port k"
    by (subst (asm) append_eq_append_conv; simp)+
  then show ?thesis
    using assms(2-) by (simp add: append_eq_append_conv flip: bytes_of_append)
qed

text \<open>
  What it leaves open: the cloud flag of a hello and of its answer can be changed, and the
  boundary between the two listen addresses can be moved, without the receiver noticing.
\<close>

theorem hello_signature_gaps:
  "hello_verify C (h\<lparr>hel_cloud := c\<rparr>) = hello_verify C h \<and>
   hello_verify C (h\<lparr>hel_v6 := a @ b, hel_v4 := d\<rparr>) = hello_verify C (h\<lparr>hel_v6 := a, hel_v4 := b @ d\<rparr>) \<and>
   hello_ok_verify C (k\<lparr>hok_cloud := c\<rparr>) = hello_ok_verify C k"
  by (simp add: hello_verify_def hello_ok_verify_def helloSignedBytes_def helloOKBytes_def bytes_of_append)

definition demo_hello :: hello where
  "demo_hello =
     \<lparr>hel_role = RoleSpoke, hel_ed = replicate 32 1, hel_x = replicate 32 2, hel_name = ''ala'',
      hel_ts = 17, hel_cloud = False, hel_v6 = ''2001:db8::1'', hel_v4 = [], hel_port = 4433,
      hel_sig = []\<rparr>"

theorem hello_signature_binds_witness:
  "hel_role (demo_hello\<lparr>hel_v6 := ''2001:db8::'', hel_v4 := ''1''\<rparr>) = hel_role demo_hello"
proof -
  have "helloSignedBytes (demo_hello\<lparr>hel_v6 := ''2001:db8::'', hel_v4 := ''1''\<rparr>) = helloSignedBytes demo_hello"
    by (simp add: helloSignedBytes_def demo_hello_def bytes_of_def)
  from hello_signature_binds [OF this] show ?thesis by (simp add: demo_hello_def)
qed

end
