(* ===== verification/Go_Strings.thy ===== *)
theory Go_Strings
  imports Text_Encodings
begin

section \<open>The string functions of the standard library\<close>

text \<open>
  \<open>strings.ToUpper\<close>, \<open>ToLower\<close> and \<open>TrimSpace\<close> work byte by byte on an ASCII string, which is
  modelled here. On a string with a byte outside ASCII they consult the Unicode tables, which
  are data of the standard library and are a parameter of the model (\<open>go_unicode\<close>).
  \<open>for _, c := range s\<close> walks the runes of a string; \<open>rune_width\<close> is the UTF-8 decoder that
  decides how many bytes the rune at the front has, or that the byte there is invalid.
\<close>

subsection \<open>ASCII\<close>

definition is_ascii :: "string \<Rightarrow> bool" where
  "is_ascii s = list_all (\<lambda>c. of_char c < (128::nat)) s"

lemma is_ascii_append [simp]: "is_ascii (s @ t) \<longleftrightarrow> is_ascii s \<and> is_ascii t"
  by (simp add: is_ascii_def)

lemma is_ascii_mono: "is_ascii s \<Longrightarrow> set t \<subseteq> set s \<Longrightarrow> is_ascii t"
  by (auto simp: is_ascii_def list_all_iff)

record go_unicode =
  uni_upper :: "string \<Rightarrow> string"
  uni_lower :: "string \<Rightarrow> string"
  uni_trim :: "string \<Rightarrow> string"

definition upper_char :: "char \<Rightarrow> char" where
  "upper_char c =
     (let n = of_char c :: nat in if 97 \<le> n \<and> n \<le> 122 then char_of (n - 32) else c)"

definition lower_char :: "char \<Rightarrow> char" where
  "lower_char c =
     (let n = of_char c :: nat in if 65 \<le> n \<and> n \<le> 90 then char_of (n + 32) else c)"

definition is_space :: "char \<Rightarrow> bool" where
  "is_space c = (of_char c \<in> {9, 10, 11, 12, 13, 32 :: nat})"

definition to_upper :: "go_unicode \<Rightarrow> string \<Rightarrow> string" where
  "to_upper U s = (if is_ascii s then map upper_char s else uni_upper U s)"

definition to_lower :: "go_unicode \<Rightarrow> string \<Rightarrow> string" where
  "to_lower U s = (if is_ascii s then map lower_char s else uni_lower U s)"

definition trim_space :: "go_unicode \<Rightarrow> string \<Rightarrow> string" where
  "trim_space U s =
     (if is_ascii s then rev (dropWhile is_space (rev (dropWhile is_space s)))
      else uni_trim U s)"

text \<open>\<open>strings.ReplaceAll(s, string(c), "")\<close>, \<open>strings.HasPrefix\<close>.\<close>

definition remove_all :: "char \<Rightarrow> string \<Rightarrow> string" where
  "remove_all c s = filter (\<lambda>d. d \<noteq> c) s"

definition has_prefix :: "string \<Rightarrow> string \<Rightarrow> bool" where
  "has_prefix s p = (take (length p) s = p)"

lemma has_prefix_append [simp]: "has_prefix (p @ s) p"
  by (simp add: has_prefix_def)

lemma remove_all_id: "c \<notin> set s \<Longrightarrow> remove_all c s = s"
  by (auto simp: remove_all_def intro: filter_True)

lemma trim_space_id:
  assumes "is_ascii s" "\<forall>c \<in> set s. \<not> is_space c"
  shows "trim_space U s = s"
proof -
  have "dropWhile is_space s = s" using assms(2) by (cases s) auto
  moreover have "dropWhile is_space (rev s) = rev s"
    using assms(2) by (cases s rule: rev_cases) auto
  ultimately show ?thesis using assms(1) by (simp add: trim_space_def)
qed

subsection \<open>Runes\<close>

definition byte_in :: "nat \<Rightarrow> nat \<Rightarrow> char \<Rightarrow> bool" where
  "byte_in lo hi c = (lo \<le> of_char c \<and> of_char c \<le> hi)"

fun rune_width :: "string \<Rightarrow> nat option" where
  "rune_width [] = None"
| "rune_width (c # s) =
     (let n = of_char c :: nat;
          more = (\<lambda>lo hi k. case s of [] \<Rightarrow> None
                   | d # r \<Rightarrow> if byte_in lo hi d \<and> k \<le> length r + 1 \<and>
                                 list_all (byte_in 128 191) (take (k - 1) r)
                              then Some (k + 1) else None)
      in if n < 128 then Some 1
         else if 194 \<le> n \<and> n \<le> 223 then more 128 191 1
         else if n = 224 then more 160 191 2
         else if n = 237 then more 128 159 2
         else if 225 \<le> n \<and> n \<le> 239 then more 128 191 2
         else if n = 240 then more 144 191 3
         else if 241 \<le> n \<and> n \<le> 243 then more 128 191 3
         else if n = 244 then more 128 143 3
         else None)"

definition replacement_char :: string where
  "replacement_char = [CHR 0xEF, CHR 0xBF, CHR 0xBD]"

text \<open>
  A loop over the runes of a string that writes \<open>f c\<close> for an ASCII rune \<open>c\<close> and every other
  rune unchanged; an invalid byte is the rune U+FFFD, which \<open>WriteRune\<close> writes as three bytes.
\<close>

function map_runes :: "(char \<Rightarrow> string) \<Rightarrow> string \<Rightarrow> string" where
  "map_runes f [] = []"
| "map_runes f (c # s) =
     (case rune_width (c # s) of
        None \<Rightarrow> replacement_char @ map_runes f s
      | Some w \<Rightarrow> (if w = 1 then f c else take w (c # s)) @ map_runes f (drop (w - 1) s))"
  by pat_completeness auto
termination
  by (relation "measure (\<lambda>(f, s). length s)") auto

lemma map_runes_ascii: "is_ascii s \<Longrightarrow> map_runes f s = concat (map f s)"
  by (induction s) (simp_all add: is_ascii_def Let_def)

text \<open>\<open>strings.Contains\<close>.\<close>

fun str_contains :: "string \<Rightarrow> string \<Rightarrow> bool" where
  "str_contains [] sub = (sub = [])"
| "str_contains (c # s) sub = (take (length sub) (c # s) = sub \<or> str_contains s sub)"

end
