(* ===== verification/Net_IP.thy ===== *)
theory Net_IP
  imports Text_Encodings
begin

section \<open>Addresses of package \<open>net\<close>\<close>

text \<open>
  A \<open>net.IP\<close> is a byte slice that may be nil (\<open>None\<close>), of length 4 or 16 when valid. The
  classification functions are those of \<open>net/ip.go\<close>; \<open>ip_string\<close> and \<open>parse_ip\<close> are
  \<open>IP.String\<close> and \<open>net.ParseIP\<close> (through \<open>net/netip\<close>).
\<close>

type_synonym ip = "bytes option"

definition v4_in_v6_prefix :: bytes where
  "v4_in_v6_prefix = [0, 0, 0, 0, 0, 0, 0, 0, 0, 0, 0xff, 0xff]"

definition ip_len :: "ip \<Rightarrow> nat" where
  "ip_len a = (case a of None \<Rightarrow> 0 | Some b \<Rightarrow> length b)"

definition to4 :: "ip \<Rightarrow> ip" where
  "to4 a = (case a of None \<Rightarrow> None
    | Some b \<Rightarrow> if length b = 4 then Some b
               else if length b = 16 \<and> take 12 b = v4_in_v6_prefix then Some (drop 12 b)
               else None)"

definition to16 :: "ip \<Rightarrow> ip" where
  "to16 a = (case a of None \<Rightarrow> None
    | Some b \<Rightarrow> if length b = 4 then Some (v4_in_v6_prefix @ b)
               else if length b = 16 then Some b
               else None)"

definition ip_bytes :: "ip \<Rightarrow> bytes" where
  "ip_bytes a = (case a of None \<Rightarrow> [] | Some b \<Rightarrow> b)"

definition ip_equal :: "ip \<Rightarrow> ip \<Rightarrow> bool" where
  "ip_equal a b =
     (let x = ip_bytes a; y = ip_bytes b in
      if length x = length y then x = y
      else if length x = 4 \<and> length y = 16 then take 12 y = v4_in_v6_prefix \<and> x = drop 12 y
      else if length x = 16 \<and> length y = 4 then take 12 x = v4_in_v6_prefix \<and> y = drop 12 x
      else False)"

definition ipv6_zero :: ip where "ipv6_zero = Some (replicate 16 0)"

definition ipv6_loopback :: ip where "ipv6_loopback = Some (replicate 15 0 @ [1])"

definition ipv4_zero :: ip where "ipv4_zero = Some (v4_in_v6_prefix @ replicate 4 0)"

text \<open>\<open>net.IPv4(a, b, c, d)\<close> has the 16-byte form.\<close>

definition net_ipv4 :: "bytes \<Rightarrow> ip" where
  "net_ipv4 b = Some (v4_in_v6_prefix @ b)"

lemma length_v4_prefix [simp]: "length v4_in_v6_prefix = 12"
  by (simp add: v4_in_v6_prefix_def)

lemma to4_net_ipv4 [simp]: "length b = 4 \<Longrightarrow> to4 (net_ipv4 b) = Some b"
  by (simp add: to4_def net_ipv4_def)

lemma length_to4: "to4 a = Some b \<Longrightarrow> length b = 4"
  by (auto simp: to4_def split: option.splits if_splits)

lemma length_to16: "to16 a = Some b \<Longrightarrow> length b = 16"
  by (auto simp: to16_def split: option.splits if_splits)

lemma to4_None [simp]: "to4 None = None" and to16_None [simp]: "to16 None = None"
  by (simp_all add: to4_def to16_def)

lemma to16_of_16 [simp]: "length b = 16 \<Longrightarrow> to16 (Some b) = Some b"
  by (simp add: to16_def)

subsection \<open>Classification\<close>

definition is_loopback :: "ip \<Rightarrow> bool" where
  "is_loopback a = (case to4 a of Some b \<Rightarrow> b ! 0 = 127 | None \<Rightarrow> ip_equal a ipv6_loopback)"

definition is_private :: "ip \<Rightarrow> bool" where
  "is_private a =
     (case to4 a of
        Some b \<Rightarrow> b ! 0 = 10 \<or> (b ! 0 = 172 \<and> b ! 1 AND 0xf0 = 16) \<or> (b ! 0 = 192 \<and> b ! 1 = 168)
      | None \<Rightarrow> ip_len a = 16 \<and> ip_bytes a ! 0 AND 0xfe = 0xfc)"

definition is_link_local_unicast :: "ip \<Rightarrow> bool" where
  "is_link_local_unicast a =
     (case to4 a of
        Some b \<Rightarrow> b ! 0 = 169 \<and> b ! 1 = 254
      | None \<Rightarrow> ip_len a = 16 \<and> ip_bytes a ! 0 = 0xfe \<and> ip_bytes a ! 1 AND 0xc0 = 0x80)"

definition is_link_local_multicast :: "ip \<Rightarrow> bool" where
  "is_link_local_multicast a =
     (case to4 a of
        Some b \<Rightarrow> b ! 0 = 224 \<and> b ! 1 = 0 \<and> b ! 2 = 0
      | None \<Rightarrow> ip_len a = 16 \<and> ip_bytes a ! 0 = 0xff \<and> ip_bytes a ! 1 AND 0x0f = 0x02)"

definition is_multicast :: "ip \<Rightarrow> bool" where
  "is_multicast a =
     (case to4 a of
        Some b \<Rightarrow> b ! 0 AND 0xf0 = 0xe0
      | None \<Rightarrow> ip_len a = 16 \<and> ip_bytes a ! 0 = 0xff)"

definition is_unspecified :: "ip \<Rightarrow> bool" where
  "is_unspecified a = (ip_equal a ipv4_zero \<or> ip_equal a ipv6_zero)"

subsection \<open>Text form\<close>

text \<open>Dotted decimal for IPv4; the shortest form of RFC 5952 for IPv6.\<close>

definition ipv4_string :: "bytes \<Rightarrow> string" where
  "ipv4_string b =
     decimal (unat (b ! 0)) @ ''.'' @ decimal (unat (b ! 1)) @ ''.'' @
     decimal (unat (b ! 2)) @ ''.'' @ decimal (unat (b ! 3))"

fun ipv6_groups :: "bytes \<Rightarrow> nat list" where
  "ipv6_groups (a # b # r) = (256 * unat a + unat b) # ipv6_groups r"
| "ipv6_groups _ = []"

fun hex_nat :: "nat \<Rightarrow> string" where
  "hex_nat n = (if n < 16 then [hex_table ! n] else hex_nat (n div 16) @ [hex_table ! (n mod 16)])"

declare hex_nat.simps [simp del]

text \<open>The first longest run of at least two zero groups, as its start and end.\<close>

definition zero_run :: "nat list \<Rightarrow> nat \<Rightarrow> nat" where
  "zero_run gs i = i + length (takeWhile (\<lambda>g. g = 0) (drop i gs))"

definition best_zero_run :: "nat list \<Rightarrow> (nat \<times> nat) option" where
  "best_zero_run gs =
     foldl (\<lambda>best i.
        let j = zero_run gs i; l = j - i;
            cur = (case best of None \<Rightarrow> 0 | Some (s, e) \<Rightarrow> e - s)
        in if 2 \<le> l \<and> cur < l then Some (i, j) else best) None [0..<length gs]"

fun join_groups :: "nat list \<Rightarrow> string" where
  "join_groups [] = []"
| "join_groups [g] = hex_nat g"
| "join_groups (g # gs) = hex_nat g @ '':'' @ join_groups gs"

definition ipv6_string :: "bytes \<Rightarrow> string" where
  "ipv6_string b =
     (let gs = ipv6_groups b in
      case best_zero_run gs of
        None \<Rightarrow> join_groups gs
      | Some (s, e) \<Rightarrow> join_groups (take s gs) @ ''::'' @ join_groups (drop e gs))"

definition ip_string :: "ip \<Rightarrow> string" where
  "ip_string a =
     (if ip_len a = 0 then ''<nil>''
      else if ip_len a \<noteq> 4 \<and> ip_len a \<noteq> 16 then ''?'' @ hex_encode (ip_bytes a)
      else case to4 a of Some b \<Rightarrow> ipv4_string b | None \<Rightarrow> ipv6_string (ip_bytes a))"

subsection \<open>Parsing\<close>

definition is_digit :: "char \<Rightarrow> bool" where
  "is_digit c = (48 \<le> (of_char c :: nat) \<and> of_char c \<le> (57 :: nat))"

text \<open>
  The loop of \<open>parseIPv4Fields\<close>: value and digit count of the field being read, the fields
  already complete, whether the previous character was a dot (or the start).
\<close>

fun parse_ipv4_fields :: "string \<Rightarrow> nat \<Rightarrow> nat \<Rightarrow> bytes \<Rightarrow> bytes option" where
  "parse_ipv4_fields [] v k done =
     (if k = 0 \<or> length done \<noteq> 3 then None else Some (done @ [word_of_nat v]))"
| "parse_ipv4_fields (c # s) v k done =
     (if is_digit c then
        (if k = 1 \<and> v = 0 then None
         else let v' = 10 * v + (of_char c - 48) in
              if 255 < v' then None else parse_ipv4_fields s v' (k + 1) done)
      else if c = CHR ''.'' then
        (if k = 0 \<or> s = [] then None
         else if length done = 3 then None
         else parse_ipv4_fields s 0 0 (done @ [word_of_nat v]))
      else None)"

definition parse_ipv4 :: "string \<Rightarrow> bytes option" where
  "parse_ipv4 s = parse_ipv4_fields s 0 0 []"

text \<open>One group of up to four hexadecimal digits: its value, its length, the rest.\<close>

fun scan_hex :: "string \<Rightarrow> nat \<Rightarrow> nat \<Rightarrow> (nat \<times> nat \<times> string) option" where
  "scan_hex [] acc off = Some (acc, off, [])"
| "scan_hex (c # s) acc off =
     (case hex_value c of
        None \<Rightarrow> Some (acc, off, c # s)
      | Some d \<Rightarrow>
          (if 3 < off then None
           else let acc' = 16 * acc + d in if 65535 < acc' then None else scan_hex s acc' (off + 1)))"

text \<open>
  The loop of \<open>parseIPv6\<close> over at most eight groups (\<open>fuel\<close>): the bytes parsed so far, the
  position of the ellipsis, the rest of the text. The result is what the loop leaves behind.
\<close>

fun parse_ipv6_loop ::
  "nat \<Rightarrow> string \<Rightarrow> bytes \<Rightarrow> nat option \<Rightarrow> (bytes \<times> nat option \<times> string) option" where
  "parse_ipv6_loop 0 s acc ell = Some (acc, ell, s)"
| "parse_ipv6_loop (Suc fuel) s acc ell =
     (if 16 \<le> length acc then Some (acc, ell, s)
      else case scan_hex s 0 0 of
        None \<Rightarrow> None
      | Some (v, off, rest) \<Rightarrow>
          (if off = 0 then None
           else if rest \<noteq> [] \<and> hd rest = CHR ''.'' then
             (if ell = None \<and> length acc \<noteq> 12 then None
              else if 16 < length acc + 4 then None
              else case parse_ipv4 s of None \<Rightarrow> None | Some q \<Rightarrow> Some (acc @ q, ell, []))
           else
             (let acc' = acc @ [word_of_nat (v div 256), word_of_nat (v mod 256)] in
              if rest = [] then Some (acc', ell, [])
              else if hd rest \<noteq> CHR '':'' then None
              else if tl rest = [] then None
              else if hd (tl rest) = CHR '':'' then
                (if ell \<noteq> None then None
                 else if tl (tl rest) = [] then Some (acc', Some (length acc'), [])
                 else parse_ipv6_loop fuel (tl (tl rest)) acc' (Some (length acc')))
              else parse_ipv6_loop fuel (tl rest) acc' ell)))"

definition parse_ipv6 :: "string \<Rightarrow> bytes option" where
  "parse_ipv6 s =
     (if take 2 s = ''::'' \<and> drop 2 s = [] then Some (replicate 16 0)
      else case (if take 2 s = ''::'' then parse_ipv6_loop 8 (drop 2 s) [] (Some 0)
                 else parse_ipv6_loop 8 s [] None) of
        None \<Rightarrow> None
      | Some (acc, ell, rest) \<Rightarrow>
          (if rest \<noteq> [] then None
           else if length acc < 16 then
             (case ell of None \<Rightarrow> None
              | Some e \<Rightarrow> Some (take e acc @ replicate (16 - length acc) 0 @ drop e acc))
           else if ell \<noteq> None then None
           else Some acc))"

text \<open>\<open>net.ParseIP\<close>: nil on any error and on an address with a zone (a \<open>%\<close>).\<close>

definition parse_ip :: "string \<Rightarrow> ip" where
  "parse_ip s =
     (case dropWhile (\<lambda>c. c \<noteq> CHR ''.'' \<and> c \<noteq> CHR '':'' \<and> c \<noteq> CHR ''%'') s of
        [] \<Rightarrow> None
      | c # _ \<Rightarrow>
          (if c = CHR ''.'' then map_option (\<lambda>b. v4_in_v6_prefix @ b) (parse_ipv4 s)
           else if c = CHR '':'' then
             (if CHR ''%'' \<in> set s then None else parse_ipv6 s)
           else None))"

lemma length_parse_ipv4: "parse_ipv4_fields s v k acc = Some b \<Longrightarrow> length b = 4"
  by (induction s v k acc rule: parse_ipv4_fields.induct) (auto simp: Let_def split: if_splits)

subsection \<open>Host and port\<close>

text \<open>\<open>net.SplitHostPort\<close>; its errors are not told apart by the code.\<close>

definition split_host_port :: "string \<Rightarrow> (string \<times> string) option" where
  "split_host_port s =
     (if CHR '':'' \<notin> set s then None
      else let port = rev (takeWhile (\<lambda>c. c \<noteq> CHR '':'') (rev s));
               i = length s - length port - 1 in
        if hd s = CHR ''['' then
          (if CHR '']'' \<notin> set s then None
           else let e = length (takeWhile (\<lambda>c. c \<noteq> CHR '']'') s) in
             if e + 1 \<noteq> i then None
             else if CHR ''['' \<in> set (drop 1 s) then None
             else if CHR '']'' \<in> set (drop (e + 1) s) then None
             else Some (take (e - 1) (drop 1 s), port))
        else if CHR '':'' \<in> set (take i s) then None
        else if CHR ''['' \<in> set s then None
        else if CHR '']'' \<in> set s then None
        else Some (take i s, port))"

text \<open>\<open>net.JoinHostPort\<close>.\<close>

definition join_host_port :: "string \<Rightarrow> string \<Rightarrow> string" where
  "join_host_port host port =
     (if CHR '':'' \<in> set host \<or> CHR ''%'' \<in> set host then ''['' @ host @ '']:'' @ port
      else host @ '':'' @ port)"

end
