(* ===== verification/Crc32.thy ===== *)
theory Crc32
  imports Prelude
begin

section \<open>The CRC-32 of the invite codec\<close>

text \<open>
  \<open>makeIEEETable\<close> and \<open>crc32IEEE\<close> of \<open>invite/codec.go\<close>: the reflected IEEE polynomial, a
  table of 256 words, one table lookup per byte. The reference is the bit-serial checksum,
  which shifts one bit at a time and uses no table; the table-driven loop is shown equal to it,
  and to detect every change of a single byte.
\<close>

subsection \<open>The code\<close>

definition crc_poly :: "32 word" where
  "crc_poly = 0xEDB88320"

text \<open>One round of the inner loop of \<open>makeIEEETable\<close>.\<close>

definition crc_round :: "32 word \<Rightarrow> 32 word" where
  "crc_round crc = (if crc AND 1 \<noteq> 0 then crc_poly XOR drop_bit 1 crc else drop_bit 1 crc)"

definition makeIEEETable :: "32 word list" where
  "makeIEEETable = map (\<lambda>i. (crc_round ^^ 8) (word_of_nat i)) [0..<256]"

definition crc_update :: "32 word \<Rightarrow> byte \<Rightarrow> 32 word" where
  "crc_update crc b = makeIEEETable ! unat (ucast crc XOR b) XOR drop_bit 8 crc"

definition crc32IEEE :: "bytes \<Rightarrow> 32 word" where
  "crc32IEEE p = foldl crc_update 0xFFFFFFFF p XOR 0xFFFFFFFF"

subsection \<open>The bit-serial reference\<close>

definition crc_serial_update :: "32 word \<Rightarrow> byte \<Rightarrow> 32 word" where
  "crc_serial_update crc b = (crc_round ^^ 8) (crc XOR ucast b)"

definition crc32_serial :: "bytes \<Rightarrow> 32 word" where
  "crc32_serial p = NOT (foldl crc_serial_update (- 1) p)"

subsection \<open>The round is linear and injective\<close>

lemma crc_round_alt: "crc_round x = (if bit x 0 then crc_poly else 0) XOR drop_bit 1 x"
  unfolding crc_round_def and_one_nonzero by simp

lemma crc_round_xor: "crc_round (x XOR y) = crc_round x XOR crc_round y"
  by (cases "bit x 0"; cases "bit y 0")
    (simp_all add: crc_round_alt bit_xor_iff xor.assoc xor.left_commute)

lemma crc_rounds_xor: "(crc_round ^^ n) (x XOR y) = (crc_round ^^ n) x XOR (crc_round ^^ n) y"
  by (induction n) (simp_all add: crc_round_xor)

text \<open>The polynomial has its top bit set, so the top bit of a round tells the bit shifted out.\<close>

lemma crc_round_top: "bit (crc_round x) 31 = bit x 0"
  by (simp add: crc_round_alt crc_poly_def byte_bits)

lemma crc_round_zero: "crc_round x = 0 \<Longrightarrow> x = 0"
proof (rule bit_word_eqI)
  fix n assume z: "crc_round x = 0" and n: "n < LENGTH(32)"
  from z crc_round_top [of x] have b0: "\<not> bit x 0" by simp
  with z have "drop_bit 1 x = 0" by (simp add: crc_round_alt)
  then have "\<not> bit (drop_bit 1 x) (n - 1)" by simp
  with b0 show "bit x n = bit 0 n" by (cases n) (simp_all add: byte_bits)
qed

lemma crc_rounds_zero: "(crc_round ^^ n) x = 0 \<Longrightarrow> x = 0"
  by (induction n) (auto dest: crc_round_zero)

lemma xor_cancel_right: "x XOR z = y XOR z \<longleftrightarrow> x = (y :: 'a::len word)"
proof
  assume "x XOR z = y XOR z"
  then have "(x XOR z) XOR z = (y XOR z) XOR z" by simp
  then show "x = y" by (simp add: xor.assoc)
qed simp

lemma crc_rounds_inject: "(crc_round ^^ n) x = (crc_round ^^ n) y \<longleftrightarrow> x = y"
proof
  assume "(crc_round ^^ n) x = (crc_round ^^ n) y"
  then have "(crc_round ^^ n) (x XOR y) = 0" by (simp add: crc_rounds_xor)
  then have "x XOR y = 0" by (rule crc_rounds_zero)
  then have "(x XOR y) XOR y = y" by simp
  then show "x = y" by (simp add: xor.assoc)
qed simp

subsection \<open>Table lookup equals eight rounds\<close>

lemma crc_rounds_shift:
  "n \<le> 8 \<Longrightarrow> \<forall>i < n. \<not> bit x i \<Longrightarrow> (crc_round ^^ n) x = drop_bit n x"
proof (induction n)
  case (Suc n)
  then have IH: "(crc_round ^^ n) x = drop_bit n x" by simp
  have "\<not> bit (drop_bit n x) 0" using Suc.prems by (simp add: byte_bits)
  then have "crc_round (drop_bit n x) = drop_bit 1 (drop_bit n x)"
    unfolding crc_round_alt by simp
  then show ?case by (simp add: IH)
qed simp

lemma table_entry: "makeIEEETable ! unat (b :: byte) = (crc_round ^^ 8) (ucast b)"
proof -
  have "unat b < 256" using unsigned_less [of b] by simp
  then show ?thesis by (simp add: makeIEEETable_def)
qed

lemma split_low_byte: "x = ucast (ucast x :: byte) XOR push_bit 8 (drop_bit 8 (x :: 32 word))"
  by (rule bit_word_eqI) (auto simp: byte_bits)

lemma crc_update_serial: "crc_update crc b = crc_serial_update crc b"
proof -
  let ?lo = "ucast crc XOR b" and ?hi = "push_bit 8 (drop_bit 8 crc)"
  have "crc XOR ucast b = ucast ?lo XOR ?hi"
    by (rule bit_word_eqI) (auto simp: byte_bits)
  then have "(crc_round ^^ 8) (crc XOR ucast b) =
      (crc_round ^^ 8) (ucast ?lo) XOR (crc_round ^^ 8) ?hi"
    by (simp add: crc_rounds_xor)
  also have "(crc_round ^^ 8) ?hi = drop_bit 8 ?hi"
    by (rule crc_rounds_shift) (auto simp: byte_bits)
  also have "\<dots> = drop_bit 8 crc"
    by (rule bit_word_eqI) (auto simp: byte_bits dest: bit_imp_le_length)
  finally show ?thesis
    by (simp add: crc_update_def crc_serial_update_def table_entry)
qed

lemma crc_update_inject_state: "crc_update s b = crc_update t b \<longleftrightarrow> s = t"
  by (simp add: crc_update_serial crc_serial_update_def crc_rounds_inject xor_cancel_right)

lemma ucast_byte_inject: "(ucast b :: 32 word) = ucast c \<longleftrightarrow> b = (c :: byte)"
proof
  assume "(ucast b :: 32 word) = ucast c"
  then have "(ucast (ucast b :: 32 word) :: byte) = ucast (ucast c :: 32 word)" by simp
  then show "b = c" by (simp add: bit_eq_iff byte_bits)
qed simp

lemma crc_update_inject_byte: "crc_update s b = crc_update s c \<longleftrightarrow> b = c"
  by (simp add: crc_update_serial crc_serial_update_def crc_rounds_inject
      xor.commute [of s] xor_cancel_right ucast_byte_inject)

lemma crc_fold_inject: "foldl crc_update s p = foldl crc_update t p \<longleftrightarrow> s = t"
  by (induction p arbitrary: s t) (simp_all add: crc_update_inject_state)

subsection \<open>Bursts\<close>

text \<open>
  Four bytes at a time: the state after them is thirty-two rounds of the state before, with the
  bytes xored in, so no two different quadruples lead to the same state. A burst of damage
  confined to four consecutive bytes is therefore always detected.
\<close>

lemma crc_rounds_add: "(crc_round ^^ m) ((crc_round ^^ n) x) = (crc_round ^^ (m + n)) x"
  by (simp add: funpow_add)

lemma crc_rounds_push:
  assumes "8 * k \<le> 24"
  shows "(crc_round ^^ (8 * k)) (push_bit (8 * k) (ucast (b :: byte))) = ucast b"
proof -
  have "(crc_round ^^ n) (push_bit n (ucast b)) = ucast b" if "n \<le> 24" for n
    using that
  proof (induction n)
    case (Suc n)
    let ?x = "push_bit (Suc n) (ucast b) :: 32 word"
    have "\<not> bit ?x 0" by (simp only: bit_push_bit_iff) simp
    moreover have "drop_bit 1 ?x = push_bit n (ucast b)"
      using Suc.prems
      by (intro bit_word_eqI)
        (auto simp only: bit_drop_bit_eq comp_def bit_push_bit_iff bit_ucast_iff, auto dest: bit_imp_le_length)
    ultimately have "crc_round ?x = push_bit n (ucast b)"
      unfolding crc_round_alt by (simp only: if_False) simp
    then have "(crc_round ^^ n) (crc_round ?x) = ucast b" using Suc by simp
    then show ?case by (simp add: funpow_swap1)
  qed simp
  with assms show ?thesis by blast
qed

lemma crc_update_push:
  assumes "k \<le> 3"
  shows "crc_update ((crc_round ^^ (8 * k)) s) b =
    (crc_round ^^ (8 * Suc k)) (s XOR push_bit (8 * k) (ucast b))"
proof -
  have "(crc_round ^^ (8 * k)) s XOR ucast b = (crc_round ^^ (8 * k)) (s XOR push_bit (8 * k) (ucast b))"
    using assms by (simp add: crc_rounds_xor crc_rounds_push)
  then show ?thesis
    by (simp add: crc_update_serial crc_serial_update_def crc_rounds_add)
qed

definition le32 :: "byte \<Rightarrow> byte \<Rightarrow> byte \<Rightarrow> byte \<Rightarrow> 32 word" where
  "le32 a b c d = ucast a XOR push_bit 8 (ucast b) XOR push_bit 16 (ucast c) XOR push_bit 24 (ucast d)"

lemma crc_update4:
  "foldl crc_update s [a, b, c, d] = (crc_round ^^ 32) (s XOR le32 a b c d)"
  using crc_update_push [of 0 s a] crc_update_push [of 1 "s XOR ucast a" b]
    crc_update_push [of 2 "s XOR ucast a XOR push_bit 8 (ucast b)" c]
    crc_update_push [of 3 "s XOR ucast a XOR push_bit 8 (ucast b) XOR push_bit 16 (ucast c)" d]
  by (simp add: le32_def xor.assoc)

lemma le32_be32: "le32 a b c d = be32 [d, c, b, a]"
  by (rule bit_word_eqI) (auto simp: le32_def byte_bits)

lemma le32_inject: "le32 a b c d = le32 a' b' c' d' \<longleftrightarrow> a = a' \<and> b = b' \<and> c = c' \<and> d = d'"
  unfolding le32_be32
  using put_be32_be32 [of "[d, c, b, a]"] put_be32_be32 [of "[d', c', b', a']"]
  by (metis length_4_conv list.inject)

lemma xor_ones: "x XOR 0xFFFFFFFF = NOT (x :: 32 word)"
proof -
  have "(0xFFFFFFFF :: 32 word) = - 1" by simp
  then show ?thesis by (metis bit.xor_one_right)
qed

subsection \<open>The two results\<close>

lemma crc32_detects_byte_change:
  assumes "b \<noteq> c"
  shows "crc32IEEE (pre @ b # post) \<noteq> crc32IEEE (pre @ c # post)"
proof
  assume "crc32IEEE (pre @ b # post) = crc32IEEE (pre @ c # post)"
  then have "foldl crc_update (crc_update (foldl crc_update 0xFFFFFFFF pre) b) post =
      foldl crc_update (crc_update (foldl crc_update 0xFFFFFFFF pre) c) post"
    by (simp add: crc32IEEE_def xor_ones)
  with assms show False
    by (simp add: crc_fold_inject crc_update_inject_byte)
qed

text \<open>
  C40: The table-driven checksum of the invite codec equals the bit-serial CRC-32 (one shift and
  conditional xor per bit, no table) on every byte sequence.
\<close>

theorem crc32_table_is_serial: "crc32IEEE p = crc32_serial p"
proof -
  have "crc_update = crc_serial_update"
    by (intro ext) (rule crc_update_serial)
  moreover have "(0xFFFFFFFF :: 32 word) = - 1" by simp
  ultimately show ?thesis unfolding crc32IEEE_def crc32_serial_def xor_ones by metis
qed

text \<open>
  Any damage confined to four consecutive bytes of a message, wherever they stand in it,
  changes the checksum.
\<close>

theorem crc32_detects_burst:
  assumes "length xs = 4" "length ys = 4" "xs \<noteq> ys"
  shows "crc32IEEE (pre @ xs @ post) \<noteq> crc32IEEE (pre @ ys @ post)"
proof
  assume "crc32IEEE (pre @ xs @ post) = crc32IEEE (pre @ ys @ post)"
  then have "foldl crc_update (foldl crc_update 0xFFFFFFFF pre) xs =
      foldl crc_update (foldl crc_update 0xFFFFFFFF pre) ys"
    by (simp add: crc32IEEE_def xor_ones crc_fold_inject)
  moreover obtain a b c d a' b' c' d' where "xs = [a, b, c, d]" "ys = [a', b', c', d']"
    using assms(1,2) by (auto simp: length_4_conv)
  ultimately show False
    using assms(3) by (simp only: crc_update4 crc_rounds_inject xor.commute [of _ "le32 _ _ _ _"]
        xor_cancel_right le32_inject) simp
qed

theorem crc32_detects_burst_witness:
  "crc32IEEE ([0] @ [1, 2, 3, 4] @ [9]) \<noteq> crc32IEEE ([0] @ [4, 3, 2, 1] @ [9])"
  by (rule crc32_detects_burst) simp_all

end
