(* ===== verification/Invite_Codec.thy ===== *)
theory Invite_Codec
  imports Go_Strings Net_IP Crc32 Sha256
begin

section \<open>The hub invite (\<open>invite/codec.go\<close>)\<close>

text \<open>
  An invite is the DNS-less locator of a hub. \<open>marshal\<close> lays its fields out in bytes,
  \<open>encode_invite\<close> appends the CRC and renders the bytes as \<open>starmesh1:\<close> and Crockford base-32;
  \<open>decode_invite\<close> accepts that text, a bare payload, or a 10-character short code which a
  resolver maps back to an invite. The lemmas below prove the binary round trip, that the
  checksum refuses changed payloads, and how the text forms are told apart.
\<close>

subsection \<open>Data\<close>

record invite =
  inv_version :: byte
  inv_pub_key :: bytes
  inv_ipv6 :: ip
  inv_ipv4 :: ip
  inv_port :: "16 word"
  inv_expiry :: instant
  inv_name :: string
  inv_cloud_seed :: bool

datatype invite_error =
    ErrEmpty
  | ErrVersion
  | ErrChecksum
  | ErrTruncated
  | ErrNoIPv6
  | ErrShort string
  | ErrBadKey
  | ErrDecode b32_error

definition invite_version :: byte where "invite_version = 1"
definition invite_prefix :: string where "invite_prefix = ''starmesh1:''"
definition short_len :: nat where "short_len = 10"
definition default_port :: "16 word" where "default_port = 4433"
definition max_name_bytes :: nat where "max_name_bytes = 32"
definition flag_ipv4 :: byte where "flag_ipv4 = push_bit 0 1"
definition flag_seed :: byte where "flag_seed = push_bit 1 1"
definition flag_name :: byte where "flag_name = push_bit 2 1"

lemmas invite_consts = invite_version_def invite_prefix_def short_len_def default_port_def
  max_name_bytes_def flag_ipv4_def flag_seed_def flag_name_def

text \<open>The Go type \<open>[32]byte\<close> of the key: the one invariant the type itself keeps.\<close>

definition wf_invite :: "invite \<Rightarrow> bool" where
  "wf_invite iv \<longleftrightarrow> length (inv_pub_key iv) = 32"

subsection \<open>Binary layout\<close>

definition invite_flags :: "invite \<Rightarrow> byte" where
  "invite_flags iv =
     (if inv_ipv4 iv \<noteq> None \<and> to4 (inv_ipv4 iv) \<noteq> None then flag_ipv4 else 0)
     OR (if inv_cloud_seed iv then flag_seed else 0)
     OR (if take max_name_bytes (bytes_of (inv_name iv)) \<noteq> [] then flag_name else 0)"

definition invite_exp_word :: "invite \<Rightarrow> 32 word" where
  "invite_exp_word iv =
     (if inv_expiry iv = zero_time then 0 else word_of_int (unix_seconds (inv_expiry iv)))"

definition marshal_body :: "invite \<Rightarrow> bytes \<Rightarrow> bytes" where
  "marshal_body iv v6 =
     (let flags = invite_flags iv;
          name = take max_name_bytes (bytes_of (inv_name iv));
          port = (if inv_port iv = 0 then default_port else inv_port iv)
      in [inv_version iv, flags] @ inv_pub_key iv @ v6 @ put_be16 port
         @ put_be32 (invite_exp_word iv)
         @ (if flags AND flag_ipv4 \<noteq> 0 then ip_bytes (to4 (inv_ipv4 iv)) else [])
         @ (if flags AND flag_name \<noteq> 0 then word_of_nat (length name) # name else []))"

definition marshal :: "invite \<Rightarrow> bool \<Rightarrow> invite_error + bytes" where
  "marshal inv0 with_crc =
     (let iv = (if inv_version inv0 = 0 then inv0\<lparr>inv_version := invite_version\<rparr> else inv0) in
      if inv_version iv \<noteq> invite_version then Inl ErrVersion
      else if inv_pub_key iv = replicate 32 0 then Inl ErrBadKey
      else if to16 (inv_ipv6 iv) = None \<and> \<not> inv_cloud_seed iv then Inl ErrNoIPv6
      else let v6 = (case to16 (inv_ipv6 iv) of None \<Rightarrow> replicate 16 0 | Some b \<Rightarrow> b) in
      if to4 (inv_ipv6 iv) \<noteq> None \<and> \<not> inv_cloud_seed iv then Inl ErrNoIPv6
      else let raw = marshal_body iv v6 in
      Inr (if with_crc then raw @ put_be32 (crc32IEEE raw) else raw))"

text \<open>
  \<open>unmarshal\<close>: the optional address and the optional name follow the 56 fixed bytes, each
  checked against the length of the body before it is read.
\<close>

definition read_ipv4 :: "byte \<Rightarrow> bytes \<Rightarrow> nat \<Rightarrow> invite_error + ip \<times> nat" where
  "read_ipv4 flags body off =
     (if flags AND flag_ipv4 \<noteq> 0 then
        (if length body < off + 4 then Inl ErrTruncated
         else Inr (net_ipv4 (take 4 (drop off body)), off + 4))
      else Inr (None, off))"

definition read_name :: "byte \<Rightarrow> bytes \<Rightarrow> nat \<Rightarrow> invite_error + string" where
  "read_name flags body off =
     (if flags AND flag_name \<noteq> 0 then
        (if length body \<le> off then Inl ErrTruncated
         else let n = unat (body ! off) in
           if length body < off + 1 + n then Inl ErrTruncated
           else Inr (string_of (take n (drop (off + 1) body))))
      else Inr '''')"

definition unmarshal_body :: "bytes \<Rightarrow> invite_error + invite" where
  "unmarshal_body body =
     (if body ! 0 \<noteq> invite_version then Inl ErrVersion
      else let flags = body ! 1;
               v6 = take 16 (drop 34 body);
               exp = be32 (take 4 (drop 52 body)) in
      case read_ipv4 flags body 56 of
        Inl e \<Rightarrow> Inl e
      | Inr (v4, off) \<Rightarrow>
          (case read_name flags body off of
             Inl e \<Rightarrow> Inl e
           | Inr name \<Rightarrow>
               (let seed = (flags AND flag_seed \<noteq> 0);
                    ip6 = (if ip_equal (Some v6) ipv6_zero then None else Some v6) in
                if \<not> seed \<and> (ip6 = None \<or> to4 ip6 \<noteq> None) then Inl ErrNoIPv6
                else Inr \<lparr>inv_version = body ! 0, inv_pub_key = take 32 (drop 2 body),
                          inv_ipv6 = ip6, inv_ipv4 = v4,
                          inv_port = be16 (take 2 (drop 50 body)),
                          inv_expiry = (if exp \<noteq> 0 then time_unix (uint exp) else zero_time),
                          inv_name = name, inv_cloud_seed = seed\<rparr>)))"

definition unmarshal :: "bytes \<Rightarrow> invite_error + invite" where
  "unmarshal raw =
     (if length raw < 2 + 32 + 16 + 2 + 4 + 4 then Inl ErrTruncated
      else let body = take (length raw - 4) raw;
               crc = drop (length raw - 4) raw in
        if crc32IEEE body \<noteq> be32 crc then Inl ErrChecksum
        else unmarshal_body body)"

subsection \<open>Short codes and addresses\<close>

definition shortFrom :: "bytes \<Rightarrow> string" where
  "shortFrom raw =
     (let s = b32_encode (take 8 (sha256 raw)) in
      if short_len < length s then take short_len s else s)"

definition ShortCode :: "invite \<Rightarrow> string" where
  "ShortCode iv = (case marshal iv False of Inl _ \<Rightarrow> '''' | Inr raw \<Rightarrow> shortFrom raw)"

definition ShortDisplay :: "invite \<Rightarrow> string" where
  "ShortDisplay iv =
     (let s = ShortCode iv in
      if length s \<noteq> short_len then s else take 5 s @ ''-'' @ drop 5 s)"

definition encode_invite :: "invite \<Rightarrow> invite_error + string" where
  "encode_invite iv =
     (case marshal iv True of Inl e \<Rightarrow> Inl e | Inr raw \<Rightarrow> Inr (invite_prefix @ b32_encode raw))"

definition port_or_default :: "16 word \<Rightarrow> 16 word" where
  "port_or_default p = (if p = 0 then default_port else p)"

definition AddrIPv6 :: "invite \<Rightarrow> string" where
  "AddrIPv6 iv =
     (if inv_ipv6 iv = None then ''''
      else ''['' @ ip_string (inv_ipv6 iv) @ '']:'' @ decimal (unat (port_or_default (inv_port iv))))"

definition AddrIPv4 :: "invite \<Rightarrow> string" where
  "AddrIPv4 iv =
     (if inv_ipv4 iv = None then ''''
      else ip_string (inv_ipv4 iv) @ '':'' @ decimal (unat (port_or_default (inv_port iv))))"

definition Expired :: "invite \<Rightarrow> instant \<Rightarrow> bool" where
  "Expired iv now = (if inv_expiry iv = zero_time then False else inv_expiry iv < now)"

subsection \<open>Text forms\<close>

definition FormatShort :: "go_unicode \<Rightarrow> string \<Rightarrow> string" where
  "FormatShort U code =
     (let c = to_upper U (remove_all CHR ''-'' code) in
      if length c \<noteq> short_len then c else take 5 c @ ''-'' @ drop 5 c)"

definition NormalizeShort :: "go_unicode \<Rightarrow> string \<Rightarrow> string" where
  "NormalizeShort U code = to_upper U (remove_all CHR ''-'' (trim_space U code))"

definition isShortCode :: "string \<Rightarrow> bool" where
  "isShortCode s = (length s = short_len \<and> list_all (\<lambda>c. c \<in> set crockford_alphabet) s)"

definition crockford_alias :: "char \<Rightarrow> string" where
  "crockford_alias c =
     (if c = CHR ''I'' \<or> c = CHR ''L'' then ''1''
      else if c = CHR ''O'' then ''0''
      else if c = CHR ''U'' then ''V''
      else [c])"

definition normalizeCrockford :: "string \<Rightarrow> string" where
  "normalizeCrockford s = map_runes crockford_alias s"

definition decodePayload :: "go_unicode \<Rightarrow> string \<Rightarrow> invite_error + invite" where
  "decodePayload U s =
     (case b32_decode (normalizeCrockford (to_upper U (remove_all CHR ''-'' s))) of
        Inl e \<Rightarrow> Inl (ErrDecode e)
      | Inr raw \<Rightarrow> unmarshal raw)"

type_synonym resolver = "(string \<Rightarrow> invite option) option"

definition decode_invite :: "go_unicode \<Rightarrow> string \<Rightarrow> resolver \<Rightarrow> invite_error + invite" where
  "decode_invite U s0 resolve =
     (let s1 = trim_space U s0 in
      if s1 = '''' then Inl ErrEmpty
      else let s = to_upper U (remove_all CHR '' '' s1) in
      if has_prefix (to_lower U s) invite_prefix then decodePayload U (drop (length invite_prefix) s)
      else if has_prefix s ''STARMESH1:'' then decodePayload U (drop 10 s)
      else let compact = remove_all CHR ''-'' s in
      if isShortCode compact then
        (case (case resolve of None \<Rightarrow> None | Some r \<Rightarrow> r compact) of
           Some iv \<Rightarrow> Inr iv
         | None \<Rightarrow> Inl (ErrShort (FormatShort U compact)))
      else decodePayload U compact)"

definition DecodeFull :: "go_unicode \<Rightarrow> string \<Rightarrow> invite_error + invite" where
  "DecodeFull U s = decode_invite U s None"

text \<open>A static table of invites; of two with the same short code the later one wins.\<close>

definition LookupTable :: "go_unicode \<Rightarrow> invite option list \<Rightarrow> resolver" where
  "LookupTable U invites =
     (let m = foldl (\<lambda>m i. case i of None \<Rightarrow> m | Some iv \<Rightarrow> m(ShortCode iv \<mapsto> iv))
                Map.empty invites
      in Some (\<lambda>short. m (NormalizeShort U short)))"

subsection \<open>The binary round trip\<close>

lemma flags_read:
  "invite_flags iv AND flag_ipv4 \<noteq> 0 \<longleftrightarrow> to4 (inv_ipv4 iv) \<noteq> None"
  "invite_flags iv AND flag_seed \<noteq> 0 \<longleftrightarrow> inv_cloud_seed iv"
  "invite_flags iv AND flag_name \<noteq> 0 \<longleftrightarrow> inv_name iv \<noteq> []"
  by (cases "inv_ipv4 iv"; auto simp: invite_flags_def invite_consts)+

lemma take_bytes_of: "take n (bytes_of s) = bytes_of (take n s)"
  by (simp add: bytes_of_def take_map)

text \<open>What survives a round trip: the invite as the decoder rebuilds it.\<close>

definition canon_ipv6 :: "ip \<Rightarrow> ip" where
  "canon_ipv6 a = (case to16 a of None \<Rightarrow> None | Some b \<Rightarrow> if b = replicate 16 0 then None else Some b)"

definition canon_ipv4 :: "ip \<Rightarrow> ip" where
  "canon_ipv4 a = (case to4 a of None \<Rightarrow> None | Some b \<Rightarrow> net_ipv4 b)"

definition canon_expiry :: "instant \<Rightarrow> instant" where
  "canon_expiry t =
     (let s = unix_seconds t mod 2 ^ 32 in if t = zero_time \<or> s = 0 then zero_time else time_unix s)"

definition canon_invite :: "invite \<Rightarrow> invite" where
  "canon_invite iv =
     \<lparr>inv_version = invite_version, inv_pub_key = inv_pub_key iv,
      inv_ipv6 = canon_ipv6 (inv_ipv6 iv), inv_ipv4 = canon_ipv4 (inv_ipv4 iv),
      inv_port = port_or_default (inv_port iv), inv_expiry = canon_expiry (inv_expiry iv),
      inv_name = take 32 (inv_name iv), inv_cloud_seed = inv_cloud_seed iv\<rparr>"

definition wire_ipv6 :: "invite \<Rightarrow> bytes" where
  "wire_ipv6 iv = (case to16 (inv_ipv6 iv) of None \<Rightarrow> replicate 16 0 | Some b \<Rightarrow> b)"

text \<open>The guards of \<open>marshal\<close>, as one predicate.\<close>

definition marshal_ok :: "invite \<Rightarrow> bool" where
  "marshal_ok iv \<longleftrightarrow> inv_version iv \<in> {0, 1} \<and> inv_pub_key iv \<noteq> replicate 32 0 \<and>
     (inv_cloud_seed iv \<or> to16 (inv_ipv6 iv) \<noteq> None \<and> to4 (inv_ipv6 iv) = None)"

lemma marshal_Inr:
  "marshal_ok iv \<Longrightarrow>
   marshal iv crc = Inr (let raw = marshal_body (iv\<lparr>inv_version := 1\<rparr>) (wire_ipv6 iv)
                         in if crc then raw @ put_be32 (crc32IEEE raw) else raw)"
  by (cases iv) (auto simp: marshal_def marshal_ok_def wire_ipv6_def invite_consts Let_def)

lemma marshal_Inr_iff: "(\<exists>raw. marshal iv crc = Inr raw) \<longleftrightarrow> marshal_ok iv"
  by (cases iv) (auto simp: marshal_def marshal_ok_def invite_consts Let_def split: if_splits)

lemma length_wire_ipv6 [simp]: "length (wire_ipv6 iv) = 16"
  by (auto simp: wire_ipv6_def dest: length_to16 split: option.splits)

lemma uint_exp_word:
  "uint (invite_exp_word iv) =
     (if inv_expiry iv = zero_time then 0 else unix_seconds (inv_expiry iv) mod 2 ^ 32)"
  by (simp add: invite_exp_word_def uint_word_of_int)

lemma exp_word_canon:
  "(if invite_exp_word iv \<noteq> 0 then time_unix (uint (invite_exp_word iv)) else zero_time) =
     canon_expiry (inv_expiry iv)"
  by (simp add: canon_expiry_def Let_def uint_exp_word flip: uint_0_iff)

lemma marshal_body_alt:
  "marshal_body iv v6 =
     [inv_version iv, invite_flags iv] @ inv_pub_key iv @ v6 @ put_be16 (port_or_default (inv_port iv))
     @ put_be32 (invite_exp_word iv) @ ip_bytes (to4 (inv_ipv4 iv))
     @ (if inv_name iv = [] then [] else word_of_nat (min (length (inv_name iv)) 32) # bytes_of (take 32 (inv_name iv)))"
  unfolding marshal_body_def Let_def flags_read
  by (auto simp: port_or_default_def invite_consts take_bytes_of ip_bytes_def split: option.splits)

lemma ip_bytes_to4: "length (ip_bytes (to4 a)) = (if to4 a = None then 0 else 4)"
  by (auto simp: ip_bytes_def dest: length_to4 split: option.splits)

lemma length_marshal_body:
  "wf_invite iv \<Longrightarrow> length v6 = 16 \<Longrightarrow> length (marshal_body iv v6) =
    56 + (if to4 (inv_ipv4 iv) = None then 0 else 4) + (if inv_name iv = [] then 0 else 1 + min (length (inv_name iv)) 32)"
  by (simp add: marshal_body_alt wf_invite_def ip_bytes_to4)

lemma marshal_body_reads:
  assumes "wf_invite iv" "length v6 = 16"
  shows "marshal_body iv v6 ! 0 = inv_version iv"
    and "marshal_body iv v6 ! Suc 0 = invite_flags iv"
    and "take 32 (drop 2 (marshal_body iv v6)) = inv_pub_key iv"
    and "take 16 (drop 34 (marshal_body iv v6)) = v6"
    and "take 2 (drop 50 (marshal_body iv v6)) = put_be16 (port_or_default (inv_port iv))"
    and "take 4 (drop 52 (marshal_body iv v6)) = put_be32 (invite_exp_word iv)"
    and "drop 56 (marshal_body iv v6) = ip_bytes (to4 (inv_ipv4 iv)) @
      (if inv_name iv = [] then []
       else word_of_nat (min (length (inv_name iv)) 32) # bytes_of (take 32 (inv_name iv)))"
  using assms by (simp_all add: marshal_body_alt wf_invite_def)

lemma read_ipv4_marshal:
  assumes "wf_invite iv" "length v6 = 16"
  shows "read_ipv4 (invite_flags iv) (marshal_body iv v6) 56 =
    Inr (canon_ipv4 (inv_ipv4 iv), if to4 (inv_ipv4 iv) = None then 56 else 60)"
proof (cases "to4 (inv_ipv4 iv)")
  case None
  then show ?thesis by (simp add: read_ipv4_def flags_read canon_ipv4_def)
next
  case (Some b)
  then have "length b = 4" by (rule length_to4)
  with Some assms show ?thesis
    by (simp add: read_ipv4_def flags_read canon_ipv4_def marshal_body_reads ip_bytes_def
        length_marshal_body)
qed

lemma read_name_at:
  assumes "drop off body = word_of_nat (length name) # bytes_of name" "off < length body"
    "length name \<le> 255" "flags AND flag_name \<noteq> 0"
  shows "read_name flags body off = Inr name"
proof -
  have n: "body ! off = word_of_nat (length name)"
    using assms(1) by (metis nth_via_drop)
  have d: "drop (off + 1) body = bytes_of name"
    using assms(1) by (metis Suc_eq_plus1 drop_Suc list.sel(3) tl_drop)
  have u: "unat (word_of_nat (length name) :: byte) = length name"
    using assms(3) by (simp add: unat_of_nat)
  have "length (drop off body) = Suc (length name)" using assms(1) by simp
  then have "length body = off + 1 + length name" by simp
  with assms(2,4) show ?thesis
    by (simp add: read_name_def n u d [simplified] Let_def)
qed

lemma read_name_marshal:
  assumes "wf_invite iv" "length v6 = 16" "off = (if to4 (inv_ipv4 iv) = None then 56 else 60)"
  shows "read_name (invite_flags iv) (marshal_body iv v6) off = Inr (take 32 (inv_name iv))"
proof (cases "inv_name iv = []")
  case True
  then show ?thesis by (simp add: read_name_def flags_read)
next
  case False
  have "drop off (marshal_body iv v6) = drop (off - 56) (drop 56 (marshal_body iv v6))"
    using assms(3) by simp
  also have "\<dots> = word_of_nat (min (length (inv_name iv)) 32) # bytes_of (take 32 (inv_name iv))"
    unfolding marshal_body_reads(7) [OF assms(1,2)] using assms(3) False by (simp add: ip_bytes_to4)
  finally show ?thesis
    using assms False
    by (intro read_name_at) (auto simp: flags_read length_marshal_body)
qed

lemma canon_ipv6_wire:
  "(if ip_equal (Some (wire_ipv6 iv)) ipv6_zero then None else Some (wire_ipv6 iv)) =
     canon_ipv6 (inv_ipv6 iv)"
  by (auto simp: wire_ipv6_def canon_ipv6_def ip_equal_def ipv6_zero_def ip_bytes_def Let_def
      dest: length_to16 split: option.splits)

lemma unmarshal_marshal_body:
  assumes "wf_invite iv" "inv_version iv = 1"
  shows "unmarshal_body (marshal_body iv (wire_ipv6 iv)) =
    (if \<not> inv_cloud_seed iv \<and>
        (canon_ipv6 (inv_ipv6 iv) = None \<or> to4 (canon_ipv6 (inv_ipv6 iv)) \<noteq> None)
     then Inl ErrNoIPv6 else Inr (canon_invite iv))"
  using assms
  by (simp add: unmarshal_body_def marshal_body_reads read_ipv4_marshal read_name_marshal
      Let_def flags_read canon_ipv6_wire exp_word_canon invite_version_def canon_invite_def)

lemma to4_to16: "to4 a = None \<Longrightarrow> to16 a = Some b \<Longrightarrow> to4 (Some b) = None"
  by (auto simp: to4_def to16_def split: option.splits if_splits)

theorem unmarshal_marshal:
  assumes "wf_invite iv" "marshal iv True = Inr raw"
  shows "unmarshal raw =
    (if \<not> inv_cloud_seed iv \<and> canon_ipv6 (inv_ipv6 iv) = None then Inl ErrNoIPv6
     else Inr (canon_invite iv))"
proof -
  let ?iv = "iv\<lparr>inv_version := 1\<rparr>"
  let ?body = "marshal_body ?iv (wire_ipv6 iv)"
  from assms(2) have ok: "marshal_ok iv" using marshal_Inr_iff [of iv True] by blast
  have raw: "raw = ?body @ put_be32 (crc32IEEE ?body)"
    using marshal_Inr [OF ok, of True] assms(2) by (simp add: Let_def)
  have wf: "wf_invite ?iv" using assms(1) by (simp add: wf_invite_def)
  have len: "56 \<le> length ?body" using wf by (simp add: length_marshal_body)
  have "unmarshal raw = unmarshal_body ?body"
    using len by (simp add: unmarshal_def raw)
  also have "\<dots> = (if \<not> inv_cloud_seed iv \<and>
        (canon_ipv6 (inv_ipv6 iv) = None \<or> to4 (canon_ipv6 (inv_ipv6 iv)) \<noteq> None)
     then Inl ErrNoIPv6 else Inr (canon_invite iv))"
    using unmarshal_marshal_body [OF wf] by (simp add: wire_ipv6_def canon_invite_def)
  also have "\<dots> = (if \<not> inv_cloud_seed iv \<and> canon_ipv6 (inv_ipv6 iv) = None then Inl ErrNoIPv6
     else Inr (canon_invite iv))"
    using ok by (auto simp: marshal_ok_def canon_ipv6_def dest: to4_to16 split: option.splits if_splits)
  finally show ?thesis .
qed

subsection \<open>The text round trip\<close>

lemma alphabet_props:
  "list_all (\<lambda>c. upper_char c = c \<and> of_char c < (128::nat) \<and> \<not> is_space c \<and> c \<noteq> CHR '' '' \<and>
     c \<noteq> CHR ''-'' \<and> crockford_alias c = [c]) crockford_alphabet"
  by (simp add: crockford_alphabet_def upper_char_def is_space_def crockford_alias_def)

lemma alphabet_plain:
  assumes "c \<in> set crockford_alphabet"
  shows "upper_char c = c" "of_char c < (128::nat)" "\<not> is_space c" "c \<noteq> CHR '' ''" "c \<noteq> CHR ''-''"
    "crockford_alias c = [c]"
  using alphabet_props assms by (auto simp: list_all_iff)

text \<open>
  Writing an invite down: lower case, the look-alike letters I, L, O and U, spaces and hyphens.
  \<open>plain_char\<close> is the alphabet character a transcribed character stands for.
\<close>

definition plain_char :: "char \<Rightarrow> char" where
  "plain_char c = hd (crockford_alias (upper_char c))"

definition transcribes :: "string \<Rightarrow> string \<Rightarrow> bool" where
  "transcribes t p \<longleftrightarrow> is_ascii t \<and> map plain_char (remove_all CHR ''-'' t) = p"

lemma length_alias: "length (crockford_alias c) = 1"
  by (simp add: crockford_alias_def)

lemma alias_hd: "crockford_alias c = [hd (crockford_alias c)]"
  by (simp add: crockford_alias_def)

lemma upper_char_ascii: "of_char c < (128::nat) \<Longrightarrow> of_char (upper_char c) < (128::nat)"
  by (auto simp: upper_char_def Let_def)

lemma is_ascii_upper: "is_ascii s \<Longrightarrow> is_ascii (map upper_char s)"
  by (induction s) (auto simp: is_ascii_def upper_char_ascii)

lemma concat_alias: "concat (map crockford_alias (map upper_char s)) = map plain_char s"
proof (induction s)
  case (Cons c s)
  then show ?case using alias_hd [of "upper_char c"] by (simp add: plain_char_def)
qed simp

lemma decodePayload_transcribed:
  assumes "transcribes t p"
  shows "decodePayload U t =
    (case b32_decode p of Inl e \<Rightarrow> Inl (ErrDecode e) | Inr raw \<Rightarrow> unmarshal raw)"
proof -
  let ?q = "remove_all CHR ''-'' t"
  from assms have asc: "is_ascii ?q"
    unfolding transcribes_def remove_all_def by (auto intro: is_ascii_mono)
  then have "normalizeCrockford (to_upper U ?q) = map plain_char ?q"
    by (simp add: normalizeCrockford_def to_upper_def map_runes_ascii is_ascii_upper concat_alias
        del: map_map)
  with assms show ?thesis by (simp add: decodePayload_def transcribes_def)
qed

lemma transcribes_self:
  assumes "set p \<subseteq> set crockford_alphabet"
  shows "transcribes p p"
proof -
  have "is_ascii p" using assms alphabet_plain(2) by (auto simp: is_ascii_def list_all_iff)
  moreover have "remove_all CHR ''-'' p = p"
    using assms alphabet_plain(5) by (intro remove_all_id) blast
  moreover have "map plain_char p = p"
    using assms by (intro map_idI) (auto simp: plain_char_def alphabet_plain)
  ultimately show ?thesis by (simp add: transcribes_def)
qed

lemma decodePayload_encode: "decodePayload U (b32_encode raw) = unmarshal raw"
  using decodePayload_transcribed [OF transcribes_self [OF b32_encode_alphabet]]
  by (simp add: b32.dec_enc)

lemma upper_prefix: "map upper_char invite_prefix = ''STARMESH1:''"
  by (simp add: invite_prefix_def upper_char_def char_of_def bit_0)

lemma lower_upper_prefix: "map lower_char ''STARMESH1:'' = invite_prefix"
  by (simp add: invite_prefix_def lower_char_def char_of_def bit_0)

lemma prefix_plain: "is_ascii invite_prefix" "\<forall>c \<in> set invite_prefix. \<not> is_space c"
  by (simp_all add: is_ascii_def invite_prefix_def is_space_def)

lemma remove_all_append [simp]: "remove_all c (s @ t) = remove_all c s @ remove_all c t"
  by (simp add: remove_all_def)

text \<open>
  A text as a person passes it on: white space around it, spaces inside, the prefix in either
  case, the payload transcribed.
\<close>

definition invite_text :: "string \<Rightarrow> string \<Rightarrow> bool" where
  "invite_text t p \<longleftrightarrow>
     (\<exists>w1 pre q w2. t = w1 @ pre @ q @ w2 \<and> is_ascii t
        \<and> list_all is_space w1 \<and> list_all is_space w2
        \<and> map lower_char pre = invite_prefix
        \<and> list_all (\<lambda>c. is_space c \<longrightarrow> c = CHR '' '') q
        \<and> transcribes (remove_all CHR '' '' q) p)"

lemma dropWhile_all: "list_all P xs \<Longrightarrow> dropWhile P (xs @ ys) = dropWhile P ys"
  by (induction xs) simp_all

lemma upper_lower_char: "upper_char (lower_char c) = upper_char c"
  by (auto simp: upper_char_def lower_char_def Let_def)

lemma lower_space: "is_space (lower_char c) \<longleftrightarrow> is_space c"
  by (auto simp: is_space_def lower_char_def Let_def)

lemma lower_prefix_upper:
  assumes "map lower_char pre = invite_prefix"
  shows "map upper_char pre = ''STARMESH1:''"
proof -
  have "map upper_char (map lower_char pre) = ''STARMESH1:''"
    unfolding assms by (rule upper_prefix)
  then show ?thesis by (simp add: comp_def upper_lower_char)
qed

lemma lower_prefix_plain:
  assumes "map lower_char pre = invite_prefix"
  shows "\<forall>c \<in> set pre. \<not> is_space c" "pre \<noteq> []"
proof -
  have "\<forall>c \<in> set (map lower_char pre). \<not> is_space c"
    unfolding assms using prefix_plain by blast
  then show "\<forall>c \<in> set pre. \<not> is_space c" by (simp add: lower_space)
  show "pre \<noteq> []" using assms by (auto simp: invite_prefix_def)
qed

lemma remove_space_trimmed:
  "list_all (\<lambda>c. is_space c \<longrightarrow> c = CHR '' '') q \<Longrightarrow>
   remove_all CHR '' '' (rev (dropWhile is_space (rev q))) = remove_all CHR '' '' q"
proof (induction q rule: rev_induct)
  case (snoc c q)
  then show ?case by (cases "is_space c") (auto simp: remove_all_def)
qed (simp add: remove_all_def)

lemma dropWhile_rev_stop:
  assumes "\<forall>c \<in> set ys. \<not> P c" "ys \<noteq> []"
  shows "dropWhile P (xs @ rev ys) = dropWhile P xs @ rev ys"
proof (cases "list_all P xs")
  case True
  then have "dropWhile P (xs @ rev ys) = dropWhile P (rev ys)" by (rule dropWhile_all)
  also have "\<dots> = rev ys" using assms by (cases ys rule: rev_cases) simp_all
  finally show ?thesis using True by (simp add: list_all_iff)
next
  case False
  then show ?thesis by (auto simp: list_all_iff dropWhile_append1)
qed

lemma trim_invite_text:
  assumes "is_ascii (w1 @ pre @ q @ w2)" "list_all is_space w1" "list_all is_space w2"
    "map lower_char pre = invite_prefix"
  shows "trim_space U (w1 @ pre @ q @ w2) = pre @ rev (dropWhile is_space (rev q))"
proof -
  note pl = lower_prefix_plain [OF assms(4)]
  have 1: "dropWhile is_space (w1 @ pre @ q @ w2) = pre @ q @ w2"
    using assms(2) pl by (cases pre) (simp_all add: dropWhile_all)
  have "dropWhile is_space (rev (pre @ q @ w2)) = dropWhile is_space (rev q @ rev pre)"
    using assms(3) by (simp add: dropWhile_all)
  also have "\<dots> = dropWhile is_space (rev q) @ rev pre"
    by (rule dropWhile_rev_stop [OF pl])
  finally show ?thesis using 1 assms(1) by (simp add: trim_space_def)
qed

lemma is_ascii_remove_all: "is_ascii s \<Longrightarrow> is_ascii (remove_all c s)"
  by (rule is_ascii_mono) (auto simp: remove_all_def)

lemma upper_idem: "upper_char (upper_char c) = upper_char c"
  by (auto simp: upper_char_def Let_def)

lemma upper_dash: "upper_char c = CHR ''-'' \<longleftrightarrow> c = CHR ''-''"
proof
  assume a: "upper_char c = CHR ''-''"
  show "c = CHR ''-''"
  proof (cases "97 \<le> (of_char c :: nat) \<and> of_char c \<le> (122 :: nat)")
    case True
    with a have "char_of (of_char c - 32 :: nat) = CHR ''-''" by (simp add: upper_char_def)
    then have "of_char (char_of (of_char c - 32 :: nat) :: char) = (45 :: nat)" by simp
    then have "(of_char c - 32) mod 256 = (45 :: nat)" by simp
    moreover have "of_char c - 32 < (256 :: nat)" using True by linarith
    ultimately have "of_char c - 32 = (45 :: nat)" by simp
    with True have False by linarith
    then show ?thesis ..
  next
    case False
    with a show ?thesis by (auto simp: upper_char_def Let_def split: if_splits)
  qed
qed (simp add: upper_char_def)

lemma remove_dash_upper:
  "remove_all CHR ''-'' (map upper_char q) = map upper_char (remove_all CHR ''-'' q)"
  by (induction q) (simp_all add: remove_all_def upper_dash)

lemma transcribes_upper: "transcribes q p \<Longrightarrow> transcribes (map upper_char q) p"
  by (auto simp: transcribes_def is_ascii_upper remove_dash_upper plain_char_def upper_idem)

text \<open>The prefixed text decodes to what its payload, written plainly, decodes to.\<close>

lemma decode_invite_text:
  assumes "invite_text t p"
  shows "decode_invite U t r =
    (case b32_decode p of Inl e \<Rightarrow> Inl (ErrDecode e) | Inr raw \<Rightarrow> unmarshal raw)"
proof -
  from assms obtain w1 pre q w2 where t: "t = w1 @ pre @ q @ w2" "is_ascii t"
    and w: "list_all is_space w1" "list_all is_space w2"
    and pre: "map lower_char pre = invite_prefix"
    and q: "list_all (\<lambda>c. is_space c \<longrightarrow> c = CHR '' '') q"
    and tr: "transcribes (remove_all CHR '' '' q) p"
    unfolding invite_text_def by blast
  let ?q = "remove_all CHR '' '' q"
  let ?s = "''STARMESH1:'' @ map upper_char ?q"
  have trim: "trim_space U t = pre @ rev (dropWhile is_space (rev q))"
    unfolding t(1) using t w pre by (intro trim_invite_text) simp_all
  have "remove_all CHR '' '' pre = pre"
    using lower_prefix_plain [OF pre] by (intro remove_all_id) (auto simp: is_space_def)
  then have s: "remove_all CHR '' '' (trim_space U t) = pre @ ?q"
    by (simp add: trim remove_space_trimmed [OF q])
  have asc: "is_ascii (pre @ ?q)" using t by (auto intro: is_ascii_remove_all)
  have up: "to_upper U (pre @ ?q) = ?s"
    using asc by (simp add: to_upper_def lower_prefix_upper [OF pre])
  have "is_ascii ?s" using is_ascii_upper [OF asc] lower_prefix_upper [OF pre] by simp
  then have "to_lower U ?s = invite_prefix @ map lower_char (map upper_char ?q)"
    unfolding to_lower_def by (simp only: map_append lower_upper_prefix if_True)
  then have pfx: "has_prefix (to_lower U ?s) invite_prefix" by simp
  have ne: "trim_space U t \<noteq> []" using lower_prefix_plain [OF pre] by (simp add: trim)
  have dr: "drop (length invite_prefix) ?s = map upper_char ?q" by (simp add: invite_prefix_def)
  have "decode_invite U t r = decodePayload U (map upper_char ?q)"
    unfolding decode_invite_def Let_def s up using pfx ne dr by (simp only: if_True if_False)
  also have "\<dots> = (case b32_decode p of Inl e \<Rightarrow> Inl (ErrDecode e) | Inr raw \<Rightarrow> unmarshal raw)"
    by (rule decodePayload_transcribed [OF transcribes_upper [OF tr]])
  finally show ?thesis .
qed

lemma invite_text_self:
  assumes "set p \<subseteq> set crockford_alphabet"
  shows "invite_text (invite_prefix @ p) p"
proof -
  have "map lower_char invite_prefix = invite_prefix" by (simp add: invite_prefix_def lower_char_def)
  moreover have "list_all (\<lambda>c. is_space c \<longrightarrow> c = CHR '' '') p"
    using assms alphabet_plain(3) by (auto simp only: list_all_iff)
  moreover have "remove_all CHR '' '' p = p"
    using assms alphabet_plain(4) by (intro remove_all_id) blast
  moreover have "transcribes p p" by (rule transcribes_self [OF assms])
  moreover from this have "is_ascii (invite_prefix @ p)" by (simp add: transcribes_def prefix_plain)
  ultimately have "invite_prefix @ p = [] @ invite_prefix @ p @ [] \<and> is_ascii (invite_prefix @ p)
        \<and> list_all is_space [] \<and> list_all is_space []
        \<and> map lower_char invite_prefix = invite_prefix
        \<and> list_all (\<lambda>c. is_space c \<longrightarrow> c = CHR '' '') p
        \<and> transcribes (remove_all CHR '' '' p) p"
    by simp
  then show ?thesis unfolding invite_text_def by blast
qed

lemma encode_Inr:
  "encode_invite iv = Inr s \<Longrightarrow> \<exists>raw. marshal iv True = Inr raw \<and> s = invite_prefix @ b32_encode raw"
  by (auto simp: encode_invite_def split: sum.splits)

lemma decode_encode:
  assumes "wf_invite iv" "encode_invite iv = Inr s"
  shows "decode_invite U s r =
    (if \<not> inv_cloud_seed iv \<and> canon_ipv6 (inv_ipv6 iv) = None then Inl ErrNoIPv6
     else Inr (canon_invite iv))"
proof -
  from encode_Inr [OF assms(2)] obtain raw where raw: "marshal iv True = Inr raw"
    and s: "s = invite_prefix @ b32_encode raw" by blast
  have "invite_text s (b32_encode raw)"
    unfolding s by (rule invite_text_self [OF b32_encode_alphabet])
  from decode_invite_text [OF this] unmarshal_marshal [OF assms(1) raw] show ?thesis
    by (simp add: b32.dec_enc)
qed

subsection \<open>Size\<close>

lemma length_marshal:
  assumes "wf_invite iv" "marshal iv crc = Inr raw"
  shows "56 \<le> length raw" "length raw \<le> 97"
proof -
  from assms(2) have ok: "marshal_ok iv" using marshal_Inr_iff [of iv crc] by blast
  have wf: "wf_invite (iv\<lparr>inv_version := 1\<rparr>)" using assms(1) by (simp add: wf_invite_def)
  show "56 \<le> length raw" "length raw \<le> 97"
    using marshal_Inr [OF ok, of crc] assms(2)
    by (auto simp: Let_def length_marshal_body [OF wf] min_def split: if_splits)
qed

lemma encoded_length:
  assumes "wf_invite iv" "encode_invite iv = Inr s"
  shows "length s \<le> 166" "100 \<le> length s"
proof -
  from encode_Inr [OF assms(2)] obtain raw where raw: "marshal iv True = Inr raw"
    and s: "s = invite_prefix @ b32_encode raw" by blast
  have "length s = 10 + (8 * length raw + 4) div 5"
    by (simp add: s length_b32_encode invite_prefix_def)
  with length_marshal [OF assms(1) raw] show "length s \<le> 166" "100 \<le> length s" by auto
qed

subsection \<open>Corruption\<close>

lemma crc_update_neq:
  assumes "i < length p" "b \<noteq> p ! i"
  shows "crc32IEEE (p[i := b]) \<noteq> crc32IEEE p"
proof -
  have "p = take i p @ p ! i # drop (Suc i) p" using assms(1) by (rule id_take_nth_drop)
  moreover have "p[i := b] = take i p @ b # drop (Suc i) p"
    using assms(1) by (rule upd_conv_take_nth_drop)
  ultimately show ?thesis using crc32_detects_byte_change [OF assms(2)] by metis
qed

lemma unmarshal_corrupt:
  assumes "wf_invite iv" "marshal iv True = Inr raw" "i < length raw" "b \<noteq> raw ! i"
  shows "unmarshal (raw[i := b]) = Inl ErrChecksum"
proof -
  let ?body = "marshal_body (iv\<lparr>inv_version := 1\<rparr>) (wire_ipv6 iv)"
  from assms(2) have ok: "marshal_ok iv" using marshal_Inr_iff [of iv True] by blast
  have raw: "raw = ?body @ put_be32 (crc32IEEE ?body)"
    using marshal_Inr [OF ok, of True] assms(2) by (simp add: Let_def)
  have wf: "wf_invite (iv\<lparr>inv_version := 1\<rparr>)" using assms(1) by (simp add: wf_invite_def)
  have len: "56 \<le> length ?body" using wf by (simp add: length_marshal_body)
  show ?thesis
  proof (cases "i < length ?body")
    case True
    then have eq: "raw[i := b] = ?body[i := b] @ put_be32 (crc32IEEE ?body)"
      by (simp add: raw list_update_append1)
    have "crc32IEEE (?body[i := b]) \<noteq> crc32IEEE ?body"
      using True assms(4) by (intro crc_update_neq) (simp_all add: raw nth_append)
    with len show ?thesis unfolding eq by (simp add: unmarshal_def)
  next
    case False
    let ?c = "put_be32 (crc32IEEE ?body)" and ?j = "i - length ?body"
    from False have eq: "raw[i := b] = ?body @ ?c[?j := b]"
      by (simp add: raw list_update_append)
    have j: "?j < length ?c" "b \<noteq> ?c ! ?j" using False assms(3,4) by (simp_all add: raw nth_append)
    have "be32 (?c[?j := b]) \<noteq> crc32IEEE ?body"
    proof
      assume "be32 (?c[?j := b]) = crc32IEEE ?body"
      then have "?c[?j := b] = ?c" using put_be32_be32 [of "?c[?j := b]"] by simp
      with j show False by (metis nth_list_update_eq)
    qed
    with len show ?thesis unfolding eq by (simp add: unmarshal_def)
  qed
qed

subsection \<open>Short codes\<close>

lemma length_shortFrom: "length (shortFrom raw) = 10"
  by (simp add: shortFrom_def Let_def length_b32_encode short_len_def)

lemma shortFrom_alphabet: "set (shortFrom raw) \<subseteq> set crockford_alphabet"
  using b32_encode_alphabet [of "take 8 (sha256 raw)"]
  by (auto simp: shortFrom_def Let_def dest: in_set_takeD)

lemma ShortCode_cases:
  "ShortCode iv = [] \<and> \<not> marshal_ok iv \<or>
   marshal_ok iv \<and> length (ShortCode iv) = 10 \<and> set (ShortCode iv) \<subseteq> set crockford_alphabet"
  using marshal_Inr_iff [of iv False] shortFrom_alphabet length_shortFrom
  by (cases "marshal iv False") (auto simp: ShortCode_def)

lemma isShortCode_ShortCode: "marshal_ok iv \<Longrightarrow> isShortCode (ShortCode iv)"
  using ShortCode_cases [of iv] by (auto simp: isShortCode_def short_len_def list_all_iff)

lemma short_text_plain:
  assumes "set c \<subseteq> set crockford_alphabet"
  shows "is_ascii c" "\<forall>x \<in> set c. \<not> is_space x" "remove_all CHR '' '' c = c"
    "remove_all CHR ''-'' c = c" "map upper_char c = c"
proof -
  show "is_ascii c" using assms alphabet_plain(2) by (auto simp: is_ascii_def list_all_iff)
  show "\<forall>x \<in> set c. \<not> is_space x" using assms alphabet_plain(3) by blast
  show "remove_all CHR '' '' c = c" using assms alphabet_plain(4) by (intro remove_all_id) blast
  show "remove_all CHR ''-'' c = c" using assms alphabet_plain(5) by (intro remove_all_id) blast
  show "map upper_char c = c" using assms alphabet_plain(1) by (intro map_idI) blast
qed

lemma NormalizeShort_code:
  assumes "set c \<subseteq> set crockford_alphabet"
  shows "NormalizeShort U c = c"
  using short_text_plain [OF assms]
  by (simp add: NormalizeShort_def trim_space_id to_upper_def)

lemma find_append_case:
  "find P (xs @ ys) = (case find P xs of None \<Rightarrow> find P ys | Some x \<Rightarrow> Some x)"
  by (induction xs) simp_all

lemma lookup_fold:
  "foldl (\<lambda>m i. case i of None \<Rightarrow> m | Some iv \<Rightarrow> m(ShortCode iv \<mapsto> iv)) m invites c =
     (case find (\<lambda>i. \<exists>iv. i = Some iv \<and> ShortCode iv = c) (rev invites) of
        None \<Rightarrow> m c | Some i \<Rightarrow> i)"
proof (induction invites arbitrary: m)
  case (Cons i invites)
  then show ?case
    by (cases i) (auto simp: find_append_case split: option.splits)
qed simp

text \<open>The display form of a short code, with its hyphen, is recognised as one.\<close>

lemma decode_display:
  assumes ok: "marshal_ok iv"
  shows "decode_invite U (ShortDisplay iv) r =
    (case (case r of None \<Rightarrow> None | Some f \<Rightarrow> f (ShortCode iv)) of
       Some found \<Rightarrow> Inr found | None \<Rightarrow> Inl (ErrShort (ShortDisplay iv)))"
proof -
  let ?c = "ShortCode iv"
  from ShortCode_cases [of iv] ok have len: "length ?c = 10" and alph: "set ?c \<subseteq> set crockford_alphabet"
    by auto
  note pl = short_text_plain [OF alph]
  let ?d = "take 5 ?c @ ''-'' @ drop 5 ?c"
  have d: "ShortDisplay iv = ?d" by (simp add: ShortDisplay_def Let_def len short_len_def)
  have set_d: "set ?d \<subseteq> insert CHR ''-'' (set ?c)" by (auto dest: in_set_takeD in_set_dropD)
  have asc: "is_ascii ?d"
    using pl(1) by (auto simp: is_ascii_def list_all_iff dest: in_set_takeD in_set_dropD)
  have sp: "\<forall>x \<in> set ?d. \<not> is_space x"
    using pl(2) by (auto simp: is_space_def dest: in_set_takeD in_set_dropD)
  have up: "map upper_char ?d = ?d"
    using pl(5) by (simp add: upper_char_def flip: take_map drop_map)
  have ns: "remove_all CHR '' '' ?d = ?d"
    using alph alphabet_plain(4) by (intro remove_all_id) (auto dest: in_set_takeD in_set_dropD)
  have nd: "remove_all CHR ''-'' ?d = ?c"
    using pl(4) by (simp add: remove_all_def) (metis append_take_drop_id filter_append)
  have ne: "?d \<noteq> []" by simp
  have len_d: "length ?d = 11" using len by simp
  have no_prefix: "\<not> has_prefix (map f ?d) p" if "f CHR ''-'' = CHR ''-''" "5 < length p" "p ! 5 \<noteq> CHR ''-''" for f p
  proof
    assume "has_prefix (map f ?d) p"
    then have "take (length p) (map f ?d) ! 5 = p ! 5" by (simp only: has_prefix_def)
    then have "map f ?d ! 5 = p ! 5" using that(2) by (simp only: nth_take)
    moreover have "map f ?d ! 5 = CHR ''-''" using len that(1) by (simp add: nth_append)
    ultimately show False using that(3) by metis
  qed
  have no_pfx1: "\<not> has_prefix (to_lower U ?d) invite_prefix"
    using no_prefix [of lower_char invite_prefix] asc
    by (simp add: to_lower_def invite_prefix_def lower_char_def del: map_append append.simps list.map)
  have no_pfx2: "\<not> has_prefix ?d ''STARMESH1:''"
    using no_prefix [of id "''STARMESH1:''"] by (simp del: append.simps)
  have fmt: "FormatShort U ?c = ?d"
    using pl len by (simp add: FormatShort_def to_upper_def Let_def short_len_def)
  have "decode_invite U t r =
      (case (case r of None \<Rightarrow> None | Some f \<Rightarrow> f ?c) of
         Some found \<Rightarrow> Inr found | None \<Rightarrow> Inl (ErrShort t))"
    if "trim_space U t = t" "t \<noteq> []" "remove_all CHR '' '' t = t" "to_upper U t = t"
      "\<not> has_prefix (to_lower U t) invite_prefix" "\<not> has_prefix t ''STARMESH1:''"
      "remove_all CHR ''-'' t = ?c" "FormatShort U ?c = t" for t
    using that isShortCode_ShortCode [OF ok] by (simp add: decode_invite_def Let_def split: option.splits)
  moreover have "to_upper U ?d = ?d" using asc up by (simp only: to_upper_def if_True)
  ultimately show ?thesis
    unfolding d using trim_space_id [OF asc sp] ne ns no_pfx1 no_pfx2 nd fmt by blast
qed

subsection \<open>Properties\<close>

text \<open>The invite of the codec's own tests, the input of the witnesses below.\<close>

definition demo_invite :: invite where
  "demo_invite =
     \<lparr>inv_version = 1, inv_pub_key = map word_of_nat [1..<33],
      inv_ipv6 = Some [0x2a, 0x0d, 0x33, 0x44, 1, 0, 0, 1, 0, 0, 0, 0, 0, 0, 0, 2],
      inv_ipv4 = None, inv_port = 4433, inv_expiry = time_unix 1893456000,
      inv_name = ''OSP Nadarzyn'', inv_cloud_seed = False\<rparr>"

definition plain_unicode :: go_unicode where
  "plain_unicode = \<lparr>uni_upper = id, uni_lower = id, uni_trim = id\<rparr>"

lemma demo_ok:
  "wf_invite demo_invite" "marshal_ok demo_invite"
  "to16 (inv_ipv6 demo_invite) = inv_ipv6 demo_invite"
  by (simp_all add: demo_invite_def wf_invite_def marshal_ok_def to16_def to4_def
      v4_in_v6_prefix_def upt_rec numeral_eq_Suc)

lemma encode_total: "marshal_ok iv \<Longrightarrow> \<exists>s. encode_invite iv = Inr s"
  using marshal_Inr_iff [of iv True] by (auto simp: encode_invite_def)

text \<open>
  C12: Decoding the text that \<open>Encode\<close> produced gives the invite back in normal form: version 1,
  default port where it was 0, the IPv4 address in 16-byte form, the expiry modulo 2^32 seconds,
  the name cut to 32 bytes. The one text that does not come back is that of a hub (not a cloud
  seed) with the unspecified address \<open>::\<close>, which \<open>Encode\<close> lets through and decoding refuses.
\<close>

theorem invite_roundtrip:
  assumes "wf_invite iv" "encode_invite iv = Inr s"
  shows "decode_invite U s r =
    (if \<not> inv_cloud_seed iv \<and> to16 (inv_ipv6 iv) = ipv6_zero then Inl ErrNoIPv6
     else Inr (canon_invite iv))"
proof -
  from assms(2) have "marshal_ok iv"
    using marshal_Inr_iff [of iv True] by (auto simp: encode_invite_def split: sum.splits)
  then show ?thesis
    unfolding decode_encode [OF assms]
    by (auto simp: marshal_ok_def canon_ipv6_def ipv6_zero_def split: option.splits)
qed

theorem invite_roundtrip_witness:
  "\<exists>s. encode_invite demo_invite = Inr s \<and>
       decode_invite plain_unicode s None = Inr (canon_invite demo_invite)"
proof -
  from encode_total [OF demo_ok(2)] obtain s where s: "encode_invite demo_invite = Inr s" ..
  have "to16 (inv_ipv6 demo_invite) \<noteq> ipv6_zero"
    unfolding demo_ok(3) by (simp add: demo_invite_def ipv6_zero_def numeral_eq_Suc)
  with invite_roundtrip [OF demo_ok(1) s, of plain_unicode None] s show ?thesis by simp
qed

text \<open>
  An invite survives being passed on by hand: surrounding white space, spaces inside, lower
  case, hyphens, and the letters I, L, O, U written for 1, 1, 0, V change nothing in what the
  text decodes to.
\<close>

theorem invite_transcription:
  assumes "encode_invite iv = Inr s" "invite_text t (drop (length invite_prefix) s)"
  shows "decode_invite U t r = decode_invite U s r"
proof -
  from encode_Inr [OF assms(1)] obtain raw where s: "s = invite_prefix @ b32_encode raw" by blast
  have "invite_text s (b32_encode raw)" unfolding s by (rule invite_text_self [OF b32_encode_alphabet])
  moreover have "invite_text t (b32_encode raw)" using assms(2) by (simp add: s)
  ultimately show ?thesis by (simp add: decode_invite_text)
qed

theorem invite_transcription_witness:
  "\<exists>s p. encode_invite demo_invite = Inr s \<and> s = invite_prefix @ p \<and>
     decode_invite plain_unicode ('' '' @ ''STARMESH1:'' @ p @ [CHR 0x0A]) None =
     decode_invite plain_unicode s None"
proof -
  from encode_total [OF demo_ok(2)] obtain s where s: "encode_invite demo_invite = Inr s" ..
  from encode_Inr [OF s] obtain raw where raw: "s = invite_prefix @ b32_encode raw" by blast
  let ?p = "b32_encode raw"
  note pl = short_text_plain [OF b32_encode_alphabet]
  have "invite_text ('' '' @ ''STARMESH1:'' @ ?p @ [CHR 0x0A]) ?p"
    unfolding invite_text_def
  proof (intro exI conjI)
    show "'' '' @ ''STARMESH1:'' @ ?p @ [CHR 0x0A] = '' '' @ ''STARMESH1:'' @ ?p @ [CHR 0x0A]" ..
    show "is_ascii ('' '' @ ''STARMESH1:'' @ ?p @ [CHR 0x0A])"
      using pl(1) [of raw] by (simp add: is_ascii_def)
    show "list_all (\<lambda>c. is_space c \<longrightarrow> c = CHR '' '') ?p"
      using pl(2) [of raw] by (simp add: list_all_iff)
    show "transcribes (remove_all CHR '' '' ?p) ?p"
      using transcribes_self [OF b32_encode_alphabet] by (simp add: pl(3))
    show "list_all is_space '' ''" "list_all is_space [CHR 0x0A]" by (simp_all add: is_space_def)
    show "map lower_char ''STARMESH1:'' = invite_prefix" by (rule lower_upper_prefix)
  qed
  then have "invite_text ('' '' @ ''STARMESH1:'' @ ?p @ [CHR 0x0A]) (drop (length invite_prefix) s)"
    by (simp add: raw)
  from invite_transcription [OF s this] s raw show ?thesis by blast
qed

text \<open>
  \<open>Encode\<close> succeeds exactly for version 0 or 1, a non-zero key, and either a cloud seed or an
  IPv6 address that is not a mapped IPv4 one; each other invite gets the error of the first
  check it fails.
\<close>

theorem encode_errors:
  "encode_invite iv =
     (if inv_version iv \<noteq> 0 \<and> inv_version iv \<noteq> 1 then Inl ErrVersion
      else if inv_pub_key iv = replicate 32 0 then Inl ErrBadKey
      else if \<not> inv_cloud_seed iv \<and> (to16 (inv_ipv6 iv) = None \<or> to4 (inv_ipv6 iv) \<noteq> None)
        then Inl ErrNoIPv6
      else Inr (invite_prefix @ b32_encode (projr (marshal iv True))))"
  by (cases iv) (auto simp: encode_invite_def marshal_def invite_version_def Let_def)

theorem encode_errors_witness:
  "encode_invite (demo_invite\<lparr>inv_ipv6 := None\<rparr>) = Inl ErrNoIPv6"
proof -
  have "hd (inv_pub_key demo_invite) \<noteq> hd (replicate 32 0)"
    by (simp add: demo_invite_def upt_rec)
  then have "inv_pub_key demo_invite \<noteq> replicate 32 0" by metis
  then show ?thesis
    using encode_errors [of "demo_invite\<lparr>inv_ipv6 := None\<rparr>"]
    by (simp add: demo_invite_def to16_def)
qed

text \<open>
  C35: Changing any single byte of an encoded payload, in its fields or in the checksum itself,
  makes decoding fail with the checksum error.
\<close>

theorem invite_corruption:
  assumes "wf_invite iv" "marshal iv True = Inr raw" "i < length raw" "b \<noteq> raw ! i"
  shows "decodePayload U (b32_encode (raw[i := b])) = Inl ErrChecksum"
  unfolding decodePayload_encode by (rule unmarshal_corrupt [OF assms])

theorem invite_corruption_witness:
  "\<exists>raw. marshal demo_invite True = Inr raw \<and>
     decodePayload plain_unicode (b32_encode (raw[2 := raw ! 2 + 1])) = Inl ErrChecksum"
proof -
  from demo_ok(2) obtain raw where raw: "marshal demo_invite True = Inr raw"
    using marshal_Inr_iff by blast
  have "2 < length raw" using length_marshal(1) [OF demo_ok(1) raw] by simp
  from invite_corruption [OF demo_ok(1) raw this, of "raw ! 2 + 1"] raw show ?thesis by simp
qed

text \<open>
  Every encoded invite has between 100 and 166 characters: it fits a 237-byte Meshtastic
  text frame, and its payload can never be taken for a 10-character short code.
\<close>

theorem invite_size:
  assumes "wf_invite iv" "encode_invite iv = Inr s"
  shows "100 \<le> length s \<and> length s \<le> 166 \<and> \<not> isShortCode (drop (length invite_prefix) s)"
  using encoded_length [OF assms] by (auto simp: isShortCode_def invite_consts)

theorem invite_size_witness: "\<exists>s. encode_invite demo_invite = Inr s \<and> 100 \<le> length s"
  using encode_total [OF demo_ok(2)] invite_size [OF demo_ok(1)] by blast

text \<open>
  The displayed short code of a known invite resolves through a table of invites to the last
  invite of the table with that code, and is refused with \<open>ErrShort\<close> and the code itself when
  there is no table or the table has no such invite.
\<close>

theorem short_code_resolves:
  assumes "marshal_ok iv"
  shows "decode_invite U (ShortDisplay iv) (LookupTable U invites) =
      (case find (\<lambda>i. \<exists>x. i = Some x \<and> ShortCode x = ShortCode iv) (rev invites) of
         Some (Some x) \<Rightarrow> Inr x
       | _ \<Rightarrow> Inl (ErrShort (ShortDisplay iv)))
    \<and> decode_invite U (ShortDisplay iv) None = Inl (ErrShort (ShortDisplay iv))"
proof -
  have "set (ShortCode iv) \<subseteq> set crockford_alphabet" using ShortCode_cases [of iv] assms by auto
  then show ?thesis
    by (simp add: decode_display [OF assms] LookupTable_def Let_def NormalizeShort_code lookup_fold
        split: option.splits)
qed

theorem short_code_resolves_witness:
  "decode_invite plain_unicode (ShortDisplay demo_invite)
     (LookupTable plain_unicode [None, Some demo_invite]) = Inr demo_invite"
  using short_code_resolves [OF demo_ok(2), of plain_unicode "[None, Some demo_invite]"] by simp

end
