(* ===== verification/Identity_Store.thy ===== *)
theory Identity_Store
  imports Envelope Invite_Codec
begin

section \<open>Making, saving and naming identities (\<open>hub/identity.go\<close>, \<open>hub/home.go\<close>)\<close>

text \<open>
  An install has one identity file. The JSON text of the file is a parameter, as are the bytes of
  the random source (\<open>None\<close> when reading it fails). \<open>EdPriv\<close> is the 64-byte Ed25519 private key.
  Paths go through \<open>filepath.Join\<close>, whose cleaning of slash-separated paths is modelled.
\<close>

subsection \<open>Paths\<close>

fun split_on :: "char \<Rightarrow> string \<Rightarrow> string list" where
  "split_on c [] = [[]]"
| "split_on c (x # s) =
     (if x = c then [] # split_on c s
      else case split_on c s of [] \<Rightarrow> [[x]] | w # ws \<Rightarrow> (x # w) # ws)"

fun join_with :: "string \<Rightarrow> string list \<Rightarrow> string" where
  "join_with sep [] = []"
| "join_with sep [w] = w"
| "join_with sep (w # ws) = w @ sep @ join_with sep ws"

definition clean_step :: "bool \<Rightarrow> string list \<Rightarrow> string \<Rightarrow> string list" where
  "clean_step rooted out c =
     (if c = [] \<or> c = ''.'' then out
      else if c = ''..'' then
        (if out \<noteq> [] \<and> last out \<noteq> ''..'' then butlast out
         else if rooted then out
         else out @ [c])
      else out @ [c])"

definition path_clean :: "string \<Rightarrow> string" where
  "path_clean p =
     (let rooted = (p \<noteq> [] \<and> hd p = CHR ''/'');
          s = join_with ''/'' (foldl (clean_step rooted) [] (split_on CHR ''/'' p))
      in if rooted then CHR ''/'' # s else if s = [] then ''.'' else s)"

definition path_join :: "string list \<Rightarrow> string" where
  "path_join parts =
     (let ps = filter (\<lambda>p. p \<noteq> []) parts in
      if ps = [] then [] else path_clean (join_with ''/'' ps))"

definition DefaultHome :: "string \<Rightarrow> string option \<Rightarrow> string" where
  "DefaultHome env home =
     (if env \<noteq> [] then env
      else case home of None \<Rightarrow> ''.starmesh'' | Some h \<Rightarrow> path_join [h, ''.starmesh''])"

definition IdentityPath :: "string \<Rightarrow> string" where
  "IdentityPath home = path_join [home, ''identity.json'']"

definition CachePath :: "string \<Rightarrow> string" where
  "CachePath home = path_join [home, ''hub-cache.json'']"

definition QueuePath :: "string \<Rightarrow> string" where
  "QueuePath home = path_join [home, ''queue.json'']"

subsection \<open>Fingerprints\<close>

definition sha256Short :: "bytes \<Rightarrow> string" where
  "sha256Short p =
     (let s0 = b32_encode (take 8 (sha256 p));
          s = (if 10 < length s0 then take 10 s0 else s0)
      in if length s = 10 then take 5 s @ ''-'' @ drop 5 s else s)"

definition Fingerprint :: "bytes \<Rightarrow> string" where
  "Fingerprint pub = (if length pub = 0 then [] else sha256Short pub)"

definition PubHex :: "identity \<Rightarrow> string" where
  "PubHex i = hex_encode (id_ed_pub i)"

subsection \<open>Generating\<close>

datatype identity_error =
    IdRandom
  | IdRead
  | IdJson
  | IdBadEd
  | IdBadX
  | IdWrite
  | IdMkdir

text \<open>The clamp of RFC 7748.\<close>

definition clamp :: "bytes \<Rightarrow> bytes" where
  "clamp k =
     (let k1 = k[0 := k ! 0 AND 248];
          k2 = k1[31 := k1 ! 31 AND 127]
      in k2[31 := k2 ! 31 OR 64])"

definition GenerateIdentity ::
  "crypto \<Rightarrow> bytes option \<Rightarrow> bytes option \<Rightarrow> string \<Rightarrow> identity_error + identity" where
  "GenerateIdentity C ed_rnd x_rnd name =
     (case ed_rnd of
        None \<Rightarrow> Inl IdRandom
      | Some ed_priv \<Rightarrow>
          (case x_rnd of
             None \<Rightarrow> Inl IdRandom
           | Some r \<Rightarrow>
               (let x_priv = clamp r in
                Inr \<lparr>id_ed_priv = ed_priv, id_ed_pub = ed_public C ed_priv, id_x_priv = x_priv,
                     id_x_pub = x_public C x_priv, id_name = name\<rparr>)))"

subsection \<open>The identity file\<close>

record identity_file =
  if_ed_priv :: bytes
  if_ed_pub :: bytes
  if_x_priv :: bytes
  if_x_pub :: bytes
  if_name :: string

record identity_json =
  js_ident :: "identity_file \<Rightarrow> bytes"
  un_ident :: "bytes \<Rightarrow> identity_file option"

text \<open>\<open>copy\<close> into a \<open>[32]byte\<close> that starts as zeros.\<close>

definition copy32 :: "bytes \<Rightarrow> bytes" where
  "copy32 b = take 32 b @ replicate (32 - length b) 0"

definition LoadIdentity :: "identity_json \<Rightarrow> disk \<Rightarrow> string \<Rightarrow> identity_error + identity" where
  "LoadIdentity J d path =
     (case d path of
        None \<Rightarrow> Inl IdRead
      | Some b \<Rightarrow>
          (case un_ident J b of
             None \<Rightarrow> Inl IdJson
           | Some f \<Rightarrow>
               (if length (if_ed_priv f) \<noteq> 64 \<or> length (if_ed_pub f) \<noteq> 32 then Inl IdBadEd
                else if length (if_x_priv f) \<noteq> 32 \<or> length (if_x_pub f) \<noteq> 32 then Inl IdBadX
                else Inr \<lparr>id_ed_priv = if_ed_priv f, id_ed_pub = if_ed_pub f,
                          id_x_priv = copy32 (if_x_priv f), id_x_pub = copy32 (if_x_pub f),
                          id_name = if_name f\<rparr>)))"

definition file_of :: "identity \<Rightarrow> identity_file" where
  "file_of i =
     \<lparr>if_ed_priv = id_ed_priv i, if_ed_pub = id_ed_pub i, if_x_priv = id_x_priv i,
      if_x_pub = id_x_pub i, if_name = id_name i\<rparr>"

definition identity_save ::
  "identity_json \<Rightarrow> bool \<Rightarrow> disk_writer \<Rightarrow> identity \<Rightarrow> string \<Rightarrow> disk \<Rightarrow> disk \<times> bool" where
  "identity_save J mkdir wr i path d =
     (if \<not> mkdir then (d, False) else wr path (js_ident J (file_of i)) d)"

definition LoadOrCreateIdentity ::
  "crypto \<Rightarrow> identity_json \<Rightarrow> bool \<Rightarrow> disk_writer \<Rightarrow> bytes option \<Rightarrow> bytes option \<Rightarrow> disk \<Rightarrow> string
     \<Rightarrow> string \<Rightarrow> (identity_error + identity) \<times> disk" where
  "LoadOrCreateIdentity C J mkdir wr ed_rnd x_rnd d home name =
     (if \<not> mkdir then (Inl IdMkdir, d)
      else let p = IdentityPath home in
      if d p \<noteq> None then
        (case LoadIdentity J d p of
           Inl e \<Rightarrow> (Inl e, d)
         | Inr i \<Rightarrow>
             (if name \<noteq> [] \<and> id_name i = [] then
                (let i' = i\<lparr>id_name := name\<rparr> in (Inr i', fst (identity_save J mkdir wr i' p d)))
              else (Inr i, d)))
      else case GenerateIdentity C ed_rnd x_rnd name of
        Inl e \<Rightarrow> (Inl e, d)
      | Inr i \<Rightarrow>
          (case identity_save J mkdir wr i p d of
             (d', ok) \<Rightarrow> (if ok then (Inr i, d') else (Inl IdWrite, d'))))"

subsection \<open>Lemmas\<close>

lemma copy32_id [simp]: "length b = 32 \<Longrightarrow> copy32 b = b"
  by (simp add: copy32_def)

lemma length_clamp [simp, len_simps]: "length (clamp k) = length k"
  by (simp add: clamp_def Let_def)

text \<open>The JSON text of an identity file reads back as the file.\<close>

definition ident_json_ok :: "identity_json \<Rightarrow> identity \<Rightarrow> bool" where
  "ident_json_ok J i \<longleftrightarrow> un_ident J (js_ident J (file_of i)) = Some (file_of i)"

definition sized_identity :: "identity \<Rightarrow> bool" where
  "sized_identity i \<longleftrightarrow> length (id_ed_priv i) = 64 \<and> length (id_ed_pub i) = 32 \<and>
     length (id_x_priv i) = 32 \<and> length (id_x_pub i) = 32"

lemma load_saved:
  assumes "sized_identity i" "ident_json_ok J i"
  shows "LoadIdentity J (fst (disk_write p (js_ident J (file_of i)) d)) p = Inr i"
  using assms by (cases i) (simp add: LoadIdentity_def disk_write_def ident_json_ok_def sized_identity_def file_of_def)

subsection \<open>Properties\<close>

text \<open>
  An install keeps its identity: what the first \<open>LoadOrCreateIdentity\<close> creates on a disk that
  works is what every later call returns, whatever name it is given and whatever the random
  source holds then (only an empty name is filled in, and then stays).
\<close>

theorem identity_persists:
  assumes "d (IdentityPath home) = None" "GenerateIdentity C (Some e) (Some x) name = Inr i"
    and "length e = 64" "length x = 32" "length (ed_public C e) = 32"
    and "length (x_public C (clamp x)) = 32" "ident_json_ok J i"
  shows "case LoadOrCreateIdentity C J True disk_write (Some e) (Some x) d home name of (r, d') \<Rightarrow>
    r = Inr i \<and>
    fst (LoadOrCreateIdentity C J True wr ea xa d' home nm) =
      Inr (if id_name i = [] then i\<lparr>id_name := nm\<rparr> else i)"
proof -
  define d' where "d' = fst (disk_write (IdentityPath home) (js_ident J (file_of i)) d)"
  have first: "LoadOrCreateIdentity C J True disk_write (Some e) (Some x) d home name = (Inr i, d')"
    using assms(1,2) by (simp add: LoadOrCreateIdentity_def identity_save_def disk_write_def Let_def d'_def)
  have "sized_identity i"
    using assms(2-6) by (auto simp: sized_identity_def GenerateIdentity_def Let_def)
  then have "LoadIdentity J d' (IdentityPath home) = Inr i"
    unfolding d'_def by (rule load_saved) (rule assms(7))
  moreover have "d' (IdentityPath home) \<noteq> None" by (simp add: d'_def disk_write_def)
  ultimately have "fst (LoadOrCreateIdentity C J True wr ea xa d' home nm) =
      Inr (if id_name i = [] then i\<lparr>id_name := nm\<rparr> else i)"
    by (cases i) (auto simp: LoadOrCreateIdentity_def Let_def)
  then show ?thesis by (simp only: first prod.case simp_thms)
qed

definition demo_ident_json :: identity_json where
  "demo_ident_json =
     \<lparr>js_ident = (\<lambda>f. if_ed_priv f @ if_ed_pub f @ if_x_priv f @ if_x_pub f @ bytes_of (if_name f)),
      un_ident = (\<lambda>b. Some \<lparr>if_ed_priv = take 64 b, if_ed_pub = take 32 (drop 64 b),
        if_x_priv = take 32 (drop 96 b), if_x_pub = take 32 (drop 128 b),
        if_name = string_of (drop 160 b)\<rparr>)\<rparr>"

theorem identity_persists_witness:
  "id_name (projr (fst (LoadOrCreateIdentity demo_crypto demo_ident_json True disk_write None None
     (snd (LoadOrCreateIdentity demo_crypto demo_ident_json True disk_write
        (Some (replicate 64 7)) (Some (replicate 32 9)) (\<lambda>p. None) ''h'' ''ala'')) ''h'' ''ola''))) = ''ala''"
proof -
  let ?e = "replicate 64 7 :: bytes" and ?x = "replicate 32 9 :: bytes"
  obtain i where i: "GenerateIdentity demo_crypto (Some ?e) (Some ?x) ''ala'' = Inr i"
    and name: "id_name i = ''ala''" and len: "sized_identity i"
    by (simp add: GenerateIdentity_def Let_def sized_identity_def demo_crypto_def)
  have "ident_json_ok demo_ident_json i"
    using len by (simp add: ident_json_ok_def demo_ident_json_def file_of_def sized_identity_def)
  with identity_persists [where C = demo_crypto and J = demo_ident_json and wr = disk_write
      and ea = None and xa = None and home = "''h''" and nm = "''ola''", OF _ i, of "\<lambda>p. None"]
  show ?thesis
    using name by (auto simp: demo_crypto_def split: prod.splits)
qed

text \<open>
  A generated identity is well formed and its box key is clamped as RFC 7748 asks: the three
  low bits of the first byte and the top bit of the last are clear, the second highest bit of
  the last byte is set, and every other bit is the random one.
\<close>

theorem generated_identity:
  assumes "length x = 32" "length (ed_public C e) = 32" "length (x_public C (clamp x)) = 32"
  shows "\<exists>i. GenerateIdentity C (Some e) (Some x) name = Inr i \<and> wf_identity C i \<and>
    length (id_x_priv i) = 32 \<and> id_x_priv i ! 0 AND 7 = 0 \<and> id_x_priv i ! 31 AND 0xc0 = 0x40 \<and>
    id_x_priv i ! 0 AND 248 = x ! 0 AND 248 \<and> id_x_priv i ! 31 AND 63 = x ! 31 AND 63 \<and>
    take 30 (drop 1 (id_x_priv i)) = take 30 (drop 1 x)"
proof -
  have l: "0 < length x" "31 < length x" using assms(1) by simp_all
  have "(b AND 248) AND 7 = 0" "((b AND 127) OR 64) AND 0xc0 = 0x40" "((b AND 127) OR 64) AND 63 = b AND 63"
    for b :: byte
    by (rule byte_eqI; simp add: byte_bits)+
  moreover have "(b AND 248) AND 248 = b AND 248" for b :: byte by (simp add: ac_simps)
  ultimately show ?thesis
    using l assms by (simp add: GenerateIdentity_def Let_def wf_identity_def clamp_def take_drop
        drop_update_swap take_update_swap list_update_beyond)
qed

theorem generated_identity_witness:
  "\<exists>i. GenerateIdentity demo_crypto (Some (replicate 64 7)) (Some (replicate 32 0xff)) ''ala'' = Inr i \<and>
     id_x_priv i ! 31 AND 0xc0 = 0x40"
  using generated_identity [of "replicate 32 0xff" demo_crypto "replicate 64 7" "''ala''"]
  by (auto simp: demo_crypto_def)

text \<open>
  The fingerprint of a key is the short code scheme of invites applied to the key: its ten
  Crockford characters in two groups of five, which is also the display form of \<open>FormatShort\<close>.
\<close>

theorem fingerprint_scheme:
  "Fingerprint pub =
     (if pub = [] then [] else FormatShort U (shortFrom pub)) \<and>
   length (Fingerprint pub) = (if pub = [] then 0 else 11)"
proof -
  have len: "length (shortFrom pub) = 10" by (rule length_shortFrom)
  note pl = short_text_plain [OF shortFrom_alphabet [of pub]]
  have "to_upper U (shortFrom pub) = shortFrom pub" using pl by (simp add: to_upper_def)
  then have "FormatShort U (shortFrom pub) = take 5 (shortFrom pub) @ ''-'' @ drop 5 (shortFrom pub)"
    using pl(4) len by (simp add: FormatShort_def Let_def short_len_def)
  moreover have "sha256Short pub = take 5 (shortFrom pub) @ ''-'' @ drop 5 (shortFrom pub)"
    using len unfolding sha256Short_def shortFrom_def short_len_def Let_def by (simp split del: if_split)
  ultimately show ?thesis using len by (simp add: Fingerprint_def)
qed

end
