(* ===== verification/Hub_Server.thy ===== *)
theory Hub_Server
  imports Handshake Identity_Store
begin

section \<open>The hub (\<open>hub/server.go\<close>)\<close>

text \<open>
  A hub keeps the sessions of its spokes and of other hubs, routes envelopes between them and
  spreads presence by gossip. Sessions are shared and mutated through pointers, so they live in a
  list and are referred to by their index (\<open>sref\<close>); comparing pointers is comparing indices. A Go
  map is an association list with distinct keys, whose order stands for the order in which a
  \<open>range\<close> over the map happens to run. Messages to send are the list of outputs, each with the
  session it is sent on; a failed send changes nothing, because the code ignores its error.
  Every handler is one step; the clock readings and the outcomes of I/O are arguments.
\<close>

subsection \<open>State\<close>

type_synonym sref = nat

record session =
  se_role :: string
  se_ed :: bytes
  se_x :: bytes
  se_name :: string
  se_cloud :: bool
  se_rtt :: int
  se_last :: instant
  se_v6 :: string
  se_v4 :: string
  se_port :: "16 word"
  se_proto :: string

record server_config =
  cfg_name :: string
  cfg_host :: string
  cfg_port :: int
  cfg_v6only :: bool
  cfg_claim_v4 :: bool
  cfg_public_v6 :: ip
  cfg_public_v4 :: ip
  cfg_cloud :: bool
  cfg_dev :: bool
  cfg_capture :: bool
  cfg_peers :: "string list"

record server =
  srv_cfg :: server_config
  srv_id :: identity
  srv_seen :: seen
  srv_heap :: "session list"
  srv_spokes :: "(string \<times> sref) list"
  srv_hubs :: "(string \<times> sref) list"
  srv_where :: "(string \<times> string) list"
  srv_names :: "(string \<times> string) list"
  srv_xpubs :: "(string \<times> bytes) list"
  srv_gseen :: "(string \<times> 64 word) list"
  srv_seq :: "64 word"
  srv_inv :: "invite option"
  srv_dumps :: "bytes list"

type_synonym outputs = "(sref \<times> message) list"

definition NewServer :: "identity \<Rightarrow> server_config \<Rightarrow> server" where
  "NewServer i cfg =
     \<lparr>srv_cfg = (if cfg_name cfg = [] then cfg\<lparr>cfg_name := id_name i\<rparr> else cfg), srv_id = i,
      srv_seen = newSeen, srv_heap = [], srv_spokes = [], srv_hubs = [], srv_where = [],
      srv_names = [], srv_xpubs = [], srv_gseen = [], srv_seq = 0, srv_inv = None, srv_dumps = []\<rparr>"

abbreviation self_hex :: "server \<Rightarrow> string" where
  "self_hex s \<equiv> mustHex (id_ed_pub (srv_id s))"

definition ipString :: "ip \<Rightarrow> string" where
  "ipString a = (if a = None then [] else ip_string a)"

definition hostOnly :: "string option \<Rightarrow> string" where
  "hostOnly addr =
     (case addr of
        None \<Rightarrow> []
      | Some a \<Rightarrow> (case split_host_port a of None \<Rightarrow> a | Some (host, _) \<Rightarrow> host))"

text \<open>The comparison loop of \<open>edEq\<close>.\<close>

fun edEq_loop :: "bool \<Rightarrow> bytes \<Rightarrow> bytes \<Rightarrow> bool" where
  "edEq_loop ok (x # xs) (y # ys) = edEq_loop (ok \<and> x = y) xs ys"
| "edEq_loop ok _ _ = ok"

definition edEq :: "bytes \<Rightarrow> bytes \<Rightarrow> bool" where
  "edEq a b = (if length a \<noteq> length b then False else edEq_loop True a b)"

definition seven_days :: int where "seven_days = 7 * 24 * 60 * 60 * second"

definition buildInvite :: "instant \<Rightarrow> server \<Rightarrow> invite" where
  "buildInvite now s =
     (let cfg = srv_cfg s in
      \<lparr>inv_version = invite_version, inv_pub_key = copy32 (id_ed_pub (srv_id s)),
       inv_ipv6 = (if cfg_public_v6 cfg \<noteq> None then cfg_public_v6 cfg
                   else if cfg_dev cfg then parse_ip ''::1'' else None),
       inv_ipv4 = (if cfg_claim_v4 cfg \<and> cfg_public_v4 cfg \<noteq> None then cfg_public_v4 cfg else None),
       inv_port = word_of_int (cfg_port cfg), inv_expiry = now + seven_days,
       inv_name = cfg_name cfg, inv_cloud_seed = cfg_cloud cfg\<rparr>)"

subsection \<open>Gossip\<close>

text \<open>
  \<open>gossipLocal\<close>: the two loops that collect the entries. The first lists the own spokes and
  records them as local; a key that is not hexadecimal parses to nil.
\<close>

definition gossip_spoke ::
  "server \<Rightarrow> gossip_entry list \<times> bytes \<times> (string \<times> bytes) list \<times> (string \<times> string) list \<Rightarrow>
     string \<times> sref \<Rightarrow> gossip_entry list \<times> bytes \<times> (string \<times> bytes) list \<times> (string \<times> string) list"
where
  "gossip_spoke s = (\<lambda>(es, bl, xs, wh) (k, r).
     let sp = srv_heap s ! r;
         pk = (case parseHex k of Inl _ \<Rightarrow> [] | Inr b \<Rightarrow> b)
     in (es @ [\<lparr>ge_pub = pk, ge_x = se_x sp, ge_name = se_name sp\<rparr>], bloom_add bl pk,
         AList.update k (se_x sp) xs, AList.update k (self_hex s) wh))"

definition map_get :: "(string \<times> 'v) list \<Rightarrow> string \<Rightarrow> 'v \<Rightarrow> 'v" where
  "map_get m k d = (case map_of m k of None \<Rightarrow> d | Some v \<Rightarrow> v)"

definition gossip_remote ::
  "server \<Rightarrow> (string \<times> bytes) list \<Rightarrow> gossip_entry list \<Rightarrow> string \<times> string \<Rightarrow> gossip_entry list"
where
  "gossip_remote s xs es = (\<lambda>(k, hub).
     if hub = self_hex s then es
     else case parseHex k of
       Inl _ \<Rightarrow> es
     | Inr pk \<Rightarrow> es @ [\<lparr>ge_pub = pk, ge_x = map_get xs k [], ge_name = map_get (srv_names s) k []\<rparr>])"

definition gossip_message :: "server \<Rightarrow> presence_gossip \<times> server" where
  "gossip_message s =
     (let sq = srv_seq s + 1;
          (es1, bl, xs, wh) = foldl (gossip_spoke s) ([], newBloom, srv_xpubs s, srv_where s) (srv_spokes s);
          es2 = foldl (gossip_remote s xs) es1 wh
      in (\<lparr>pg_hub = id_ed_pub (srv_id s), pg_entries = es2, pg_seq = sq,
           pg_bloom = (if 64 \<le> length es2 then bl else []), pg_sig = []\<rparr>,
          s\<lparr>srv_seq := sq, srv_gseen := AList.update (self_hex s) sq (srv_gseen s),
            srv_xpubs := xs, srv_where := wh\<rparr>))"

definition gossipLocal :: "json_lib \<Rightarrow> server \<Rightarrow> server \<times> outputs" where
  "gossipLocal J s =
     (case gossip_message s of
        (g, s') \<Rightarrow>
          (s', map (\<lambda>r. (r, msgOf TypePresenceGossip (js_gossip J g)))
                 (map snd (srv_hubs s) @ map snd (srv_spokes s))))"

definition fanoutGossip :: "json_lib \<Rightarrow> presence_gossip \<Rightarrow> sref \<Rightarrow> server \<Rightarrow> outputs" where
  "fanoutGossip J g from s =
     (let msg = msgOf TypePresenceGossip (js_gossip J g) in
      map (\<lambda>(_, r). (r, msg)) (srv_spokes s) @
      map (\<lambda>(_, r). (r, msg)) (filter (\<lambda>(_, r). r \<noteq> from) (srv_hubs s)))"

subsection \<open>Forwarding\<close>

definition forward ::
  "json_lib \<Rightarrow> crypto \<Rightarrow> instant \<Rightarrow> instant \<Rightarrow> envelope \<Rightarrow> sref \<Rightarrow> server \<Rightarrow> server \<times> outputs" where
  "forward J C now now' env from s =
     (if env_verify C env \<noteq> None then (s, [])
      else case seen_add now now' (env_id env) (srv_seen s) of
        (m, False) \<Rightarrow> (s\<lparr>srv_seen := m\<rparr>, [])
      | (m, True) \<Rightarrow>
          (let s1 = s\<lparr>srv_seen := m\<rparr>;
               msg = msgOf TypeEnvelope (js_envelope J env);
               k = mustHex (env_to env)
           in case map_of (srv_spokes s1) k of
                Some sp \<Rightarrow> (s1, [(sp, msg)])
              | None \<Rightarrow>
                  (let peer = (case map_of (srv_where s1) k of
                                 None \<Rightarrow> None | Some hubHex \<Rightarrow> map_of (srv_hubs s1) hubHex);
                       hubs = filter (\<lambda>r. r \<noteq> from) (map snd (srv_hubs s1))
                   in case peer of
                        Some p \<Rightarrow>
                          (if p \<noteq> from then (s1, [(p, msg)]) else (s1, map (\<lambda>h. (h, msg)) hubs))
                      | None \<Rightarrow> (s1, map (\<lambda>h. (h, msg)) hubs))))"

subsection \<open>Messages on a session\<close>

definition set_session :: "sref \<Rightarrow> (session \<Rightarrow> session) \<Rightarrow> server \<Rightarrow> server" where
  "set_session r f s = s\<lparr>srv_heap := (srv_heap s)[r := f (srv_heap s ! r)]\<rparr>"

definition onPresence :: "json_lib \<Rightarrow> sref \<Rightarrow> presence \<Rightarrow> server \<Rightarrow> server \<times> outputs" where
  "onPresence J r p s =
     (let sess = srv_heap s ! r;
          s1 = s\<lparr>srv_names := AList.update (mustHex (se_ed sess)) (pre_name p) (srv_names s)\<rparr>;
          s2 = (if length (pre_x p) = 32 then set_session r (se_x_update (\<lambda>_. pre_x p)) s1 else s1);
          hub = (if se_role sess = RoleSpoke then self_hex s else mustHex (se_ed sess));
          s3 = s2\<lparr>srv_where := foldl (\<lambda>w pk. AList.update (mustHex pk) hub w) (srv_where s2) (pre_pubs p)\<rparr>
      in gossipLocal J s3)"

definition gossip_entry_in :: "string \<Rightarrow> server \<Rightarrow> gossip_entry \<Rightarrow> server" where
  "gossip_entry_in origin s e =
     (let k = mustHex (ge_pub e);
          s1 = s\<lparr>srv_where := AList.update k origin (srv_where s)\<rparr>;
          s2 = (if ge_name e \<noteq> [] then s1\<lparr>srv_names := AList.update k (ge_name e) (srv_names s1)\<rparr> else s1)
      in if length (ge_x e) = 32 then s2\<lparr>srv_xpubs := AList.update k (ge_x e) (srv_xpubs s2)\<rparr> else s2)"

definition onGossip :: "json_lib \<Rightarrow> sref \<Rightarrow> presence_gossip \<Rightarrow> server \<Rightarrow> server \<times> outputs" where
  "onGossip J r g s =
     (let origin = mustHex (pg_hub g) in
      if (case map_of (srv_gseen s) origin of None \<Rightarrow> False | Some prev \<Rightarrow> pg_seq g \<le> prev) then (s, [])
      else let s1 = s\<lparr>srv_gseen := AList.update origin (pg_seq g) (srv_gseen s)\<rparr>;
               s2 = foldl (gossip_entry_in origin) s1 (pg_entries g)
           in (s2, fanoutGossip J g r s2))"

text \<open>The clock is read on arrival, for the round-trip time, and twice by the replay filter.\<close>

record clocks =
  t_arrival :: instant
  t_rtt :: instant
  t_seen :: instant
  t_cut :: instant

definition onMsg :: "json_lib \<Rightarrow> crypto \<Rightarrow> clocks \<Rightarrow> sref \<Rightarrow> message \<Rightarrow> server \<Rightarrow> server \<times> outputs" where
  "onMsg J C ck r m s0 =
     (let s = set_session r (se_last_update (\<lambda>_. t_arrival ck)) s0 in
      if msg_type m = TypePing then (s, [(r, msgOf TypePong (js_ping J (un_ping J (msg_body m))))])
      else if msg_type m = TypePong then
        (let t = un_ping J (msg_body m) in
         if 0 < t then (set_session r (se_rtt_update (\<lambda>_. t_rtt ck - t)) s, []) else (s, []))
      else if msg_type m = TypeEnvelope then
        (case un_envelope J (msg_body m) of
           None \<Rightarrow> (s, [])
         | Some env \<Rightarrow> forward J C (t_seen ck) (t_cut ck) env r s)
      else if msg_type m = TypePresence then
        (case un_presence J (msg_body m) of None \<Rightarrow> (s, []) | Some p \<Rightarrow> onPresence J r p s)
      else if msg_type m = TypePresenceGossip then
        (case un_gossip J (msg_body m) of None \<Rightarrow> (s, []) | Some g \<Rightarrow> onGossip J r g s)
      else (s, []))"

subsection \<open>Sessions opening and closing\<close>

definition make_ok :: "crypto \<Rightarrow> 64 word \<Rightarrow> string option \<Rightarrow> server \<Rightarrow> hello_ok" where
  "make_ok C ts remote s =
     hello_ok_sign C (id_ed_priv (srv_id s))
       \<lparr>hok_ed = id_ed_pub (srv_id s), hok_x = id_x_pub (srv_id s), hok_name = cfg_name (srv_cfg s),
        hok_observed = hostOnly remote, hok_ts = ts, hok_sig = [], hok_cloud = cfg_cloud (srv_cfg s)\<rparr>"

datatype greeting = Refused | ReplyFailed message | Registered message sref

text \<open>
  \<open>handleConn\<close> up to its loop: the first message, \<open>None\<close> when reading it fails, must be a signed
  hello; the answer is written before the session is registered. The result holds the reply and
  the new session's index.
\<close>

definition register :: "bool \<Rightarrow> session \<Rightarrow> server \<Rightarrow> server" where
  "register as_hub sess s =
     (let r = length (srv_heap s); k = mustHex (se_ed sess);
          s1 = s\<lparr>srv_heap := srv_heap s @ [sess]\<rparr>
      in if as_hub then s1\<lparr>srv_hubs := AList.update k r (srv_hubs s1)\<rparr>
         else s1\<lparr>srv_spokes := AList.update k r (srv_spokes s1),
                 srv_where := AList.update k (self_hex s) (srv_where s1),
                 srv_names := AList.update k (se_name sess) (srv_names s1)\<rparr>)"

definition handleConn ::
  "json_lib \<Rightarrow> crypto \<Rightarrow> instant \<Rightarrow> 64 word \<Rightarrow> string option \<Rightarrow> string \<Rightarrow> bool \<Rightarrow> message option \<Rightarrow> server
     \<Rightarrow> greeting \<times> server \<times> outputs" where
  "handleConn J C now ts remote proto write_ok first s =
     (case first of
        None \<Rightarrow> (Refused, s, [])
      | Some msg \<Rightarrow>
          (if msg_type msg \<noteq> TypeHello \<and> msg_type msg \<noteq> TypePeerHello then (Refused, s, [])
           else case un_hello J (msg_body msg) of
             None \<Rightarrow> (Refused, s, [])
           | Some h \<Rightarrow>
               (if \<not> hello_verify C h then (Refused, s, [])
                else let as_hub = (msg_type msg = TypePeerHello \<or> hel_role h = RoleHub);
                         reply = msgOf (if as_hub then TypePeerOK else TypeHelloOK)
                                   (js_hello_ok J (make_ok C ts remote s));
                         sess = \<lparr>se_role = hel_role h, se_ed = hel_ed h, se_x = hel_x h,
                                 se_name = hel_name h, se_cloud = hel_cloud h, se_rtt = 0,
                                 se_last = now, se_v6 = hel_v6 h, se_v4 = hel_v4 h,
                                 se_port = hel_port h, se_proto = proto\<rparr>
                     in if \<not> write_ok then (ReplyFailed reply, s, [])
                        else case gossipLocal J (register as_hub sess s) of
                          (s', out) \<Rightarrow> (Registered reply (length (srv_heap s)), s', out))))"

definition handlePeerSession ::
  "json_lib \<Rightarrow> instant \<Rightarrow> string \<Rightarrow> hello_ok \<Rightarrow> server \<Rightarrow> server \<times> outputs" where
  "handlePeerSession J now proto ok s =
     gossipLocal J (register True
       \<lparr>se_role = RoleHub, se_ed = hok_ed ok, se_x = hok_x ok, se_name = hok_name ok,
        se_cloud = False, se_rtt = 0, se_last = now, se_v6 = [], se_v4 = [], se_port = 0,
        se_proto = proto\<rparr> s)"

definition drop_session :: "json_lib \<Rightarrow> string \<Rightarrow> string \<Rightarrow> server \<Rightarrow> server \<times> outputs" where
  "drop_session J key role s =
     gossipLocal J
       (if role = RoleHub then s\<lparr>srv_hubs := AList.delete key (srv_hubs s)\<rparr>
        else s\<lparr>srv_spokes := AList.delete key (srv_spokes s)\<rparr>)"

text \<open>When the loop of a session ends, its deferred \<open>drop\<close> runs with the key and role of its hello.\<close>

definition close_session :: "json_lib \<Rightarrow> sref \<Rightarrow> server \<Rightarrow> server \<times> outputs" where
  "close_session J r s =
     drop_session J (mustHex (se_ed (srv_heap s ! r))) (se_role (srv_heap s ! r)) s"

definition values_of :: "(string \<times> sref) list \<Rightarrow> sref list" where
  "values_of m = map snd m"

text \<open>\<open>Stop\<close> closes the connections of all sessions; their loops then end.\<close>

definition server_stop :: "server \<Rightarrow> sref list" where
  "server_stop s = values_of (srv_spokes s) @ values_of (srv_hubs s)"

definition keepAlive :: "json_lib \<Rightarrow> int \<Rightarrow> server \<Rightarrow> outputs" where
  "keepAlive J now s =
     map (\<lambda>r. (r, msgOf TypePing (js_ping J now))) (values_of (srv_spokes s) @ values_of (srv_hubs s))"

subsection \<open>Starting up and dialling other hubs\<close>

text \<open>\<open>fmt.Sscanf\<close> with \<open>%d\<close>: an optional sign and digits; the rest is left.\<close>

definition sscan_d :: "string \<Rightarrow> int option" where
  "sscan_d s =
     (let t = dropWhile is_space s;
          neg = (t \<noteq> [] \<and> hd t = CHR ''-'');
          u = (if t \<noteq> [] \<and> (hd t = CHR ''-'' \<or> hd t = CHR ''+'') then tl t else t);
          ds = takeWhile is_digit u
      in if ds = [] then None
         else Some (if neg then - int (undecimal ds) else int (undecimal ds)))"

definition bound_port :: "string \<Rightarrow> server_config \<Rightarrow> server_config" where
  "bound_port addr cfg =
     (case split_host_port addr of
        None \<Rightarrow> cfg
      | Some (_, p) \<Rightarrow> (case sscan_d p of None \<Rightarrow> cfg | Some n \<Rightarrow> cfg\<lparr>cfg_port := n\<rparr>))"

text \<open>
  \<open>Start\<close> once the sockets are open: the port comes from the address actually bound (the same
  address is read for the UDP socket and for the listener), the invite is made, and the peer
  invites that decode are dialled.
\<close>

definition server_start ::
  "go_unicode \<Rightarrow> instant \<Rightarrow> string \<Rightarrow> server \<Rightarrow> server \<times> invite list" where
  "server_start U now addr s =
     (let s1 = s\<lparr>srv_cfg := bound_port addr (bound_port addr (srv_cfg s))\<rparr>;
          s2 = s1\<lparr>srv_inv := Some (buildInvite now s1)\<rparr>
      in (s2, List.map_filter (\<lambda>p. case DecodeFull U p of Inl _ \<Rightarrow> None | Inr iv \<Rightarrow> Some iv)
                (cfg_peers (srv_cfg s2))))"

definition listen_target :: "string \<Rightarrow> string \<Rightarrow> int \<Rightarrow> bool \<Rightarrow> string \<times> string" where
  "listen_target proto host port v6only =
     (if v6only then proto @ ''6'' else proto,
      if host = [] \<and> v6only then ''[::]:'' @ decimal_int port
      else join_host_port host (decimal_int port))"

definition peer_hello :: "crypto \<Rightarrow> 64 word \<Rightarrow> server \<Rightarrow> hello" where
  "peer_hello C ts s =
     hello_sign C (id_ed_priv (srv_id s))
       \<lparr>hel_role = RoleHub, hel_ed = id_ed_pub (srv_id s), hel_x = id_x_pub (srv_id s),
        hel_name = cfg_name (srv_cfg s), hel_ts = ts, hel_cloud = cfg_cloud (srv_cfg s),
        hel_v6 = ipString (cfg_public_v6 (srv_cfg s)), hel_v4 = ipString (cfg_public_v4 (srv_cfg s)),
        hel_port = word_of_int (cfg_port (srv_cfg s)), hel_sig = []\<rparr>"

text \<open>How one attempt to reach an address goes, up to the answer to the hello.\<close>

datatype attempt = DialFailed | HelloNotSent | NoAnswer | Answer message

definition peer_answer :: "json_lib \<Rightarrow> crypto \<Rightarrow> invite \<Rightarrow> attempt \<Rightarrow> hello_ok option" where
  "peer_answer J C iv a =
     (case a of
        Answer m \<Rightarrow>
          (case un_hello_ok J (msg_body m) of
             None \<Rightarrow> None
           | Some ok \<Rightarrow>
               (if \<not> hello_ok_verify C ok then None
                else if length (inv_pub_key iv) = 32 \<and> \<not> edEq (hok_ed ok) (inv_pub_key iv) then None
                else Some ok))
      | _ \<Rightarrow> None)"

fun first_some :: "('a \<Rightarrow> 'b option) \<Rightarrow> 'a list \<Rightarrow> 'b option" where
  "first_some f [] = None"
| "first_some f (x # xs) = (case f x of Some y \<Rightarrow> Some y | None \<Rightarrow> first_some f xs)"

text \<open>
  \<open>att netw addr msg\<close> is how dialling \<open>addr\<close> over \<open>netw\<close> and writing \<open>msg\<close> there goes, \<open>clock netw addr\<close>
  the time read for the hello of that attempt.
\<close>

definition dialPeer ::
  "json_lib \<Rightarrow> crypto \<Rightarrow> (string \<Rightarrow> string \<Rightarrow> 64 word) \<Rightarrow> (string \<Rightarrow> string \<Rightarrow> message \<Rightarrow> attempt) \<Rightarrow> server
     \<Rightarrow> invite \<Rightarrow> hello_ok option" where
  "dialPeer J C clock att s iv =
     (let addrs = (if inv_ipv6 iv \<noteq> None then [AddrIPv6 iv] else []) @
                  (if inv_ipv4 iv \<noteq> None then [AddrIPv4 iv] else [])
      in first_some (\<lambda>addr. first_some (\<lambda>netw.
           peer_answer J C iv (att netw addr (msgOf TypePeerHello (js_hello J (peer_hello C (clock netw addr) s)))))
           [''quic'', ''tls'']) addrs)"

subsection \<open>Status\<close>

record hub_status =
  hs_name :: string
  hs_role :: string
  hs_self :: bool
  hs_fingerprint :: string
  hs_v6 :: string
  hs_v4 :: string
  hs_rtt_ms :: int
  hs_proto :: string
  hs_cloud :: bool
  hs_spokes :: nat
  hs_peers :: nat

text \<open>\<open>Duration.Milliseconds\<close> truncates toward zero.\<close>

definition milliseconds :: "int \<Rightarrow> int" where
  "milliseconds d = (if d < 0 then - (- d div 1000000) else d div 1000000)"

definition session_status :: "string \<Rightarrow> session \<Rightarrow> hub_status" where
  "session_status role se =
     \<lparr>hs_name = se_name se, hs_role = role, hs_self = False, hs_fingerprint = Fingerprint (se_ed se),
      hs_v6 = [], hs_v4 = [], hs_rtt_ms = milliseconds (se_rtt se), hs_proto = se_proto se,
      hs_cloud = False, hs_spokes = 0, hs_peers = 0\<rparr>"

definition Status :: "server \<Rightarrow> hub_status list" where
  "Status s =
     \<lparr>hs_name = cfg_name (srv_cfg s), hs_role = ''hub'', hs_self = True,
      hs_fingerprint = Fingerprint (id_ed_pub (srv_id s)),
      hs_v6 = ipString (cfg_public_v6 (srv_cfg s)), hs_v4 = ipString (cfg_public_v4 (srv_cfg s)),
      hs_rtt_ms = 0, hs_proto = [], hs_cloud = cfg_cloud (srv_cfg s),
      hs_spokes = length (srv_spokes s), hs_peers = length (srv_hubs s)\<rparr>
     # map (\<lambda>(_, r). session_status ''spoke'' (srv_heap s ! r)) (srv_spokes s)
     @ map (\<lambda>(_, r). session_status ''hub'' (srv_heap s ! r)) (srv_hubs s)"

subsection \<open>The hub as a state machine\<close>

text \<open>
  What can happen to a running hub. A message read by \<open>handleConn\<close>'s loop comes with what the
  connection has captured so far, one read by \<open>handlePeerSession\<close> does not.
\<close>

datatype hub_event =
    Connect instant "64 word" "string option" string bool "message option"
  | PeerUp instant string hello_ok
  | Deliver clocks sref "bytes option" message
  | Close sref
  | Tick int

definition capture_dump :: "bytes option \<Rightarrow> server \<Rightarrow> server" where
  "capture_dump dump s =
     (case dump of
        None \<Rightarrow> s
      | Some d \<Rightarrow> (if cfg_capture (srv_cfg s) then s\<lparr>srv_dumps := srv_dumps s @ [d]\<rparr> else s))"

fun hub_handle :: "json_lib \<Rightarrow> crypto \<Rightarrow> hub_event \<Rightarrow> server \<Rightarrow> server \<times> outputs" where
  "hub_handle J C (Connect now ts remote proto ok first) s =
     snd (handleConn J C now ts remote proto ok first s)"
| "hub_handle J C (PeerUp now proto ok) s = handlePeerSession J now proto ok s"
| "hub_handle J C (Deliver ck r dump m) s = onMsg J C ck r m (capture_dump dump s)"
| "hub_handle J C (Close r) s = close_session J r s"
| "hub_handle J C (Tick now) s = (s, keepAlive J now s)"

text \<open>A session's loop runs only for a session that was registered.\<close>

fun enabled :: "hub_event \<Rightarrow> server \<Rightarrow> bool" where
  "enabled (Deliver ck r dump m) s = (r < length (srv_heap s))"
| "enabled (Close r) s = (r < length (srv_heap s))"
| "enabled _ s = True"

inductive hub_step :: "json_lib \<Rightarrow> crypto \<Rightarrow> server \<Rightarrow> hub_event \<Rightarrow> outputs \<Rightarrow> server \<Rightarrow> bool"
  for J C where
  hub_stepI: "enabled ev s \<Longrightarrow> hub_handle J C ev s = (s', out) \<Longrightarrow> hub_step J C s ev out s'"

inductive_cases hub_stepE: "hub_step J C s ev out s'"

text \<open>Runs of a hub: the events with their outputs, in order.\<close>

inductive hub_run ::
  "json_lib \<Rightarrow> crypto \<Rightarrow> server \<Rightarrow> (hub_event \<times> outputs) list \<Rightarrow> server \<Rightarrow> bool" for J C where
  run_nil: "hub_run J C s [] s"
| run_snoc: "hub_run J C s tr t \<Longrightarrow> hub_step J C t ev out u \<Longrightarrow> hub_run J C s (tr @ [(ev, out)]) u"

inductive reachable :: "json_lib \<Rightarrow> crypto \<Rightarrow> server \<Rightarrow> bool" for J C where
  reach_new: "reachable J C (NewServer i cfg)"
| reach_step: "reachable J C s \<Longrightarrow> hub_step J C s ev out s' \<Longrightarrow> reachable J C s'"

end
