(* ===== verification/Hub_Cache.thy ===== *)
theory Hub_Cache
  imports Invite_Codec Interfaces "HOL-Library.Product_Lexorder" "HOL-Library.Multiset"
begin

section \<open>The cache of hub locators (\<open>hub/cache.go\<close>)\<close>

text \<open>
  A spoke remembers the hubs it has met; \<open>DialOrder\<close> decides in which order it tries the hubs
  it knows. \<open>sort.SliceStable\<close> is modelled by its insertion sort, and proved equal to the
  library's \<open>sort_key\<close> for the two orders the code uses, so that the order of candidates is a
  fact about keys. The JSON text of the cache file is a parameter, given a value in \<open>Hub_Files\<close>.
\<close>

definition SrcOpen :: string where "SrcOpen = ''open''"
definition SrcCache :: string where "SrcCache = ''cache''"
definition SrcCommunity :: string where "SrcCommunity = ''community''"
definition SrcInvite :: string where "SrcInvite = ''invite''"
definition SrcCloud :: string where "SrcCloud = ''cloud''"

lemmas src_consts = SrcOpen_def SrcCache_def SrcCommunity_def SrcInvite_def SrcCloud_def

text \<open>The round-trip time is an \<open>int64\<close> of milliseconds; 0 stands for not measured.\<close>

record cached_hub =
  ch_name :: string
  ch_ed :: bytes
  ch_x :: bytes
  ch_v6 :: string
  ch_v4 :: string
  ch_port :: "16 word"
  ch_rtt :: int
  ch_seen :: instant
  ch_source :: string
  ch_cloud :: bool
  ch_short :: string

record cache_json =
  js_hubs :: "cached_hub list \<Rightarrow> bytes option"
  un_hubs :: "bytes \<Rightarrow> cached_hub list"

record cache =
  c_path :: string
  c_hubs :: "cached_hub list"

definition open_cache :: "cache_json \<Rightarrow> disk \<Rightarrow> string \<Rightarrow> cache" where
  "open_cache J d path =
     \<lparr>c_path = path, c_hubs = (case d path of None \<Rightarrow> [] | Some b \<Rightarrow> un_hubs J b)\<rparr>"

definition cache_save :: "cache_json \<Rightarrow> disk_writer \<Rightarrow> cache \<Rightarrow> disk \<Rightarrow> disk \<times> bool" where
  "cache_save J wr c d =
     (if c_path c = [] then (d, True)
      else case js_hubs J (c_hubs c) of None \<Rightarrow> (d, False) | Some b \<Rightarrow> wr (c_path c) b d)"

text \<open>The scan of \<open>Remember\<close>: the first entry with the same key is replaced in place.\<close>

fun remember_scan :: "cached_hub \<Rightarrow> cached_hub list \<Rightarrow> cached_hub list" where
  "remember_scan h [] = [h]"
| "remember_scan h (x # xs) =
     (if ch_ed x = ch_ed h then
        (let h1 = (if ch_rtt h = 0 then h\<lparr>ch_rtt := ch_rtt x\<rparr> else h);
             h2 = (if ch_source h1 = [] then h1\<lparr>ch_source := ch_source x\<rparr> else h1)
         in h2 # xs)
      else x # remember_scan h xs)"

definition remember :: "instant \<Rightarrow> cached_hub \<Rightarrow> cache \<Rightarrow> cache" where
  "remember now h c =
     (let h0 = (if ch_port h = 0 then h\<lparr>ch_port := default_port\<rparr> else h)
      in c\<lparr>c_hubs := remember_scan (h0\<lparr>ch_seen := now\<rparr>) (c_hubs c)\<rparr>)"

definition cache_list :: "cache \<Rightarrow> cached_hub list" where
  "cache_list c = c_hubs c"

definition ch_invite :: "cached_hub \<Rightarrow> invite option" where
  "ch_invite h =
     (if length (ch_ed h) \<noteq> 32 then None
      else let iv = \<lparr>inv_version = invite_version, inv_pub_key = ch_ed h,
             inv_ipv6 = (if ch_v6 h \<noteq> [] then parse_ip (ch_v6 h) else None),
             inv_ipv4 = (if ch_v4 h \<noteq> [] then parse_ip (ch_v4 h) else None),
             inv_port = ch_port h, inv_expiry = zero_time, inv_name = ch_name h,
             inv_cloud_seed = ch_cloud h\<rparr>
      in if inv_ipv6 iv = None \<and> \<not> inv_cloud_seed iv then None else Some iv)"

definition cache_resolver :: "go_unicode \<Rightarrow> cache \<Rightarrow> resolver" where
  "cache_resolver U c =
     LookupTable U (filter (\<lambda>i. i \<noteq> None) (map ch_invite (c_hubs c)))"

definition ch_priority :: "cached_hub \<Rightarrow> nat" where
  "ch_priority h =
     (if ch_cloud h \<or> ch_source h = SrcCloud then 5
      else if ch_source h = SrcOpen then 1
      else if ch_source h = SrcCache then 2
      else if ch_source h = SrcCommunity then 3
      else if ch_source h = SrcInvite then 4
      else 2)"

subsection \<open>Stable sorting\<close>

text \<open>Insertion sort: each element moves left past the elements it is less than.\<close>

fun insert_left :: "('a \<Rightarrow> 'a \<Rightarrow> bool) \<Rightarrow> 'a \<Rightarrow> 'a list \<Rightarrow> 'a list" where
  "insert_left lt x [] = [x]"
| "insert_left lt x (y # ys) = (if lt x y then y # insert_left lt x ys else x # y # ys)"

definition slice_stable :: "('a \<Rightarrow> 'a \<Rightarrow> bool) \<Rightarrow> 'a list \<Rightarrow> 'a list" where
  "slice_stable lt xs = rev (foldl (\<lambda>p x. insert_left lt x p) [] xs)"

lemma mset_insert_left [simp]: "mset (insert_left lt x ys) = add_mset x (mset ys)"
  by (induction ys) auto

lemma set_insert_left [simp]: "set (insert_left lt x ys) = insert x (set ys)"
  by (metis mset_insert_left set_mset_add_mset_insert set_mset_mset)

lemma mset_insert_fold:
  "mset (foldl (\<lambda>p x. insert_left lt x p) p xs) = mset p + mset xs"
  by (induction xs arbitrary: p) auto

lemma sorted_insert_left:
  fixes key :: "'a \<Rightarrow> 'k::linorder"
  assumes "\<And>a b. lt a b \<longleftrightarrow> key a < key b" "sorted_wrt (\<ge>) (map key ys)"
  shows "sorted_wrt (\<ge>) (map key (insert_left lt x ys))"
  using assms(2) by (induction ys) (auto simp: assms(1))

lemma filter_insert_left:
  fixes key :: "'a \<Rightarrow> 'k::linorder"
  assumes "\<And>a b. lt a b \<longleftrightarrow> key a < key b" "sorted_wrt (\<ge>) (map key ys)"
  shows "filter (\<lambda>y. key y = k) (insert_left lt x ys) =
    (if key x = k then x # filter (\<lambda>y. key y = k) ys else filter (\<lambda>y. key y = k) ys)"
  using assms(2) by (induction ys) (auto simp: assms(1))

lemma insert_fold_stable:
  fixes key :: "'a \<Rightarrow> 'k::linorder"
  assumes lt: "\<And>a b. lt a b \<longleftrightarrow> key a < key b" and "sorted_wrt (\<ge>) (map key p)"
  shows "sorted_wrt (\<ge>) (map key (foldl (\<lambda>p x. insert_left lt x p) p xs)) \<and>
    filter (\<lambda>y. key y = k) (foldl (\<lambda>p x. insert_left lt x p) p xs) =
      rev (filter (\<lambda>y. key y = k) xs) @ filter (\<lambda>y. key y = k) p"
  using assms(2)
  by (induction xs arbitrary: p)
    (simp_all add: sorted_insert_left [OF lt] filter_insert_left [OF lt])

text \<open>For an order given by a key, it is the stable sort by that key.\<close>

lemma slice_stable_sort_key:
  fixes key :: "'a \<Rightarrow> 'k::linorder"
  assumes lt: "\<And>a b. lt a b \<longleftrightarrow> key a < key b"
  shows "slice_stable lt xs = sort_key key xs"
proof -
  let ?out = "foldl (\<lambda>p x. insert_left lt x p) [] xs"
  have st: "sorted_wrt (\<ge>) (map key ?out) \<and>
      filter (\<lambda>y. key y = k) ?out = rev (filter (\<lambda>y. key y = k) xs) @ filter (\<lambda>y. key y = k) []" for k
    by (rule insert_fold_stable) (simp_all add: lt)
  have "sort_key key xs = slice_stable lt xs"
  proof (rule properties_for_sort_key)
    show "mset (slice_stable lt xs) = mset xs"
      by (simp add: slice_stable_def mset_insert_fold)
    show "filter (\<lambda>x. key k = key x) (slice_stable lt xs) = filter (\<lambda>x. key k = key x) xs" for k
      using st [of "key k"] by (simp add: slice_stable_def eq_commute [of "key k"] flip: rev_filter)
    show "sorted (map key (slice_stable lt xs))"
      using st [THEN conjunct1] by (simp add: slice_stable_def sorted_wrt_rev flip: rev_map)
  qed
  then show ?thesis by simp
qed

subsection \<open>Dial order\<close>

text \<open>The comparison of \<open>DialOrder\<close>: measured times first, then the more recently seen.\<close>

definition dial_less :: "string \<Rightarrow> cached_hub \<Rightarrow> cached_hub \<Rightarrow> bool" where
  "dial_less src a b =
     (if (src = SrcCache \<or> src = SrcOpen) \<and> ch_rtt a \<noteq> ch_rtt b then
        (if ch_rtt a = 0 then False
         else if ch_rtt b = 0 then True
         else ch_rtt a < ch_rtt b)
      else ch_seen b < ch_seen a)"

definition dial_key :: "cached_hub \<Rightarrow> string" where
  "dial_key h = string_of (ch_ed h) @ ''|'' @ ch_v6 h @ ''|'' @ ch_v4 h"

type_synonym dial_state = "string list \<times> cached_hub list"

definition dial_add1 :: "string \<Rightarrow> dial_state \<Rightarrow> cached_hub \<Rightarrow> dial_state" where
  "dial_add1 src = (\<lambda>(seen, out) h.
     let k = dial_key h in
     if k \<in> set seen then (seen, out)
     else let h' = (if ch_source h = [] then h\<lparr>ch_source := src\<rparr> else h)
          in (k # seen, out @ [h']))"

definition dial_add :: "cached_hub list \<Rightarrow> string \<Rightarrow> dial_state \<Rightarrow> dial_state" where
  "dial_add hs src st = foldl (dial_add1 src) st (slice_stable (dial_less src) hs)"

definition DialOrder ::
  "cached_hub list \<Rightarrow> cached_hub list \<Rightarrow> cached_hub list \<Rightarrow> cached_hub list \<Rightarrow> cached_hub list
     \<Rightarrow> cached_hub list" where
  "DialOrder opn cached community fresh seeds =
     (let st0 = dial_add opn SrcOpen ([], []);
          seed = filter ch_cloud cached;
          noseed = filter (\<lambda>h. \<not> ch_cloud h) cached;
          st1 = dial_add noseed SrcCache st0;
          st2 = dial_add community SrcCommunity st1;
          st3 = dial_add fresh SrcInvite st2;
          st4 = dial_add seeds SrcCloud st3;
          st5 = dial_add seed SrcCloud st4
      in snd st5)"

text \<open>The comparison as a key: measured round-trip times before unmeasured, then recency.\<close>

datatype rtt_rank = Measured int | Unmeasured

instantiation rtt_rank :: linorder
begin

fun less_eq_rtt_rank :: "rtt_rank \<Rightarrow> rtt_rank \<Rightarrow> bool" where
  "Measured a \<le> Measured b \<longleftrightarrow> a \<le> b"
| "Unmeasured \<le> Measured b \<longleftrightarrow> False"
| "_ \<le> Unmeasured \<longleftrightarrow> True"

definition less_rtt_rank :: "rtt_rank \<Rightarrow> rtt_rank \<Rightarrow> bool" where
  "less_rtt_rank a b = (a \<le> b \<and> \<not> b \<le> a)"

instance
proof
  fix x y z :: rtt_rank
  show "x < y \<longleftrightarrow> x \<le> y \<and> \<not> y \<le> x" by (simp add: less_rtt_rank_def)
  show "x \<le> x" by (cases x) simp_all
  show "x \<le> y \<Longrightarrow> y \<le> z \<Longrightarrow> x \<le> z" by (cases x; cases y; cases z) simp_all
  show "x \<le> y \<Longrightarrow> y \<le> x \<Longrightarrow> x = y" by (cases x; cases y) simp_all
  show "x \<le> y \<or> y \<le> x" by (cases x; cases y) auto
qed

end

definition rank_of :: "int \<Rightarrow> rtt_rank" where
  "rank_of t = (if t = 0 then Unmeasured else Measured t)"

definition dial_rank :: "string \<Rightarrow> cached_hub \<Rightarrow> rtt_rank \<times> int" where
  "dial_rank src h =
     (if src = SrcCache \<or> src = SrcOpen then rank_of (ch_rtt h) else Unmeasured, - ch_seen h)"

lemma dial_less_rank: "dial_less src a b \<longleftrightarrow> dial_rank src a < dial_rank src b"
  by (auto simp: dial_less_def dial_rank_def rank_of_def less_rtt_rank_def less_prod_def)

text \<open>Keeping the first of every key.\<close>

fun first_by :: "('a \<Rightarrow> 'k) \<Rightarrow> 'k set \<Rightarrow> 'a list \<Rightarrow> 'a list" where
  "first_by f S [] = []"
| "first_by f S (x # xs) =
     (if f x \<in> S then first_by f S xs else x # first_by f (insert (f x) S) xs)"

lemma first_by_append:
  "first_by f S (xs @ ys) = first_by f S xs @ first_by f (S \<union> f ` set xs) ys"
  by (induction xs arbitrary: S) (auto simp: insert_absorb)

lemma first_by_map: "(\<And>x. f (g x) = f x) \<Longrightarrow> first_by f S (map g xs) = map g (first_by f S xs)"
  by (induction xs arbitrary: S) auto

lemma set_first_by_subset: "set (first_by f S xs) \<subseteq> set xs"
  by (induction xs arbitrary: S) auto

lemma first_by_keys:
  "f ` set (first_by f S xs) = f ` set xs - S \<and> distinct (map f (first_by f S xs))"
proof (induction xs arbitrary: S)
  case (Cons x xs)
  have "f x \<notin> f ` set (first_by f (insert (f x) S) xs)" using Cons [of "insert (f x) S"] by blast
  then show ?case using Cons [of S] Cons [of "insert (f x) S"] by auto
qed simp

lemma sorted_wrt_first_by: "sorted_wrt P xs \<Longrightarrow> sorted_wrt P (first_by f S xs)"
  by (induction xs arbitrary: S) (auto dest: set_first_by_subset [THEN subsetD])

lemma sorted_wrt_implied:
  "list_all (\<lambda>x. \<not> P x) xs \<Longrightarrow> sorted_wrt (\<lambda>a b. P a \<longrightarrow> P b) xs"
  "list_all P xs \<Longrightarrow> sorted_wrt (\<lambda>a b. P a \<longrightarrow> P b) xs"
  by (induction xs) (auto simp: list_all_iff)

definition with_source :: "string \<Rightarrow> cached_hub \<Rightarrow> cached_hub" where
  "with_source src h = (if ch_source h = [] then h\<lparr>ch_source := src\<rparr> else h)"

lemma with_source_sel [simp]:
  "dial_key (with_source src h) = dial_key h" "ch_cloud (with_source src h) = ch_cloud h"
  by (simp_all add: with_source_def dial_key_def)

lemma dial_add1_fold:
  "foldl (dial_add1 src) (seen, out) hs =
     (rev (map dial_key (first_by dial_key (set seen) hs)) @ seen,
      out @ map (with_source src) (first_by dial_key (set seen) hs))"
  by (induction hs arbitrary: seen out) (auto simp: dial_add1_def with_source_def Let_def)

definition segment :: "string \<Rightarrow> cached_hub list \<Rightarrow> cached_hub list" where
  "segment src hs = map (with_source src) (sort_key (dial_rank src) hs)"

lemma segment_facts [simp]:
  "dial_key ` set (segment src hs) = dial_key ` set hs"
  "list_all (\<lambda>h. P (ch_cloud h)) (segment src hs) \<longleftrightarrow> list_all (\<lambda>h. P (ch_cloud h)) hs"
  by (simp_all add: segment_def image_image list_all_iff)

text \<open>
  The state of the walk: the keys seen are those of the output, and a segment appends the
  first of each new key.
\<close>

definition dial_ok :: "dial_state \<Rightarrow> cached_hub list \<Rightarrow> bool" where
  "dial_ok st xs \<longleftrightarrow> set (fst st) = dial_key ` set xs \<and> snd st = first_by dial_key {} xs"

lemma dial_ok_add:
  assumes "dial_ok st xs"
  shows "dial_ok (dial_add hs src st) (xs @ segment src hs)"
proof -
  obtain seen out where st: "st = (seen, out)" by fastforce
  let ?ys = "sort_key (dial_rank src) hs"
  have add: "dial_add hs src st =
      (rev (map dial_key (first_by dial_key (set seen) ?ys)) @ seen,
       out @ map (with_source src) (first_by dial_key (set seen) ?ys))"
    by (simp add: dial_add_def st dial_add1_fold slice_stable_sort_key [OF dial_less_rank])
  have "map (with_source src) (first_by dial_key (set seen) ?ys) =
      first_by dial_key (set seen) (segment src hs)"
    by (simp add: segment_def first_by_map)
  moreover have "dial_key ` set (first_by dial_key (set seen) ?ys) \<union> set seen =
      dial_key ` set hs \<union> set seen"
    using first_by_keys [of dial_key "set seen" ?ys] by auto
  ultimately show ?thesis
    using assms unfolding dial_ok_def add by (auto simp: st first_by_append image_Un)
qed

lemma DialOrder_first_by:
  "DialOrder opn cached community fresh seeds =
     first_by dial_key {}
       (segment SrcOpen opn @ segment SrcCache (filter (\<lambda>h. \<not> ch_cloud h) cached)
        @ segment SrcCommunity community @ segment SrcInvite fresh
        @ segment SrcCloud seeds @ segment SrcCloud (filter ch_cloud cached))"
proof -
  have "dial_ok ([], []) []" by (simp add: dial_ok_def)
  note ok = dial_ok_add [OF dial_ok_add [OF dial_ok_add [OF dial_ok_add [OF dial_ok_add [OF dial_ok_add [OF this]]]]]]
  show ?thesis
    using ok [of "filter ch_cloud cached" SrcCloud seeds SrcCloud fresh SrcInvite community SrcCommunity
        "filter (\<lambda>h. \<not> ch_cloud h) cached" SrcCache opn SrcOpen]
    by (simp add: DialOrder_def dial_ok_def Let_def)
qed

subsection \<open>Remembering\<close>

text \<open>
  The cache as a map from hub keys: what \<open>Remember\<close> stores is the new entry with the gaps
  (port, round-trip time, source) filled in.
\<close>

definition merge_hub :: "instant \<Rightarrow> cached_hub \<Rightarrow> cached_hub option \<Rightarrow> cached_hub" where
  "merge_hub now h old =
     h\<lparr>ch_port := port_or_default (ch_port h), ch_seen := now,
       ch_rtt := (if ch_rtt h = 0 then case old of None \<Rightarrow> 0 | Some x \<Rightarrow> ch_rtt x else ch_rtt h),
       ch_source := (if ch_source h = [] then case old of None \<Rightarrow> [] | Some x \<Rightarrow> ch_source x
                     else ch_source h)\<rparr>"

definition cache_view :: "cache \<Rightarrow> bytes \<Rightarrow> cached_hub option" where
  "cache_view c k = find (\<lambda>x. ch_ed x = k) (c_hubs c)"

definition cache_inv :: "cache \<Rightarrow> bool" where
  "cache_inv c \<longleftrightarrow> distinct (map ch_ed (c_hubs c))"

definition remember_step :: "cache \<Rightarrow> instant \<times> cached_hub \<Rightarrow> cache" where
  "remember_step c = (\<lambda>(now, h). remember now h c)"

definition remember_astep ::
  "(bytes \<Rightarrow> cached_hub option) \<Rightarrow> instant \<times> cached_hub \<Rightarrow> bytes \<Rightarrow> cached_hub option" where
  "remember_astep m = (\<lambda>(now, h). m(ch_ed h := Some (merge_hub now h (m (ch_ed h)))))"

lemma find_none_key: "k \<notin> ch_ed ` set xs \<Longrightarrow> find (\<lambda>x. ch_ed x = k) xs = None"
  by (auto simp: find_None_iff)

lemma scan_keys:
  "map ch_ed (remember_scan h xs) =
     (if ch_ed h \<in> ch_ed ` set xs then map ch_ed xs else map ch_ed xs @ [ch_ed h])"
  by (induction xs) (auto simp: Let_def)

lemma scan_find:
  "find (\<lambda>x. ch_ed x = k) (remember_scan (h\<lparr>ch_port := port_or_default (ch_port h), ch_seen := now\<rparr>) xs) =
     (if k = ch_ed h then Some (merge_hub now h (find (\<lambda>x. ch_ed x = k) xs))
      else find (\<lambda>x. ch_ed x = k) xs)"
  by (induction xs) (cases h; auto simp: merge_hub_def Let_def)+

lemma remember_hubs:
  "c_hubs (remember now h c) =
     remember_scan (h\<lparr>ch_port := port_or_default (ch_port h), ch_seen := now\<rparr>) (c_hubs c)"
  by (cases h) (simp add: remember_def port_or_default_def Let_def)

lemma remember_view:
  "cache_view (remember now h c) = (cache_view c)(ch_ed h := Some (merge_hub now h (cache_view c (ch_ed h))))"
  by (auto simp: cache_view_def remember_hubs scan_find)

lemma remember_keys:
  "map ch_ed (c_hubs (remember now h c)) =
     (if ch_ed h \<in> ch_ed ` set (c_hubs c) then map ch_ed (c_hubs c)
      else map ch_ed (c_hubs c) @ [ch_ed h])"
  by (simp add: remember_hubs scan_keys)

interpretation cac: projection remember_step cache_inv cache_view remember_astep
  by unfold_locales
    (auto simp: remember_step_def cache_inv_def remember_keys remember_view remember_astep_def)

subsection \<open>Properties\<close>

text \<open>
  \<open>Remember\<close> keeps one entry per hub key: the entry for the key becomes the new locator, with
  the default port for 0, the current time, and the old round-trip time and source where the new
  ones are missing; every other entry is untouched and the order of the keys is kept, a new key
  going last. This holds through any sequence of calls.
\<close>

theorem remember_spec:
  "cache_view (foldl remember_step c ops) k =
     foldl (\<lambda>old (now, h). if ch_ed h = k then Some (merge_hub now h old) else old) (cache_view c k) ops \<and>
   (map ch_ed (c_hubs (foldl remember_step c ops)) =
     foldl (\<lambda>ks (now, h). if ch_ed h \<in> set ks then ks else ks @ [ch_ed h]) (map ch_ed (c_hubs c)) ops)"
  by (induction ops arbitrary: c) (auto simp: remember_step_def remember_view remember_keys)

text \<open>
  C18: The order in which hubs are dialled is: the open ones, the cached hubs that are not cloud
  seeds, the community hubs, fresh invites, cloud seeds, cached cloud seeds; open and cached
  hubs by measured round-trip time (unmeasured last), then and everywhere else the most recently
  seen first, ties in their given order; of a locator that occurs twice the first stays, and
  a missing source is filled in with the segment's.
\<close>

theorem dial_order_spec:
  "DialOrder opn cached community fresh seeds =
     first_by dial_key {}
       (segment SrcOpen opn @ segment SrcCache (filter (\<lambda>h. \<not> ch_cloud h) cached)
        @ segment SrcCommunity community @ segment SrcInvite fresh
        @ segment SrcCloud seeds @ segment SrcCloud (filter ch_cloud cached))"
  by (rule DialOrder_first_by)

text \<open>
  No locator is dialled twice and none is forgotten: the locators of the dial order are
  distinct, and they are exactly those of the five inputs.
\<close>

theorem dial_order_complete:
  "distinct (map dial_key (DialOrder opn cached community fresh seeds)) \<and>
   dial_key ` set (DialOrder opn cached community fresh seeds) =
     dial_key ` (set opn \<union> set cached \<union> set community \<union> set fresh \<union> set seeds)"
  by (auto simp: DialOrder_first_by first_by_keys image_Un)

text \<open>
  A cloud seed is a last resort: when the open, community and freshly scanned hubs are not
  cloud seeds, no hub that is not a cloud seed comes after one that is, whatever the cache holds.
\<close>

theorem cloud_seeds_last:
  assumes "list_all (\<lambda>h. \<not> ch_cloud h) (opn @ community @ fresh)" "list_all ch_cloud seeds"
  shows "sorted_wrt (\<lambda>a b. ch_cloud a \<longrightarrow> ch_cloud b) (DialOrder opn cached community fresh seeds)"
proof -
  let ?early = "segment SrcOpen opn @ segment SrcCache (filter (\<lambda>h. \<not> ch_cloud h) cached)
        @ segment SrcCommunity community @ segment SrcInvite fresh"
  let ?late = "segment SrcCloud seeds @ segment SrcCloud (filter ch_cloud cached)"
  have e: "list_all (\<lambda>h. \<not> ch_cloud h) ?early" using assms(1) by (auto simp: list_all_iff segment_def)
  have l: "list_all ch_cloud ?late" using assms(2) by (auto simp: list_all_iff segment_def)
  have "sorted_wrt (\<lambda>a b. ch_cloud a \<longrightarrow> ch_cloud b) ?early"
    using e by (rule sorted_wrt_implied(1))
  moreover have "sorted_wrt (\<lambda>a b. ch_cloud a \<longrightarrow> ch_cloud b) ?late"
    using l by (rule sorted_wrt_implied(2))
  ultimately have "sorted_wrt (\<lambda>a b. ch_cloud a \<longrightarrow> ch_cloud b) (?early @ ?late)"
    using l unfolding sorted_wrt_append list_all_iff by blast
  then show ?thesis
    using sorted_wrt_first_by unfolding DialOrder_first_by append_assoc by blast
qed

definition demo_hub :: "byte \<Rightarrow> int \<Rightarrow> bool \<Rightarrow> cached_hub" where
  "demo_hub k rtt cloud =
     \<lparr>ch_name = ''hub'', ch_ed = replicate 32 k, ch_x = [], ch_v6 = ''2001:db8::1'', ch_v4 = [],
      ch_port = 4433, ch_rtt = rtt, ch_seen = 0, ch_source = [], ch_cloud = cloud, ch_short = []\<rparr>"

theorem cloud_seeds_last_witness:
  "map ch_cloud (DialOrder [] [demo_hub 1 0 True, demo_hub 2 9 False] [demo_hub 3 0 False] [] []) =
     [False, False, True]"
proof -
  let ?d = "DialOrder [] [demo_hub 1 0 True, demo_hub 2 9 False] [demo_hub 3 0 False] [] []"
  have "length ?d = 3" "ch_cloud (?d ! 2)"
    by (simp_all add: DialOrder_def dial_add_def slice_stable_def dial_add1_def Let_def dial_key_def
        demo_hub_def string_of_def replicate_eq_replicate char_of_byte_def)
  moreover have "sorted_wrt (\<lambda>a b. ch_cloud a \<longrightarrow> ch_cloud b) ?d"
    by (rule cloud_seeds_last) (simp_all add: demo_hub_def)
  ultimately show ?thesis
    by (simp add: DialOrder_def dial_add_def slice_stable_def dial_add1_def Let_def dial_key_def
        demo_hub_def string_of_def char_of_byte_def)
qed

text \<open>
  The resolver of the cache maps a short code to the invite of the last cached hub that has
  this code (after hyphens, case and blanks are normalised), and to nothing when no cached hub
  with a usable locator has it.
\<close>

theorem cache_resolver_exact:
  "cache_resolver U c = Some (\<lambda>code.
     find (\<lambda>iv. ShortCode iv = NormalizeShort U code) (rev (List.map_filter ch_invite (c_hubs c))))"
proof -
  have some: "find (\<lambda>i. \<exists>iv. i = Some iv \<and> P iv) (map Some xs) = map_option Some (find P xs)"
    for P and xs :: "invite list"
    by (induction xs) simp_all
  have "filter (\<lambda>i. i \<noteq> None) (map ch_invite hs) = map Some (List.map_filter ch_invite hs)" for hs
    by (induction hs) (auto simp: List.map_filter_simps split: option.splits)
  then show ?thesis
    by (simp add: cache_resolver_def LookupTable_def lookup_fold rev_map some fun_eq_iff
        split: option.splits)
qed

end
