(* ===== verification/Offline_Queue.thy ===== *)
theory Offline_Queue
  imports Envelope Interfaces
begin

section \<open>The offline queue of a spoke (\<open>hub/queue.go\<close>)\<close>

text \<open>
  Envelopes that cannot be sent wait in a bounded queue that is saved to a file after every
  change. An item is an optional envelope, because the saved JSON may hold a null. The JSON
  text of the items is a parameter: \<open>js_items\<close> encodes them, \<open>un_items\<close> gives the items that
  \<open>json.Unmarshal\<close> leaves, whose error the code ignores.
\<close>

record queue_json =
  js_items :: "envelope option list \<Rightarrow> bytes"
  un_items :: "bytes \<Rightarrow> envelope option list"

record queue =
  q_path :: string
  q_max :: nat
  q_items :: "envelope option list"

definition open_queue :: "queue_json \<Rightarrow> disk \<Rightarrow> string \<Rightarrow> int \<Rightarrow> queue" where
  "open_queue J d path lim =
     \<lparr>q_path = path, q_max = (if lim \<le> 0 then 1000 else nat lim),
      q_items = (case d path of None \<Rightarrow> [] | Some b \<Rightarrow> un_items J b)\<rparr>"

definition q_save :: "queue_json \<Rightarrow> disk_writer \<Rightarrow> queue \<Rightarrow> disk \<Rightarrow> disk" where
  "q_save J wr q d = (if q_path q = [] then d else fst (wr (q_path q) (js_items J (q_items q)) d))"

definition q_push :: "queue_json \<Rightarrow> disk_writer \<Rightarrow> envelope option \<Rightarrow> queue \<times> disk \<Rightarrow> queue \<times> disk" where
  "q_push J wr e = (\<lambda>(q, d).
     let items = q_items q @ [e];
         q' = q\<lparr>q_items := (if q_max q < length items then drop (length items - q_max q) items
                           else items)\<rparr>
     in (q', q_save J wr q' d))"

definition q_pop_all ::
  "queue_json \<Rightarrow> disk_writer \<Rightarrow> queue \<times> disk \<Rightarrow> envelope list \<times> (queue \<times> disk)" where
  "q_pop_all J wr = (\<lambda>(q, d).
     let out = concat (map (\<lambda>it. case it of None \<Rightarrow> [] | Some e \<Rightarrow> [e]) (q_items q));
         q' = q\<lparr>q_items := []\<rparr>
     in (out, (q', q_save J wr q' d)))"

definition q_len :: "queue \<Rightarrow> nat" where
  "q_len q = length (q_items q)"

subsection \<open>Operations as steps\<close>

datatype queue_op = Push "envelope option" | PopAll

fun queue_step :: "queue_json \<Rightarrow> disk_writer \<Rightarrow> queue \<times> disk \<Rightarrow> queue_op \<Rightarrow> queue \<times> disk" where
  "queue_step J wr s (Push e) = q_push J wr e s"
| "queue_step J wr s PopAll = snd (q_pop_all J wr s)"

text \<open>The abstract queue: the last \<open>max\<close> pushed items since it was last emptied.\<close>

type_synonym abs_queue = "nat \<times> envelope option list"

fun queue_astep :: "abs_queue \<Rightarrow> queue_op \<Rightarrow> abs_queue" where
  "queue_astep (n, xs) (Push e) = (n, lastn n (xs @ [e]))"
| "queue_astep (n, xs) PopAll = (n, [])"

definition queue_view :: "queue \<times> disk \<Rightarrow> abs_queue" where
  "queue_view s = (q_max (fst s), q_items (fst s))"

definition queue_inv :: "queue \<times> disk \<Rightarrow> bool" where
  "queue_inv s \<longleftrightarrow> 0 < q_max (fst s) \<and> length (q_items (fst s)) \<le> q_max (fst s)"

lemma push_items:
  "q_items (fst (q_push J wr e s)) = lastn (q_max (fst s)) (q_items (fst s) @ [e])"
  by (cases s) (auto simp: q_push_def Let_def lastn_def)

lemma push_frame [simp]:
  "q_max (fst (q_push J wr e s)) = q_max (fst s)" "q_path (fst (q_push J wr e s)) = q_path (fst s)"
  by (cases s; simp add: q_push_def Let_def)+

lemma pop_frame [simp]:
  "q_items (fst (snd (q_pop_all J wr s))) = []"
  "q_max (fst (snd (q_pop_all J wr s))) = q_max (fst s)"
  "q_path (fst (snd (q_pop_all J wr s))) = q_path (fst s)"
  by (cases s; simp add: q_pop_all_def Let_def)+

lemma pop_out: "fst (q_pop_all J wr s) = List.map_filter id (q_items (fst s))"
proof -
  have "concat (map (\<lambda>it. case it of None \<Rightarrow> [] | Some e \<Rightarrow> [e]) xs) = List.map_filter id xs"
    for xs :: "envelope option list"
    by (induction xs) (auto simp: List.map_filter_simps split: option.splits)
  then show ?thesis by (cases s) (simp add: q_pop_all_def Let_def)
qed

interpretation que: projection "queue_step J wr" queue_inv queue_view queue_astep
proof unfold_locales
  fix s x assume "queue_inv s"
  then show "queue_inv (queue_step J wr s x)"
    by (cases x) (simp_all add: queue_inv_def push_items)
  show "queue_view (queue_step J wr s x) = queue_astep (queue_view s) x"
    by (cases x) (simp_all add: queue_view_def push_items)
qed

lemma abs_pushes: "foldl queue_astep (n, lastn n xs) (map Push es) = (n, lastn n (xs @ es))"
  by (induction es arbitrary: xs) (simp_all add: lastn_lastn_append)

text \<open>With a path and a disk that works, the file always holds the items.\<close>

definition disk_synced :: "queue_json \<Rightarrow> queue \<times> disk \<Rightarrow> bool" where
  "disk_synced J s \<longleftrightarrow> snd s (q_path (fst s)) = Some (js_items J (q_items (fst s)))"

lemma step_synced: "q_path (fst s) \<noteq> [] \<Longrightarrow> disk_synced J (queue_step J disk_write s x)"
  by (cases x; cases s)
    (auto simp: disk_synced_def q_push_def q_pop_all_def q_save_def disk_write_def Let_def)

lemma step_path [simp]: "q_path (fst (queue_step J wr s x)) = q_path (fst s)"
  "q_max (fst (queue_step J wr s x)) = q_max (fst s)"
  by (cases x; simp)+

lemma run_path [simp]: "q_path (fst (foldl (queue_step J wr) s xs)) = q_path (fst s)"
  "q_max (fst (foldl (queue_step J wr) s xs)) = q_max (fst s)"
  by (induction xs arbitrary: s) simp_all

lemma run_synced:
  "q_path (fst s) \<noteq> [] \<Longrightarrow> xs \<noteq> [] \<Longrightarrow> disk_synced J (foldl (queue_step J disk_write) s xs)"
  by (induction xs rule: rev_induct) (simp_all add: step_synced)

subsection \<open>Properties\<close>

text \<open>
  C14: After any operations, envelopes pushed since come out of \<open>PopAll\<close> first in first out: the
  result is the last \<open>max\<close> of what was queued before and then pushed, in that order (older ones
  are dropped, nulls skipped), and the queue is empty afterwards. This holds whatever the disk
  does.
\<close>

theorem queue_fifo:
  assumes "queue_inv s"
  shows "let t = foldl (queue_step J wr) s ops; r = foldl (queue_step J wr) t (map Push es) in
    fst (q_pop_all J wr r) =
      List.map_filter id (lastn (q_max (fst s)) (q_items (fst t) @ es)) \<and>
    q_len (fst r) \<le> q_max (fst s) \<and> q_len (fst (snd (q_pop_all J wr r))) = 0"
proof -
  define t where "t = foldl (queue_step J wr) s ops"
  define r where "r = foldl (queue_step J wr) t (map Push es)"
  have inv: "queue_inv t" unfolding t_def by (rule que.run_inv [OF assms])
  then have "queue_view t = (q_max (fst t), lastn (q_max (fst t)) (q_items (fst t)))"
    by (simp add: queue_view_def queue_inv_def)
  then have "queue_view r = (q_max (fst t), lastn (q_max (fst t)) (q_items (fst t) @ es))"
    unfolding r_def que.view_run [OF inv] by (simp add: abs_pushes)
  moreover have "q_max (fst t) = q_max (fst s)" by (simp add: t_def)
  ultimately have "q_items (fst r) = lastn (q_max (fst s)) (q_items (fst t) @ es)"
    by (simp add: queue_view_def)
  then show ?thesis
    by (simp add: pop_out q_len_def flip: t_def r_def)
qed

definition demo_queue_json :: queue_json where
  "demo_queue_json = \<lparr>js_items = (\<lambda>xs. map (\<lambda>x. if x = None then 0 else 1) xs),
     un_items = map (\<lambda>b. if b = 0 then None else Some demo_envelope)\<rparr>"

theorem queue_fifo_witness:
  "fst (q_pop_all demo_queue_json disk_write
     (foldl (queue_step demo_queue_json disk_write) (open_queue demo_queue_json (\<lambda>p. None) ''q'' 2, \<lambda>p. None)
       (map Push [Some demo_envelope, None, Some (demo_envelope\<lparr>env_id := ''2''\<rparr>)])))
   = [demo_envelope\<lparr>env_id := ''2''\<rparr>]"
proof -
  have "queue_inv (open_queue demo_queue_json (\<lambda>p. None) ''q'' 2, \<lambda>p. None)"
    by (simp add: queue_inv_def open_queue_def)
  from queue_fifo [OF this, of demo_queue_json disk_write "[]"
      "[Some demo_envelope, None, Some (demo_envelope\<lparr>env_id := ''2''\<rparr>)]"]
  show ?thesis
    by (simp add: Let_def open_queue_def lastn_def List.map_filter_simps)
qed

text \<open>
  A crash loses nothing that was queued: after any operations on a queue with a file, on a
  disk that works, opening the file again with the same limit gives the same queue, provided the
  JSON text of its items reads back as them.
\<close>

theorem queue_survives_restart:
  assumes "q_path (fst s) \<noteq> []" "ops \<noteq> []" "0 < q_max (fst s)"
    and "un_items J (js_items J (q_items (fst (foldl (queue_step J disk_write) s ops)))) =
      q_items (fst (foldl (queue_step J disk_write) s ops))"
  shows "open_queue J (snd (foldl (queue_step J disk_write) s ops)) (q_path (fst s))
      (int (q_max (fst s))) = fst (foldl (queue_step J disk_write) s ops)"
proof -
  define r where "r = foldl (queue_step J disk_write) s ops"
  have "q_path (fst r) = q_path (fst s)" "q_max (fst r) = q_max (fst s)" by (simp_all add: r_def)
  moreover have "snd r (q_path (fst r)) = Some (js_items J (q_items (fst r)))"
    using run_synced [OF assms(1,2)] by (simp add: r_def disk_synced_def)
  ultimately have "open_queue J (snd r) (q_path (fst s)) (int (q_max (fst s))) = fst r"
    using assms(3,4) by (simp add: open_queue_def flip: r_def)
  then show ?thesis by (simp add: r_def)
qed

theorem queue_survives_restart_witness:
  "q_items (open_queue demo_queue_json
      (snd (foldl (queue_step demo_queue_json disk_write)
         (open_queue demo_queue_json (\<lambda>p. None) ''q'' 1, \<lambda>p. None)
         [Push None, Push (Some demo_envelope)])) ''q'' 1) = [Some demo_envelope]"
proof -
  let ?s = "(open_queue demo_queue_json (\<lambda>p. None) ''q'' 1, \<lambda>p. None)"
  have items: "q_items (fst (foldl (queue_step demo_queue_json disk_write) ?s
      [Push None, Push (Some demo_envelope)])) = [Some demo_envelope]"
    by (simp add: push_items open_queue_def lastn_def)
  have "un_items demo_queue_json (js_items demo_queue_json [Some demo_envelope]) = [Some demo_envelope]"
    by (simp add: demo_queue_json_def)
  then show ?thesis
    using queue_survives_restart [of ?s "[Push None, Push (Some demo_envelope)]" demo_queue_json] items
    by (simp add: open_queue_def)
qed

end
