(* ===== verification/Transport.thy ===== *)
theory Transport
  imports Prelude
begin

section \<open>Opening connections (\<open>hub/transport.go\<close>)\<close>

text \<open>
  The time limits of the transport and the choice that \<open>Dial\<close> makes between QUIC and TLS. The
  protocols themselves are third-party code: \<open>os_dial\<close> says how long opening a connection and
  its stream to an address took, \<open>None\<close> when it failed or the deadline passed. What a connection
  does with messages once it is open is modelled in \<open>Wire_Frames\<close>.
\<close>

definition DialTimeout :: int where "DialTimeout = 15 * second"
definition HandshakeTimeout :: int where "HandshakeTimeout = 20 * second"
definition IdleTimeout :: int where "IdleTimeout = 45 * second"
definition KeepAlive :: int where "KeepAlive = 10 * second"

lemmas timeout_consts = DialTimeout_def HandshakeTimeout_def IdleTimeout_def KeepAlive_def

record os_dial =
  quic_dial :: "instant \<Rightarrow> string \<Rightarrow> int option"
  tls_dial :: "instant \<Rightarrow> string \<Rightarrow> string \<Rightarrow> int option"

text \<open>The settings given to QUIC: an idle connection is kept open by pings and closed without them.\<close>

record quic_config =
  qc_max_idle :: int
  qc_keep_alive :: int
  qc_handshake :: int

definition quicConfig :: quic_config where
  "quicConfig = \<lparr>qc_max_idle = IdleTimeout, qc_keep_alive = KeepAlive, qc_handshake = HandshakeTimeout\<rparr>"

text \<open>
  \<open>Dial\<close>: the protocol of the connection and the time it took to open. A context without a
  deadline gets one; the TLS dialler has a limit of its own besides.
\<close>

definition Dial :: "os_dial \<Rightarrow> instant \<Rightarrow> instant option \<Rightarrow> string \<Rightarrow> string \<Rightarrow> (string \<times> int) option" where
  "Dial os now deadline network addr =
     (let dl = (case deadline of Some t \<Rightarrow> t | None \<Rightarrow> now + DialTimeout) in
      if network = ''quic'' \<or> network = ''udp'' \<or> network = ''udp6'' \<or> network = ''udp4'' then
        map_option (Pair ''quic'') (quic_dial os dl addr)
      else if network = ''tls'' \<or> network = ''tcp'' \<or> network = ''tcp6'' \<or> network = ''tcp4'' then
        (let netw = (if network = ''tcp4'' then ''tcp4'' else if network = ''tcp6'' then ''tcp6'' else ''tcp'')
         in map_option (Pair ''tls'') (tls_dial os (min dl (now + DialTimeout)) netw addr))
      else None)"

text \<open>
  \<open>setReadDeadline\<close>: the deadline a connection of the given protocol ends up with. The stream of a
  QUIC connection is wrapped in a \<open>quicStreamCloser\<close>, which has no \<open>SetReadDeadline\<close>, so the call does
  nothing there.
\<close>

definition setReadDeadline :: "string \<Rightarrow> instant \<Rightarrow> int \<Rightarrow> instant option" where
  "setReadDeadline proto now d = (if proto = ''tls'' then Some (now + d) else None)"

lemma dialled_deadline:
  "Dial os now dl network addr = Some (p, t) \<Longrightarrow>
     setReadDeadline p now' d = None \<longleftrightarrow> network \<in> {''quic'', ''udp'', ''udp6'', ''udp4''}"
  by (auto simp: Dial_def setReadDeadline_def Let_def split: if_splits)

text \<open>The pings of a session come often enough to keep both timers from running out.\<close>

lemma keep_alive_short: "2 * KeepAlive < IdleTimeout" "KeepAlive < HandshakeTimeout"
  by (simp_all add: timeout_consts second_def)

lemma Dial_proto: "Dial os now dl network addr = Some (p, t) \<Longrightarrow> p = ''quic'' \<or> p = ''tls''"
  by (auto simp: Dial_def Let_def split: if_splits)

end
