(* ===== verification/Spoke_Client.thy ===== *)
theory Spoke_Client
  imports Hub_Server Hub_Cache Offline_Queue Transport
begin

section \<open>The spoke (\<open>hub/spoke.go\<close>)\<close>

text \<open>
  A spoke keeps one connection to a hub, tries the hubs it knows in the order of the cache, sends
  sealed chat messages and queues them while no hub is reachable. The state is explicit, the
  effects (messages written to the hub, the banner, messages shown to the user, the closing of
  the connection) are a list of outputs. What the code takes from outside (JSON, cryptography,
  the disk, Unicode tables) is the record \<open>spoke_env\<close>; random bytes, clock readings and the
  outcome of network operations are arguments. All readings of the clock within one pass over
  the candidates are taken as one instant.
\<close>

subsection \<open>State\<close>

record chat_box =
  cb_text :: string
  cb_name :: string
  cb_x :: bytes

text \<open>\<open>un_gossip_part\<close> is what decoding leaves in the struct when its error is ignored.\<close>

record spoke_env =
  en_json :: json_lib
  en_crypto :: crypto
  en_unicode :: go_unicode
  en_cache :: cache_json
  en_queue :: queue_json
  en_write :: disk_writer
  js_chat :: "chat_box \<Rightarrow> bytes"
  un_chat :: "bytes \<Rightarrow> chat_box option"
  un_gossip_part :: "bytes \<Rightarrow> presence_gossip"

record peer_info =
  pi_ed :: bytes
  pi_x :: bytes
  pi_name :: string

record spoke_config =
  sc_name :: string
  sc_invites :: "string list"
  sc_manual_v6 :: string
  sc_manual_port :: "16 word"
  sc_manual_key :: bytes
  sc_community :: "cached_hub list"
  sc_seeds :: "cached_hub list"
  sc_capture :: bool

record spoke =
  sp_cfg :: spoke_config
  sp_id :: identity
  sp_sess :: "session option"
  sp_hub_ok :: "hello_ok option"
  sp_peers :: "(string \<times> peer_info) list"
  sp_dump :: bytes
  sp_failed :: "(string \<times> instant) list"
  sp_cache :: cache
  sp_queue :: queue
  sp_disk :: disk

datatype spoke_out =
    ToHub message
  | Banner string
  | Show string string string
  | CloseConn

datatype spoke_error =
    ErrNoHub
  | NoCandidates
  | DialError
  | UnexpectedType string
  | HandshakeError
  | HubKeyMismatch
  | AllFailed
  | ReadError
  | ContextDone
  | SealError env_error
  | SendFailed
  | UnknownPeer
  | NoBoxKey

definition err_no_hub_text :: string where "err_no_hub_text = ''no hub '' @ string_of [0xe2, 0x80, 0x94] @ '' queued''"

definition zero32 :: bytes where "zero32 = replicate 32 0"

definition NewSpoke :: "identity \<Rightarrow> spoke_config \<Rightarrow> cache option \<Rightarrow> queue option \<Rightarrow> disk \<Rightarrow> spoke_env \<Rightarrow> spoke" where
  "NewSpoke i cfg c q d E =
     \<lparr>sp_cfg = cfg, sp_id = (if sc_name cfg \<noteq> [] then i\<lparr>id_name := sc_name cfg\<rparr> else i),
      sp_sess = None, sp_hub_ok = None, sp_peers = [], sp_dump = [], sp_failed = [],
      sp_cache = (case c of Some x \<Rightarrow> x | None \<Rightarrow> open_cache (en_cache E) d []),
      sp_queue = (case q of Some x \<Rightarrow> x | None \<Rightarrow> open_queue (en_queue E) d [] 1000),
      sp_disk = d\<rparr>"

definition AddInvite :: "string \<Rightarrow> spoke \<Rightarrow> spoke" where
  "AddInvite x s = s\<lparr>sp_cfg := (sp_cfg s)\<lparr>sc_invites := sc_invites (sp_cfg s) @ [x]\<rparr>\<rparr>"

subsection \<open>Failures\<close>

definition hubFailKey :: "cached_hub \<Rightarrow> string" where
  "hubFailKey h =
     string_of (ch_ed h) @ ''|'' @ ch_v6 h @ ''|'' @ ch_v4 h @ ''|'' @ decimal (unat (ch_port h))"

definition noteFail :: "instant \<Rightarrow> cached_hub \<Rightarrow> spoke \<Rightarrow> spoke" where
  "noteFail now h s = s\<lparr>sp_failed := AList.update (hubFailKey h) now (sp_failed s)\<rparr>"

definition clearFail :: "cached_hub \<Rightarrow> spoke \<Rightarrow> spoke" where
  "clearFail h s = s\<lparr>sp_failed := AList.delete (hubFailKey h) (sp_failed s)\<rparr>"

definition fail_window :: int where "fail_window = 30 * second"

definition recentFail :: "instant \<Rightarrow> spoke \<Rightarrow> cached_hub \<Rightarrow> bool" where
  "recentFail now s h =
     (case map_of (sp_failed s) (hubFailKey h) of
        None \<Rightarrow> False
      | Some t \<Rightarrow> now - t < fail_window)"

subsection \<open>Candidates\<close>

definition cachedFromInvite :: "invite \<Rightarrow> string \<Rightarrow> cached_hub" where
  "cachedFromInvite iv src =
     \<lparr>ch_name = inv_name iv, ch_ed = inv_pub_key iv, ch_x = [],
      ch_v6 = (if inv_ipv6 iv \<noteq> None then ip_string (inv_ipv6 iv) else []),
      ch_v4 = (if inv_ipv4 iv \<noteq> None then ip_string (inv_ipv4 iv) else []),
      ch_port = inv_port iv, ch_rtt = 0, ch_seen = zero_time, ch_source = src,
      ch_cloud = inv_cloud_seed iv, ch_short = ShortDisplay iv\<rparr>"

definition combineResolvers :: "go_unicode \<Rightarrow> cache \<Rightarrow> cached_hub list \<Rightarrow> resolver" where
  "combineResolvers U c community =
     LookupTable U (filter (\<lambda>i. i \<noteq> None) (map ch_invite (cache_list c) @ map ch_invite community))"

text \<open>The loop over the invites: the cache learns each hub, cloud seeds and others are collected apart.\<close>

definition invite_step ::
  "go_unicode \<Rightarrow> instant \<Rightarrow> cached_hub list \<Rightarrow> cache \<times> cached_hub list \<times> cached_hub list \<Rightarrow> string
     \<Rightarrow> cache \<times> cached_hub list \<times> cached_hub list" where
  "invite_step U now community = (\<lambda>(c, fresh, seeds) raw.
     case decode_invite U raw (combineResolvers U c community) of
       Inl _ \<Rightarrow> (c, fresh, seeds)
     | Inr iv \<Rightarrow>
         (let h = cachedFromInvite iv SrcInvite; c' = remember now h c in
          if inv_cloud_seed iv then (c', fresh, seeds @ [h]) else (c', fresh @ [h], seeds)))"

definition empty_hub :: cached_hub where
  "empty_hub =
     \<lparr>ch_name = [], ch_ed = [], ch_x = [], ch_v6 = [], ch_v4 = [], ch_port = 0, ch_rtt = 0,
      ch_seen = zero_time, ch_source = [], ch_cloud = False, ch_short = []\<rparr>"

definition candidates :: "spoke_env \<Rightarrow> instant \<Rightarrow> spoke \<Rightarrow> cached_hub list \<times> spoke" where
  "candidates E now s =
     (let cfg = sp_cfg s;
          opn = (case (sp_sess s, sp_hub_ok s) of
                   (Some _, Some k) \<Rightarrow>
                     [empty_hub\<lparr>ch_name := hok_name k, ch_ed := hok_ed k, ch_source := SrcOpen\<rparr>]
                 | _ \<Rightarrow> []);
          cached = cache_list (sp_cache s);
          (c, fresh, seeds) =
            foldl (invite_step (en_unicode E) now (sc_community cfg)) (sp_cache s, [], []) (sc_invites cfg);
          fresh' = (if sc_manual_v6 cfg \<noteq> [] then
                      fresh @ [empty_hub\<lparr>ch_v6 := sc_manual_v6 cfg,
                                         ch_port := port_or_default (sc_manual_port cfg),
                                         ch_source := SrcInvite, ch_ed := sc_manual_key cfg\<rparr>]
                    else fresh);
          ordered = DialOrder opn cached (sc_community cfg) fresh' (seeds @ sc_seeds cfg);
          s' = s\<lparr>sp_cache := c\<rparr>
      in (filter (\<lambda>h. \<not> recentFail now s' h) ordered @ filter (recentFail now s') ordered, s'))"

subsection \<open>Dialling and the handshake\<close>

definition hub_port :: "cached_hub \<Rightarrow> string" where
  "hub_port h = decimal (unat (port_or_default (ch_port h)))"

definition dial_targets :: "cached_hub \<Rightarrow> (string \<times> string) list" where
  "dial_targets h =
     (if ch_v6 h \<noteq> [] then
        (let a = join_host_port (ch_v6 h) (hub_port h) in [(''quic'', a), (''tcp6'', a)]) else []) @
     (if ch_v4 h \<noteq> [] then
        (let a = join_host_port (ch_v4 h) (hub_port h) in [(''quic'', a), (''tcp4'', a)]) else [])"

text \<open>All addresses of a hub share one deadline; the time returned is that of the \<open>Dial\<close> that succeeds.\<close>

definition dialHub :: "os_dial \<Rightarrow> instant \<Rightarrow> int \<Rightarrow> cached_hub \<Rightarrow> (string \<times> int) option" where
  "dialHub os now timeout h =
     first_some (\<lambda>(netw, addr). Dial os now (Some (now + timeout)) netw addr) (dial_targets h)"

definition spoke_hello :: "crypto \<Rightarrow> 64 word \<Rightarrow> identity \<Rightarrow> hello" where
  "spoke_hello C ts i =
     hello_sign C (id_ed_priv i)
       \<lparr>hel_role = RoleSpoke, hel_ed = id_ed_pub i, hel_x = id_x_pub i, hel_name = id_name i,
        hel_ts = ts, hel_cloud = False, hel_v6 = [], hel_v4 = [], hel_port = 0, hel_sig = []\<rparr>"

definition handshake :: "spoke_env \<Rightarrow> attempt \<Rightarrow> cached_hub \<Rightarrow> spoke_error + hello_ok" where
  "handshake E answer h =
     (case answer of
        Answer m \<Rightarrow>
          (if msg_type m \<noteq> TypeHelloOK \<and> msg_type m \<noteq> TypePeerOK then Inl (UnexpectedType (msg_type m))
           else case un_hello_ok (en_json E) (msg_body m) of
             None \<Rightarrow> Inl HandshakeError
           | Some ok \<Rightarrow>
               (if \<not> hello_ok_verify (en_crypto E) ok then Inl HandshakeError
                else if length (ch_ed h) = 32 \<and> \<not> edEq (hok_ed ok) (ch_ed h) then Inl HubKeyMismatch
                else Inr ok))
      | _ \<Rightarrow> Inl HandshakeError)"

definition displayName :: "string \<Rightarrow> cached_hub \<Rightarrow> string" where
  "displayName name h =
     (if name \<noteq> [] then name
      else if ch_name h \<noteq> [] then ch_name h
      else Fingerprint (ch_ed h))"

definition hub_kind :: "hello_ok \<Rightarrow> cached_hub \<Rightarrow> string" where
  "hub_kind ok h =
     (if hok_cloud ok then ''cloud seed''
      else if ch_v6 h = [] \<and> ch_v4 h \<noteq> [] then ''IPv4''
      else ''IPv6 Starlink'')"

text \<open>
  What \<open>connectOnce\<close> does between a successful handshake and its read loop. The errors of the
  writes are ignored by the code, so the outputs are attempts to write.
\<close>

definition connected ::
  "spoke_env \<Rightarrow> instant \<Rightarrow> string \<Rightarrow> int \<Rightarrow> hello_ok \<Rightarrow> cached_hub \<Rightarrow> spoke \<Rightarrow> spoke \<times> spoke_out list" where
  "connected E now proto rtt ok h0 s =
     (let J = en_json E;
          h1 = h0\<lparr>ch_rtt := milliseconds rtt, ch_ed := hok_ed ok, ch_x := hok_x ok, ch_name := hok_name ok,
                  ch_cloud := hok_cloud ok\<rparr>;
          h = (if ch_source h1 = [] then h1\<lparr>ch_source := SrcCache\<rparr> else h1);
          c = remember now h (sp_cache s);
          s1 = clearFail h (s\<lparr>sp_cache := c, sp_disk := fst (cache_save (en_cache E) (en_write E) c (sp_disk s))\<rparr>);
          sess = \<lparr>se_role = RoleHub, se_ed = hok_ed ok, se_x = hok_x ok, se_name = hok_name ok,
                  se_cloud = hok_cloud ok, se_rtt = rtt, se_last = now, se_v6 = [], se_v4 = [],
                  se_port = 0, se_proto = proto\<rparr>;
          (envs, (q, d)) = q_pop_all (en_queue E) (en_write E) (sp_queue s1, sp_disk s1);
          s2 = s1\<lparr>sp_sess := Some sess, sp_hub_ok := Some ok, sp_queue := q, sp_disk := d\<rparr>;
          pres = \<lparr>pre_pubs = [id_ed_pub (sp_id s)], pre_x = id_x_pub (sp_id s), pre_name = id_name (sp_id s)\<rparr>
      in (s2, [Banner (''Hub: '' @ displayName (hok_name ok) h @ '' ('' @ hub_kind ok h @ '')''),
               ToHub (msgOf TypePresence (js_presence J pres))]
              @ map (\<lambda>e. ToHub (msgOf TypeEnvelope (js_envelope J e))) envs))"

text \<open>The hello written on a new connection, with the Unix time in seconds.\<close>

definition greet :: "spoke_env \<Rightarrow> instant \<Rightarrow> spoke \<Rightarrow> spoke_out" where
  "greet E now s =
     ToHub (msgOf TypeHello (js_hello (en_json E)
       (spoke_hello (en_crypto E) (word_of_int (unix_seconds now)) (sp_id s))))"

text \<open>How long a hub is tried: two seconds when it failed lately or was the last one connected.\<close>

definition patience :: "instant \<Rightarrow> bytes \<Rightarrow> spoke \<Rightarrow> cached_hub \<Rightarrow> int" where
  "patience now dropped s h =
     (if recentFail now s h \<or> dropped \<noteq> [] \<and> edEq dropped (ch_ed h) then 2 * second else DialTimeout)"

text \<open>
  The loop of \<open>connectOnce\<close>: \<open>answer h\<close> is what comes back on the connection to \<open>h\<close>. The result
  is the hub connected to, or the last error.
\<close>

fun connect_loop ::
  "spoke_env \<Rightarrow> instant \<Rightarrow> bytes \<Rightarrow> os_dial \<Rightarrow> (cached_hub \<Rightarrow> attempt) \<Rightarrow> spoke_error option \<Rightarrow> cached_hub list
     \<Rightarrow> spoke \<Rightarrow> (spoke_error + cached_hub) \<times> spoke \<times> spoke_out list" where
  "connect_loop E now dropped os answer lst [] s =
     (Inl (case lst of None \<Rightarrow> AllFailed | Some e \<Rightarrow> e), s, [])"
| "connect_loop E now dropped os answer lst (h # hs) s =
     (case dialHub os now (patience now dropped s h) h of
           None \<Rightarrow> connect_loop E now dropped os answer (Some DialError) hs (noteFail now h s)
         | Some (proto, rtt) \<Rightarrow>
             (case handshake E (answer h) h of
                Inl e \<Rightarrow>
                  (case connect_loop E now dropped os answer (Some e) hs s of
                     (res, s', out) \<Rightarrow> (res, s', greet E now s # CloseConn # out))
              | Inr ok \<Rightarrow>
                  (case connected E now proto rtt ok h s of (s', out) \<Rightarrow> (Inr h, s', greet E now s # out))))"

definition connect_start ::
  "spoke_env \<Rightarrow> instant \<Rightarrow> os_dial \<Rightarrow> (cached_hub \<Rightarrow> attempt) \<Rightarrow> spoke
     \<Rightarrow> (spoke_error + cached_hub) \<times> spoke \<times> spoke_out list" where
  "connect_start E now os answer s =
     (case candidates E now s of
        (cands, s1) \<Rightarrow>
          (if cands = [] then (Inl NoCandidates, s1, [])
           else connect_loop E now (case sp_sess s1 of None \<Rightarrow> [] | Some se \<Rightarrow> se_ed se) os answer None cands s1))"

text \<open>
  The end of \<open>connectOnce\<close>: the read loop has returned an error, or the context is done; the
  connection is closed and the hub is noted as failed under the locator it was dialled by.
\<close>

definition disconnected :: "instant \<Rightarrow> cached_hub \<Rightarrow> bool \<Rightarrow> spoke \<Rightarrow> spoke_error option \<times> spoke \<times> spoke_out list" where
  "disconnected now h ctx_done s =
     (let ed = (case sp_sess s of None \<Rightarrow> [] | Some se \<Rightarrow> se_ed se);
          dropped = empty_hub\<lparr>ch_ed := ed, ch_v6 := ch_v6 h, ch_v4 := ch_v4 h, ch_port := ch_port h\<rparr>;
          s1 = noteFail now dropped (s\<lparr>sp_sess := None, sp_hub_ok := None\<rparr>)
      in (Some (if ctx_done then ContextDone else ReadError), s1, [CloseConn, CloseConn]))"

subsection \<open>Messages from the hub\<close>

definition tryOpen :: "spoke_env \<Rightarrow> envelope \<Rightarrow> bytes \<Rightarrow> spoke \<Rightarrow> spoke_error + bytes" where
  "tryOpen E env from_x s =
     (if from_x \<noteq> zero32 then
        (case open_env (en_crypto E) (sp_id s) from_x env of Inl e \<Rightarrow> Inl (SealError e) | Inr p \<Rightarrow> Inr p)
      else Inl NoBoxKey)"

definition handleEnvelope :: "spoke_env \<Rightarrow> envelope \<Rightarrow> spoke \<Rightarrow> spoke \<times> spoke_out list" where
  "handleEnvelope E env s =
     (if env_verify (en_crypto E) env \<noteq> None then (s, [])
      else if \<not> edEq (env_to env) (id_ed_pub (sp_id s)) then (s, [])
      else let k = mustHex (env_from env);
               from_x = (case map_of (sp_peers s) k of None \<Rightarrow> zero32 | Some p \<Rightarrow> pi_x p)
           in case tryOpen E env from_x s of
                Inl _ \<Rightarrow> (s, [])
              | Inr plain \<Rightarrow>
                  (case un_chat E plain of
                     None \<Rightarrow> (s, [])
                   | Some box \<Rightarrow>
                       ((if length (cb_x box) = 32 then
                           s\<lparr>sp_peers := AList.update k
                               \<lparr>pi_ed = env_from env, pi_x = cb_x box, pi_name = cb_name box\<rparr> (sp_peers s)\<rparr>
                         else s),
                        [Show (Fingerprint (env_from env)) (cb_name box) (cb_text box)])))"

definition learn_entry :: "bytes \<Rightarrow> (string \<times> peer_info) list \<Rightarrow> gossip_entry \<Rightarrow> (string \<times> peer_info) list" where
  "learn_entry own ps e =
     (if edEq (ge_pub e) own then ps
      else AList.update (mustHex (ge_pub e))
        \<lparr>pi_ed = ge_pub e, pi_x = (if length (ge_x e) = 32 then ge_x e else zero32), pi_name = ge_name e\<rparr> ps)"

text \<open>One turn of the read loop, after the message has arrived; \<open>dump\<close> is the connection's capture.\<close>

definition spoke_read ::
  "spoke_env \<Rightarrow> instant \<Rightarrow> bytes \<Rightarrow> message \<Rightarrow> spoke \<Rightarrow> spoke \<times> spoke_out list" where
  "spoke_read E now dump m s0 =
     (let J = en_json E;
          s = (if sc_capture (sp_cfg s0) then s0\<lparr>sp_dump := dump\<rparr> else s0)
      in if msg_type m = TypePong then
           (let t = un_ping J (msg_body m) in
            ((if 0 < t then s\<lparr>sp_sess := map_option (se_rtt_update (\<lambda>_. now - t)) (sp_sess s)\<rparr> else s), []))
         else if msg_type m = TypePing then
           (s, [ToHub (msgOf TypePong (js_ping J (un_ping J (msg_body m))))])
         else if msg_type m = TypePresenceGossip then
           (s\<lparr>sp_peers := foldl (learn_entry (id_ed_pub (sp_id s))) (sp_peers s)
                (pg_entries (un_gossip_part E (msg_body m)))\<rparr>, [])
         else if msg_type m = TypeEnvelope then
           (case un_envelope J (msg_body m) of
              None \<Rightarrow> (s, [])
            | Some env \<Rightarrow> handleEnvelope E env s)
         else (s, []))"

definition spoke_ping :: "spoke_env \<Rightarrow> int \<Rightarrow> spoke_out" where
  "spoke_ping E now = ToHub (msgOf TypePing (js_ping (en_json E) now))"

text \<open>
  The read loop over the messages that arrive before the connection ends, and \<open>connectOnce\<close> as a
  whole: its result is the error it returns, \<open>None\<close> standing for nil.
\<close>

fun readLoop ::
  "spoke_env \<Rightarrow> (instant \<times> bytes \<times> message) list \<Rightarrow> spoke \<Rightarrow> spoke \<times> spoke_out list" where
  "readLoop E [] s = (s, [])"
| "readLoop E ((now, dump, m) # ms) s =
     (case spoke_read E now dump m s of (s1, out1) \<Rightarrow>
      (case readLoop E ms s1 of (s2, out2) \<Rightarrow> (s2, out1 @ out2)))"

definition connectOnce ::
  "spoke_env \<Rightarrow> instant \<Rightarrow> os_dial \<Rightarrow> (cached_hub \<Rightarrow> attempt) \<Rightarrow> (instant \<times> bytes \<times> message) list
     \<Rightarrow> instant \<Rightarrow> bool \<Rightarrow> spoke \<Rightarrow> spoke_error option \<times> spoke \<times> spoke_out list" where
  "connectOnce E now os answer reads now' ctx_done s =
     (case connect_start E now os answer s of
        (Inl e, s1, out1) \<Rightarrow> (Some e, s1, out1)
      | (Inr h, s1, out1) \<Rightarrow>
          (case readLoop E reads s1 of (s2, out2) \<Rightarrow>
           (case disconnected now' h ctx_done s2 of (e, s3, out3) \<Rightarrow> (e, s3, out1 @ out2 @ out3))))"

subsection \<open>Sending\<close>

definition EnvChat :: string where "EnvChat = ''chat''"

definition queue_push :: "spoke_env \<Rightarrow> envelope \<Rightarrow> spoke \<Rightarrow> spoke" where
  "queue_push E env s =
     (case q_push (en_queue E) (en_write E) (Some env) (sp_queue s, sp_disk s) of
        (q, d) \<Rightarrow> s\<lparr>sp_queue := q, sp_disk := d\<rparr>)"

definition spoke_send ::
  "spoke_env \<Rightarrow> bytes option \<Rightarrow> bytes option \<Rightarrow> 64 word \<Rightarrow> bool \<Rightarrow> bytes \<Rightarrow> bytes \<Rightarrow> string \<Rightarrow> spoke
     \<Rightarrow> spoke_error option \<times> spoke \<times> spoke_out list" where
  "spoke_send E rn ri now write_ok to_ed to_x msg s =
     (let plain = js_chat E \<lparr>cb_text = msg, cb_name = id_name (sp_id s), cb_x = id_x_pub (sp_id s)\<rparr>
      in case seal (en_crypto E) rn ri now (sp_id s) to_x to_ed EnvChat plain of
           Inl e \<Rightarrow> (Some (SealError e), s, [])
         | Inr env \<Rightarrow>
             (case sp_sess s of
                None \<Rightarrow> (Some ErrNoHub, queue_push E env s, [Banner err_no_hub_text])
              | Some _ \<Rightarrow>
                  (if write_ok then (None, s, [ToHub (msgOf TypeEnvelope (js_envelope (en_json E) env))])
                   else (Some SendFailed, queue_push E env s, [CloseConn]))))"

text \<open>
  \<open>SendToName\<close>: the peer with this name or fingerprint, or the only peer there is. A nil key
  counts as no peer; the model does not tell it from an empty key, which an empty JSON string gives.
\<close>

definition find_peer :: "string \<Rightarrow> spoke \<Rightarrow> (bytes \<times> bytes) option" where
  "find_peer name s =
     (let ps = map snd (sp_peers s);
          found = (case find (\<lambda>p. pi_name p = name \<or> Fingerprint (pi_ed p) = name) ps of
                     None \<Rightarrow> None | Some p \<Rightarrow> if pi_ed p = [] then None else Some (pi_ed p, pi_x p))
      in if found = None \<and> length ps = 1 then
           (if pi_ed (hd ps) = [] then None else Some (pi_ed (hd ps), pi_x (hd ps)))
         else found)"

definition SendToName ::
  "spoke_env \<Rightarrow> bytes option \<Rightarrow> bytes option \<Rightarrow> 64 word \<Rightarrow> bool \<Rightarrow> string \<Rightarrow> string \<Rightarrow> spoke
     \<Rightarrow> spoke_error option \<times> spoke \<times> spoke_out list" where
  "SendToName E rn ri now write_ok name msg s =
     (case find_peer name s of
        None \<Rightarrow> (Some UnknownPeer, s, [])
      | Some (ed, x) \<Rightarrow>
          (if x = zero32 then (Some NoBoxKey, s, [])
           else spoke_send E rn ri now write_ok ed x msg s))"

definition spoke_peers :: "spoke \<Rightarrow> peer_info list" where
  "spoke_peers s = map snd (sp_peers s)"

definition ConnectedHub :: "spoke \<Rightarrow> hello_ok option" where
  "ConnectedHub s = sp_hub_ok s"

text \<open>\<open>Stop\<close> cancels the context and closes the connection; the read loop then ends.\<close>

definition spoke_stop :: "spoke \<Rightarrow> spoke_out list" where
  "spoke_stop s = (if sp_sess s = None then [] else [CloseConn])"

subsection \<open>Retrying\<close>

definition next_backoff :: "int \<Rightarrow> int" where
  "next_backoff b =
     (if b = 0 then second
      else let b' = b * 2 in if 20 * second < b' then 20 * second else b')"

text \<open>
  \<open>Run\<close>: the results of successive calls of \<open>connectOnce\<close> (\<open>None\<close> is a nil error) and the waits
  between them; a nil error resets the wait and is followed by the next call at once.
\<close>

fun run_waits :: "int \<Rightarrow> spoke_error option list \<Rightarrow> int list" where
  "run_waits b [] = []"
| "run_waits b (None # rs) = run_waits 0 rs"
| "run_waits b (Some e # rs) = next_backoff b # run_waits (next_backoff b) rs"

subsection \<open>The spoke as a state machine\<close>

text \<open>
  What can happen to a running spoke: a pass over the candidates, a message on the connection, its
  end, a message to send, an invite to add. A pass starts and messages arrive only as \<open>Run\<close> and
  \<open>connectOnce\<close> sequence them; sends and invites come at any time.
\<close>

datatype spoke_event =
    TryHubs instant os_dial "cached_hub \<Rightarrow> attempt"
  | Arrive instant bytes message
  | Lost instant cached_hub bool
  | SendTo "bytes option" "bytes option" "64 word" bool bytes bytes string
  | SendName "bytes option" "bytes option" "64 word" bool string string
  | Learn string

fun spoke_handle :: "spoke_env \<Rightarrow> spoke_event \<Rightarrow> spoke \<Rightarrow> spoke \<times> spoke_out list" where
  "spoke_handle E (TryHubs now os answer) s = snd (connect_start E now os answer s)"
| "spoke_handle E (Arrive now dump m) s = spoke_read E now dump m s"
| "spoke_handle E (Lost now h fin) s = snd (disconnected now h fin s)"
| "spoke_handle E (SendTo rn ri now ok ed x msg) s = snd (spoke_send E rn ri now ok ed x msg s)"
| "spoke_handle E (SendName rn ri now ok name msg) s = snd (SendToName E rn ri now ok name msg s)"
| "spoke_handle E (Learn iv) s = (AddInvite iv s, [])"

fun spoke_enabled :: "spoke_event \<Rightarrow> spoke \<Rightarrow> bool" where
  "spoke_enabled (TryHubs now os answer) s = (sp_sess s = None)"
| "spoke_enabled (Arrive now dump m) s = (sp_sess s \<noteq> None)"
| "spoke_enabled (Lost now h fin) s = (sp_sess s \<noteq> None)"
| "spoke_enabled _ s = True"

inductive spoke_step :: "spoke_env \<Rightarrow> spoke \<Rightarrow> spoke_event \<Rightarrow> spoke_out list \<Rightarrow> spoke \<Rightarrow> bool" for E where
  spoke_stepI: "spoke_enabled ev s \<Longrightarrow> spoke_handle E ev s = (s', out) \<Longrightarrow> spoke_step E s ev out s'"

inductive_simps spoke_step_iff: "spoke_step E s ev out s'"

inductive spoke_run :: "spoke_env \<Rightarrow> spoke \<Rightarrow> (spoke_event \<times> spoke_out list) list \<Rightarrow> spoke \<Rightarrow> bool" for E where
  srun_nil: "spoke_run E s [] s"
| srun_snoc: "spoke_run E s tr t \<Longrightarrow> spoke_step E t ev out u \<Longrightarrow> spoke_run E s (tr @ [(ev, out)]) u"

end
