(* ===== verification/Hub_Invariants.thy ===== *)
theory Hub_Invariants
  imports Hub_Server
begin

section \<open>What every step of a hub preserves\<close>

text \<open>
  How the handlers of \<open>Hub_Server\<close> act on the parts of the state, and the invariant of a running
  hub: maps have one entry per key, the two session tables refer to existing sessions under the
  key of that session, no session is registered twice, and every routing key is hexadecimal.
\<close>

subsection \<open>Gossip, loop by loop\<close>

lemma edEq_loop: "length a = length b \<Longrightarrow> edEq_loop ok a b \<longleftrightarrow> ok \<and> a = b"
  by (induction ok a b rule: edEq_loop.induct) auto

lemma edEq_iff [simp]: "edEq a b \<longleftrightarrow> a = b"
  by (auto simp: edEq_def edEq_loop)

definition spoke_entry :: "server \<Rightarrow> string \<times> sref \<Rightarrow> gossip_entry" where
  "spoke_entry s = (\<lambda>(k, r). \<lparr>ge_pub = (case parseHex k of Inl _ \<Rightarrow> [] | Inr b \<Rightarrow> b),
     ge_x = se_x (srv_heap s ! r), ge_name = se_name (srv_heap s ! r)\<rparr>)"

definition remote_entry :: "server \<Rightarrow> (string \<times> bytes) list \<Rightarrow> string \<times> string \<Rightarrow> gossip_entry option" where
  "remote_entry s xs = (\<lambda>(k, hub).
     if hub = self_hex s then None
     else case parseHex k of
       Inl _ \<Rightarrow> None
     | Inr pk \<Rightarrow> Some \<lparr>ge_pub = pk, ge_x = map_get xs k [], ge_name = map_get (srv_names s) k []\<rparr>)"

text \<open>The two maps after the loop over the spokes.\<close>

definition local_where :: "server \<Rightarrow> (string \<times> string) list" where
  "local_where s = foldl (\<lambda>w k. AList.update k (self_hex s) w) (srv_where s) (map fst (srv_spokes s))"

definition local_xpubs :: "server \<Rightarrow> (string \<times> bytes) list" where
  "local_xpubs s = foldl (\<lambda>x (k, r). AList.update k (se_x (srv_heap s ! r)) x) (srv_xpubs s) (srv_spokes s)"

definition local_bloom :: "server \<Rightarrow> bytes" where
  "local_bloom s = foldl bloom_add newBloom (map (\<lambda>kr. ge_pub (spoke_entry s kr)) (srv_spokes s))"

definition gossip_entries :: "server \<Rightarrow> gossip_entry list" where
  "gossip_entries s = map (spoke_entry s) (srv_spokes s)
     @ List.map_filter (remote_entry s (local_xpubs s)) (local_where s)"

lemma gossip_spokes_fold:
  "foldl (gossip_spoke s) (es, bl, xs, wh) sps =
     (es @ map (spoke_entry s) sps, foldl bloom_add bl (map (\<lambda>kr. ge_pub (spoke_entry s kr)) sps),
      foldl (\<lambda>x (k, r). AList.update k (se_x (srv_heap s ! r)) x) xs sps,
      foldl (\<lambda>w k. AList.update k (self_hex s) w) wh (map fst sps))"
  by (induction sps arbitrary: es bl xs wh)
    (auto simp: gossip_spoke_def spoke_entry_def Let_def split: prod.splits)

lemma gossip_remote_fold:
  "foldl (gossip_remote s xs) es wh = es @ List.map_filter (remote_entry s xs) wh"
  by (induction wh arbitrary: es)
    (auto simp: gossip_remote_def remote_entry_def List.map_filter_simps split: sum.splits prod.splits)

lemma gossip_message_eq:
  "gossip_message s =
     (\<lparr>pg_hub = id_ed_pub (srv_id s), pg_entries = gossip_entries s, pg_seq = srv_seq s + 1,
       pg_bloom = (if 64 \<le> length (gossip_entries s) then local_bloom s else []), pg_sig = []\<rparr>,
      s\<lparr>srv_seq := srv_seq s + 1, srv_gseen := AList.update (self_hex s) (srv_seq s + 1) (srv_gseen s),
        srv_xpubs := local_xpubs s, srv_where := local_where s\<rparr>)"
  by (simp add: gossip_message_def gossip_spokes_fold gossip_remote_fold Let_def gossip_entries_def
      local_where_def local_xpubs_def local_bloom_def)

definition after_gossip :: "server \<Rightarrow> server" where
  "after_gossip s = s\<lparr>srv_seq := srv_seq s + 1, srv_gseen := AList.update (self_hex s) (srv_seq s + 1) (srv_gseen s),
     srv_xpubs := local_xpubs s, srv_where := local_where s\<rparr>"

definition gossip_sends :: "json_lib \<Rightarrow> server \<Rightarrow> outputs" where
  "gossip_sends J s = map (\<lambda>r. (r, msgOf TypePresenceGossip (js_gossip J (fst (gossip_message s)))))
     (map snd (srv_hubs s) @ map snd (srv_spokes s))"

lemma gossipLocal_eq: "gossipLocal J s = (after_gossip s, gossip_sends J s)"
  by (simp add: gossipLocal_def after_gossip_def gossip_sends_def gossip_message_eq)

lemma after_gossip_sel [simp]:
  "srv_cfg (after_gossip s) = srv_cfg s" "srv_id (after_gossip s) = srv_id s"
  "srv_seen (after_gossip s) = srv_seen s" "srv_heap (after_gossip s) = srv_heap s"
  "srv_spokes (after_gossip s) = srv_spokes s" "srv_hubs (after_gossip s) = srv_hubs s"
  "srv_where (after_gossip s) = local_where s" "srv_names (after_gossip s) = srv_names s"
  "srv_xpubs (after_gossip s) = local_xpubs s" "srv_seq (after_gossip s) = srv_seq s + 1"
  "srv_gseen (after_gossip s) = AList.update (self_hex s) (srv_seq s + 1) (srv_gseen s)"
  "srv_inv (after_gossip s) = srv_inv s" "srv_dumps (after_gossip s) = srv_dumps s"
  by (simp_all add: after_gossip_def)

lemma map_of_local_where:
  "map_of (local_where s) k =
     (if k \<in> fst ` set (srv_spokes s) then Some (self_hex s) else map_of (srv_where s) k)"
proof -
  have "map_of (foldl (\<lambda>w k. AList.update k h w) w ks) k = (if k \<in> set ks then Some h else map_of w k)"
    for h :: string and w :: "(string \<times> string) list" and ks
    by (induction ks arbitrary: w) (auto simp: update_conv')
  then show ?thesis by (simp add: local_where_def)
qed

lemma distinct_updates:
  "distinct (map fst w) \<Longrightarrow> distinct (map fst (foldl (\<lambda>w x. AList.update (f x) (g x) w) w xs))"
  by (induction xs arbitrary: w) (simp_all add: distinct_update)

lemma distinct_local:
  "distinct (map fst (srv_where s)) \<Longrightarrow> distinct (map fst (local_where s))"
  "distinct (map fst (srv_xpubs s)) \<Longrightarrow> distinct (map fst (local_xpubs s))"
  unfolding local_where_def local_xpubs_def case_prod_unfold by (rule distinct_updates, assumption)+

lemma update_keys_fst [simp]: "fst ` set (AList.update k v m) = insert k (fst ` set m)"
  by (simp add: dom_update)

lemma keys_local_where: "fst ` set (local_where s) = fst ` set (srv_spokes s) \<union> fst ` set (srv_where s)"
proof -
  have "fst ` set (foldl (\<lambda>w k. AList.update k h w) w ks) = set ks \<union> fst ` set w"
    for h :: string and w :: "(string \<times> string) list" and ks
    by (induction ks arbitrary: w) simp_all
  then show ?thesis by (simp add: local_where_def)
qed

subsection \<open>The invariant\<close>

definition table_ok :: "session list \<Rightarrow> (string \<times> sref) list \<Rightarrow> bool" where
  "table_ok h t \<longleftrightarrow> distinct (map fst t) \<and>
     (\<forall>(k, r) \<in> set t. r < length h \<and> k = mustHex (se_ed (h ! r)))"

definition hex_keys :: "(string \<times> 'v) list \<Rightarrow> bool" where
  "hex_keys m \<longleftrightarrow> (\<forall>k \<in> fst ` set m. \<exists>b. k = mustHex b)"

definition hub_inv :: "server \<Rightarrow> bool" where
  "hub_inv s \<longleftrightarrow> table_ok (srv_heap s) (srv_spokes s) \<and> table_ok (srv_heap s) (srv_hubs s) \<and>
     distinct (map snd (srv_hubs s) @ map snd (srv_spokes s)) \<and> seen_inv (srv_seen s) \<and>
     distinct (map fst (srv_where s)) \<and> distinct (map fst (srv_names s)) \<and>
     distinct (map fst (srv_xpubs s)) \<and> distinct (map fst (srv_gseen s)) \<and> hex_keys (srv_where s)"

lemma hub_inv_new: "hub_inv (NewServer i cfg)"
  by (simp add: hub_inv_def NewServer_def table_ok_def newSeen_def seen_inv_def hex_keys_def)

lemma table_hex: "table_ok h t \<Longrightarrow> hex_keys t"
  by (auto simp: table_ok_def hex_keys_def)

lemma hub_inv_gossip: "hub_inv s \<Longrightarrow> hub_inv (after_gossip s)"
  using table_hex [of "srv_heap s" "srv_spokes s"]
  by (auto simp: hub_inv_def distinct_local distinct_update hex_keys_def keys_local_where)

lemma hub_inv_gossipLocal: "hub_inv s \<Longrightarrow> hub_inv (fst (gossipLocal J s))"
  by (simp add: gossipLocal_eq hub_inv_gossip)

lemma hex_keys_update: "hex_keys m \<Longrightarrow> hex_keys (AList.update (mustHex b) v m)"
  by (auto simp: hex_keys_def)

lemma table_ok_heap:
  assumes "table_ok h t" "se_ed (f (h ! r)) = se_ed (h ! r)"
  shows "table_ok (h[r := f (h ! r)]) t"
proof -
  have "se_ed (h[r := f (h ! r)] ! q) = se_ed (h ! q)" for q
    using assms(2) by (cases "r < length h") (auto simp: nth_list_update list_update_beyond)
  then show ?thesis using assms(1) by (simp add: table_ok_def)
qed

lemma set_session_sel [simp]:
  "srv_cfg (set_session r f s) = srv_cfg s" "srv_id (set_session r f s) = srv_id s"
  "srv_seen (set_session r f s) = srv_seen s" "srv_spokes (set_session r f s) = srv_spokes s"
  "srv_hubs (set_session r f s) = srv_hubs s" "srv_where (set_session r f s) = srv_where s"
  "srv_names (set_session r f s) = srv_names s" "srv_xpubs (set_session r f s) = srv_xpubs s"
  "srv_gseen (set_session r f s) = srv_gseen s" "srv_seq (set_session r f s) = srv_seq s"
  "length (srv_heap (set_session r f s)) = length (srv_heap s)"
  by (simp_all add: set_session_def)

lemma hub_inv_set_session:
  "hub_inv s \<Longrightarrow> (\<And>x. se_ed (f x) = se_ed x) \<Longrightarrow> hub_inv (set_session r f s)"
  by (simp add: hub_inv_def set_session_def table_ok_heap)

lemma hub_inv_seen: "hub_inv s \<Longrightarrow> seen_inv m \<Longrightarrow> hub_inv (s\<lparr>srv_seen := m\<rparr>)"
  by (simp add: hub_inv_def)

text \<open>A fresh session under a fresh index.\<close>

lemma in_update: "x \<in> set (AList.update k v m) \<Longrightarrow> x = (k, v) \<or> x \<in> set m"
  by (induction m) (auto split: if_splits)

lemma table_okI:
  "distinct (map fst t) \<Longrightarrow> (\<And>k r. (k, r) \<in> set t \<Longrightarrow> r < length h \<and> k = mustHex (se_ed (h ! r))) \<Longrightarrow>
    table_ok h t"
  by (auto simp: table_ok_def)

lemma table_okD: "table_ok h t \<Longrightarrow> (k, r) \<in> set t \<Longrightarrow> r < length h \<and> k = mustHex (se_ed (h ! r))"
  by (auto simp: table_ok_def)

lemma table_ok_append: "table_ok h t \<Longrightarrow> table_ok (h @ [x]) t"
  by (rule table_okI) (auto simp: nth_append table_ok_def)

lemma table_ok_register:
  assumes "table_ok h t"
  shows "table_ok (h @ [x]) (AList.update (mustHex (se_ed x)) (length h) t)"
proof (rule table_okI)
  show "distinct (map fst (AList.update (mustHex (se_ed x)) (length h) t))"
    using assms by (simp add: table_ok_def distinct_update)
  fix k r assume "(k, r) \<in> set (AList.update (mustHex (se_ed x)) (length h) t)"
  then consider "k = mustHex (se_ed x)" "r = length h" | "(k, r) \<in> set t"
    by (auto dest: in_update)
  then show "r < length (h @ [x]) \<and> k = mustHex (se_ed ((h @ [x]) ! r))"
    using table_okD [OF assms] by cases (fastforce simp: nth_append)+
qed

lemma snd_update_subset: "snd ` set (AList.update k v m) \<subseteq> insert v (snd ` set m)"
  by (auto dest: in_update)

lemma distinct_snd_update:
  "distinct (map snd m) \<Longrightarrow> v \<notin> snd ` set m \<Longrightarrow> distinct (map snd (AList.update k v m))"
proof (induction m)
  case (Cons p m)
  then show ?case
    using snd_update_subset [of k v m] by (cases p) auto
qed simp

lemma table_refs: "table_ok h t \<Longrightarrow> r \<in> snd ` set t \<Longrightarrow> r < length h"
  by (auto simp: table_ok_def)

lemma register_sel [simp]:
  "srv_seen (register b x s) = srv_seen s" "srv_xpubs (register b x s) = srv_xpubs s"
  "srv_gseen (register b x s) = srv_gseen s" "srv_seq (register b x s) = srv_seq s"
  "srv_id (register b x s) = srv_id s" "srv_cfg (register b x s) = srv_cfg s"
  "srv_heap (register b x s) = srv_heap s @ [x]"
  "srv_hubs (register b x s) =
     (if b then AList.update (mustHex (se_ed x)) (length (srv_heap s)) (srv_hubs s) else srv_hubs s)"
  "srv_spokes (register b x s) =
     (if b then srv_spokes s else AList.update (mustHex (se_ed x)) (length (srv_heap s)) (srv_spokes s))"
  "srv_where (register b x s) =
     (if b then srv_where s else AList.update (mustHex (se_ed x)) (self_hex s) (srv_where s))"
  by (simp_all add: register_def Let_def)

lemma disjoint_insert:
  "A \<subseteq> insert v B \<Longrightarrow> v \<notin> C \<Longrightarrow> B \<inter> C = {} \<Longrightarrow> A \<inter> C = {}"
  "A \<subseteq> insert v B \<Longrightarrow> v \<notin> C \<Longrightarrow> C \<inter> B = {} \<Longrightarrow> C \<inter> A = {}"
  by blast+

lemma hub_inv_register:
  assumes "hub_inv s"
  shows "hub_inv (register b x s)"
proof -
  let ?n = "length (srv_heap s)"
  have fresh: "?n \<notin> snd ` set (srv_hubs s)" "?n \<notin> snd ` set (srv_spokes s)"
    using assms table_refs [of "srv_heap s"] by (auto simp: hub_inv_def)
  have d: "distinct (map snd (srv_hubs s))" "distinct (map snd (srv_spokes s))"
    "snd ` set (srv_hubs s) \<inter> snd ` set (srv_spokes s) = {}"
    using assms by (simp_all add: hub_inv_def)
  have "distinct (map snd (srv_hubs (register b x s)) @ map snd (srv_spokes (register b x s)))"
  proof (cases b)
    case True
    have "snd ` set (AList.update (mustHex (se_ed x)) ?n (srv_hubs s)) \<inter> snd ` set (srv_spokes s) = {}"
      by (rule disjoint_insert(1) [OF snd_update_subset fresh(2) d(3)])
    with True d fresh show ?thesis by (simp add: distinct_snd_update)
  next
    case False
    have "snd ` set (srv_hubs s) \<inter> snd ` set (AList.update (mustHex (se_ed x)) ?n (srv_spokes s)) = {}"
      by (rule disjoint_insert(2) [OF snd_update_subset fresh(1) d(3)])
    with False d fresh show ?thesis by (simp add: distinct_snd_update)
  qed
  moreover have "distinct (map fst (srv_names (register b x s)))"
    using assms by (simp add: hub_inv_def register_def Let_def distinct_update)
  ultimately show ?thesis
    using assms by (simp add: hub_inv_def table_ok_append table_ok_register distinct_update hex_keys_update)
qed

lemma hub_inv_drop:
  assumes "hub_inv s"
  shows "hub_inv (s\<lparr>srv_hubs := AList.delete k (srv_hubs s)\<rparr>)"
    and "hub_inv (s\<lparr>srv_spokes := AList.delete k (srv_spokes s)\<rparr>)"
proof -
  have sub: "set (AList.delete k m) \<subseteq> set m" for m :: "(string \<times> sref) list"
    by (auto simp: AList.delete_eq)
  have t: "table_ok h m \<Longrightarrow> table_ok h (AList.delete k m)" for h m
    using sub [of m] by (intro table_okI) (auto simp: table_ok_def distinct_delete)
  have d: "distinct (map snd m) \<Longrightarrow> distinct (map snd (AList.delete k m))" for m :: "(string \<times> sref) list"
    by (simp add: AList.delete_eq distinct_map_filter)
  have "snd ` set (AList.delete k m) \<subseteq> snd ` set m" for m :: "(string \<times> sref) list"
    using sub [of m] by blast
  then have i: "A \<inter> snd ` set m = {} \<Longrightarrow> A \<inter> snd ` set (AList.delete k m) = {}"
    "snd ` set m \<inter> A = {} \<Longrightarrow> snd ` set (AList.delete k m) \<inter> A = {}" for m :: "(string \<times> sref) list" and A
    by blast+
  show "hub_inv (s\<lparr>srv_hubs := AList.delete k (srv_hubs s)\<rparr>)"
    "hub_inv (s\<lparr>srv_spokes := AList.delete k (srv_spokes s)\<rparr>)"
    using assms by (simp_all add: hub_inv_def t d i)
qed

lemma hub_inv_where_updates:
  assumes "hub_inv s"
  shows "hub_inv (s\<lparr>srv_where := foldl (\<lambda>w pk. AList.update (mustHex pk) h w) (srv_where s) pks\<rparr>)"
proof -
  have "hex_keys w \<Longrightarrow> hex_keys (foldl (\<lambda>w pk. AList.update (mustHex pk) h w) w pks)" for w
    by (induction pks arbitrary: w) (simp_all add: hex_keys_update)
  then show ?thesis
    using assms by (simp add: hub_inv_def distinct_updates)
qed

lemma hub_inv_names: "hub_inv s \<Longrightarrow> hub_inv (s\<lparr>srv_names := AList.update k v (srv_names s)\<rparr>)"
  by (simp add: hub_inv_def distinct_update)

lemma hub_inv_gossip_entry: "hub_inv s \<Longrightarrow> hub_inv (gossip_entry_in origin s e)"
  by (simp add: hub_inv_def gossip_entry_in_def Let_def distinct_update hex_keys_update)

lemma hub_inv_gossip_entries: "hub_inv s \<Longrightarrow> hub_inv (foldl (gossip_entry_in origin) s es)"
  by (induction es arbitrary: s) (simp_all add: hub_inv_gossip_entry)

lemma hub_inv_forward: "hub_inv s \<Longrightarrow> hub_inv (fst (forward J C now now' env r s))"
  using seen_inv_add [of "srv_seen s" now now' "env_id env"]
  by (auto simp: forward_def Let_def hub_inv_seen split: prod.splits bool.splits option.splits)
    (simp_all add: hub_inv_def)

lemma hub_inv_onPresence: "hub_inv s \<Longrightarrow> hub_inv (fst (onPresence J r p s))"
  unfolding onPresence_def Let_def
  by (intro hub_inv_gossipLocal hub_inv_where_updates)
    (simp add: hub_inv_names hub_inv_set_session)

lemma hub_inv_onGossip: "hub_inv s \<Longrightarrow> hub_inv (fst (onGossip J r g s))"
  by (auto simp: onGossip_def Let_def intro!: hub_inv_gossip_entries)
    (simp add: hub_inv_def distinct_update)

lemma hub_inv_onMsg: "hub_inv s \<Longrightarrow> hub_inv (fst (onMsg J C ck r m s))"
  by (simp add: onMsg_def Let_def hub_inv_set_session hub_inv_forward hub_inv_onPresence
      hub_inv_onGossip split: option.splits)

lemma hub_inv_capture: "hub_inv s \<Longrightarrow> hub_inv (capture_dump d s)"
  by (auto simp: capture_dump_def hub_inv_def split: option.splits)

lemma hub_inv_handleConn:
  "hub_inv s \<Longrightarrow> hub_inv (fst (snd (handleConn J C now ts remote proto ok first s)))"
  by (auto simp: handleConn_def Let_def gossipLocal_eq hub_inv_gossip hub_inv_register
      split: option.splits)

lemma hub_inv_handle: "hub_inv s \<Longrightarrow> hub_inv (fst (hub_handle J C ev s))"
  by (cases ev)
    (simp_all add: hub_inv_handleConn handlePeerSession_def hub_inv_gossipLocal hub_inv_register
      hub_inv_onMsg hub_inv_capture close_session_def drop_session_def hub_inv_drop)

interpretation hubm: stepper "\<lambda>s ev. fst (hub_handle J C ev s)" hub_inv
  by unfold_locales (rule hub_inv_handle)

lemma hub_step_inv: "hub_step J C s ev out s' \<Longrightarrow> hub_inv s \<Longrightarrow> hub_inv s'"
  using hub_inv_handle by (metis fst_conv hub_stepE)

lemma reachable_inv: "reachable J C s \<Longrightarrow> hub_inv s"
  by (induction rule: reachable.induct) (auto intro: hub_inv_new hub_step_inv)

end
