(* ===== verification/Hub_Routing.thy ===== *)
theory Hub_Routing
  imports Hub_Invariants
begin

section \<open>Routing and gossip\<close>

text \<open>
  The promises of a hub over its runs: what is delivered to whom, how often, what gossip changes,
  who can register, and the situations in which the code loses a route.
\<close>

subsection \<open>How events act on the replay table\<close>

lemma seen_forward:
  assumes "hub_inv s" "map_of (srv_seen s) i = Some t" "now' - seen_window \<le> t"
  shows "map_of (srv_seen (fst (forward J C now now' env r s))) i = Some t"
proof -
  have inv: "seen_inv (srv_seen s)" using assms(1) by (simp add: hub_inv_def)
  have "map_of (fst (seen_add now now' (env_id env) (srv_seen s))) i = Some t"
    using seen_map.view_step [OF inv, of "(now, now', env_id env)"]
      seen_astep_keeps [of "map_of (srv_seen s)" i t now' now "env_id env"] assms(2,3)
    by (simp add: seen_step_def)
  then show ?thesis
    using assms(2) by (auto simp: forward_def Let_def split: prod.splits bool.splits option.splits)
qed

lemma seen_frames [simp]:
  "srv_seen (fst (onPresence J r p s)) = srv_seen s" "srv_seen (fst (onGossip J r g s)) = srv_seen s"
  "srv_seen (capture_dump d s) = srv_seen s"
  "srv_seen (fst (snd (handleConn J C now ts remote proto ok first s))) = srv_seen s"
  "srv_seen (fst (handlePeerSession J now proto hok s)) = srv_seen s"
  "srv_seen (fst (close_session J r s)) = srv_seen s"
proof -
  have "srv_seen (foldl (gossip_entry_in origin) u es) = srv_seen u" for origin u es
    by (induction es arbitrary: u) (simp_all add: gossip_entry_in_def Let_def)
  then show "srv_seen (fst (onGossip J r g s)) = srv_seen s" by (simp add: onGossip_def Let_def)
  show "srv_seen (fst (onPresence J r p s)) = srv_seen s"
    by (simp add: onPresence_def Let_def gossipLocal_eq)
  show "srv_seen (capture_dump d s) = srv_seen s" by (simp add: capture_dump_def split: option.splits)
  show "srv_seen (fst (snd (handleConn J C now ts remote proto ok first s))) = srv_seen s"
    by (simp add: handleConn_def Let_def gossipLocal_eq split: option.splits)
qed (simp_all add: handlePeerSession_def close_session_def drop_session_def gossipLocal_eq)

fun clock_within :: "instant \<Rightarrow> hub_event \<Rightarrow> bool" where
  "clock_within t (Deliver ck r d m) = (t_cut ck - seen_window \<le> t)"
| "clock_within t _ = True"

lemma seen_step_keeps:
  assumes "hub_step J C s ev out s'" "hub_inv s" "map_of (srv_seen s) i = Some t" "clock_within t ev"
  shows "map_of (srv_seen s') i = Some t"
proof -
  from assms(1) have s': "s' = fst (hub_handle J C ev s)" by (metis fst_conv hub_stepE)
  show ?thesis
  proof (cases ev)
    case (Deliver ck r d m)
    let ?u = "set_session r (se_last_update (\<lambda>_. t_arrival ck)) (capture_dump d s)"
    have "hub_inv ?u" using assms(2) by (simp add: hub_inv_set_session hub_inv_capture)
    then show ?thesis
      using seen_forward [of ?u i t "t_cut ck"] assms(3,4)
      by (simp add: s' Deliver onMsg_def Let_def split: option.splits)
  qed (simp_all add: s' assms(3))
qed

lemma hub_run_inv:
  "hub_run J C s tr s' \<Longrightarrow> hub_inv s \<Longrightarrow> hub_inv s'"
  by (induction rule: hub_run.induct) (auto intro: hub_step_inv)

lemma seen_run_keeps:
  "hub_run J C s tr s' \<Longrightarrow> hub_inv s \<Longrightarrow> map_of (srv_seen s) i = Some t \<Longrightarrow>
    list_all (\<lambda>(ev, out). clock_within t ev) tr \<Longrightarrow> map_of (srv_seen s') i = Some t"
  by (induction rule: hub_run.induct) (auto intro: seen_step_keeps hub_run_inv)

text \<open>An envelope is put on the wire only when its identifier was new, and is then recorded.\<close>

lemma forward_out_new:
  "snd (forward J C now now' env r s) \<noteq> [] \<Longrightarrow> env_verify C env = None \<and> map_of (srv_seen s) (env_id env) = None"
  by (auto simp: forward_def seen_add_def Let_def split: if_splits option.splits)

lemma forward_records:
  assumes "hub_inv s" "env_verify C env = None" "map_of (srv_seen s) (env_id env) = None"
    "now' - seen_window \<le> now"
  shows "map_of (srv_seen (fst (forward J C now now' env r s))) (env_id env) = Some now"
proof -
  have inv: "seen_inv (srv_seen s)" using assms(1) by (simp add: hub_inv_def)
  have "snd (seen_add now now' (env_id env) (srv_seen s))" using assms(3) by (simp add: seen_add_accepts)
  note st = seen_add_stores [OF inv this assms(4)]
  have "srv_seen (fst (forward J C now now' env r s)) = fst (seen_add now now' (env_id env) (srv_seen s))"
    using assms(2) by (auto simp: forward_def Let_def split: prod.splits bool.splits option.splits)
  with st show ?thesis by simp
qed

definition envelope_message :: "json_lib \<Rightarrow> message \<Rightarrow> envelope \<Rightarrow> bool" where
  "envelope_message J m env \<longleftrightarrow> msg_type m = TypeEnvelope \<and> un_envelope J (msg_body m) = Some env"

lemma onMsg_envelope:
  "envelope_message J m env \<Longrightarrow> onMsg J C ck r m s =
     forward J C (t_seen ck) (t_cut ck) env r (set_session r (se_last_update (\<lambda>_. t_arrival ck)) s)"
  by (simp add: onMsg_def envelope_message_def type_consts Let_def)

subsection \<open>How events act on the gossip guard\<close>

lemma gseen_frames [simp]:
  "srv_gseen (fst (forward J C now now' env r s)) = srv_gseen s"
  "srv_id (fst (forward J C now now' env r s)) = srv_id s"
  "srv_gseen (capture_dump d s) = srv_gseen s" "srv_id (capture_dump d s) = srv_id s"
  by (auto simp: forward_def capture_dump_def Let_def split: prod.splits bool.splits option.splits)

lemma gossip_entries_frames [simp]:
  "srv_gseen (foldl (gossip_entry_in origin) s es) = srv_gseen s"
  "srv_id (foldl (gossip_entry_in origin) s es) = srv_id s"
  "srv_hubs (foldl (gossip_entry_in origin) s es) = srv_hubs s"
  "srv_spokes (foldl (gossip_entry_in origin) s es) = srv_spokes s"
  "srv_heap (foldl (gossip_entry_in origin) s es) = srv_heap s"
  "srv_seen (foldl (gossip_entry_in origin) s es) = srv_seen s"
  by (induction es arbitrary: s) (simp_all add: gossip_entry_in_def Let_def)

text \<open>For every other hub the recorded sequence number never goes down.\<close>

definition seq_least :: "server \<Rightarrow> string \<Rightarrow> 64 word \<Rightarrow> bool" where
  "seq_least s origin n \<longleftrightarrow> (\<exists>p. map_of (srv_gseen s) origin = Some p \<and> n \<le> p)"

lemma seq_least_gossip:
  "origin \<noteq> self_hex s \<Longrightarrow> seq_least (after_gossip s) origin n \<longleftrightarrow> seq_least s origin n"
  by (simp add: seq_least_def update_conv')

lemma seq_least_onGossip:
  "seq_least s origin n \<Longrightarrow> seq_least (fst (onGossip J r g s)) origin n"
  by (auto simp: onGossip_def seq_least_def Let_def update_conv')

lemma handle_id [simp]: "srv_id (fst (hub_handle J C ev s)) = srv_id s"
  by (cases ev)
    (simp_all add: handleConn_def handlePeerSession_def close_session_def drop_session_def gossipLocal_eq
      onMsg_def onPresence_def onGossip_def Let_def split: option.splits)

lemma seq_least_handle:
  assumes "origin \<noteq> self_hex s" "seq_least s origin n"
  shows "seq_least (fst (hub_handle J C ev s)) origin n"
proof (cases ev)
  case (Connect now ts remote proto ok first)
  with assms show ?thesis
    by (simp add: handleConn_def Let_def gossipLocal_eq seq_least_def update_conv' split: option.splits)
next
  case (PeerUp now proto ok)
  with assms show ?thesis
    by (simp add: handlePeerSession_def gossipLocal_eq seq_least_def update_conv')
next
  case (Deliver ck r d m)
  let ?u = "set_session r (se_last_update (\<lambda>_. t_arrival ck)) (capture_dump d s)"
  have u: "seq_least ?u origin n" "origin \<noteq> self_hex ?u" using assms by (simp_all add: seq_least_def)
  have "seq_least (fst (onPresence J r p ?u)) origin n" for p
    using u by (simp add: onPresence_def Let_def gossipLocal_eq seq_least_def update_conv')
  with u seq_least_onGossip [OF u(1)] show ?thesis
    by (simp add: Deliver onMsg_def Let_def split: option.splits) (simp add: seq_least_def)
next
  case (Close r)
  with assms show ?thesis
    by (simp add: close_session_def drop_session_def gossipLocal_eq seq_least_def update_conv')
qed (use assms in simp)

lemma seq_least_run:
  "hub_run J C s tr s' \<Longrightarrow> origin \<noteq> self_hex s \<Longrightarrow> seq_least s origin n \<Longrightarrow>
    seq_least s' origin n \<and> srv_id s' = srv_id s"
proof (induction rule: hub_run.induct)
  case (run_snoc s tr t ev out u)
  then have "u = fst (hub_handle J C ev t)" by (metis fst_conv hub_stepE)
  with run_snoc seq_least_handle [of origin t] show ?case by simp
qed simp

text \<open>Where a new valid envelope goes.\<close>

definition next_hop :: "server \<Rightarrow> string \<Rightarrow> sref option" where
  "next_hop s k = (case map_of (srv_where s) k of None \<Rightarrow> None | Some h \<Rightarrow> map_of (srv_hubs s) h)"

definition route_targets :: "envelope \<Rightarrow> sref \<Rightarrow> server \<Rightarrow> sref list" where
  "route_targets env from s =
     (let k = mustHex (env_to env) in
      case map_of (srv_spokes s) k of
        Some sp \<Rightarrow> [sp]
      | None \<Rightarrow> (case next_hop s k of
                   Some p \<Rightarrow> (if p \<noteq> from then [p] else filter (\<lambda>r. r \<noteq> from) (map snd (srv_hubs s)))
                 | None \<Rightarrow> filter (\<lambda>r. r \<noteq> from) (map snd (srv_hubs s))))"

lemma forward_new:
  assumes "env_verify C env = None" "map_of (srv_seen s) (env_id env) = None"
  shows "forward J C now now' env from s =
    (s\<lparr>srv_seen := fst (seen_add now now' (env_id env) (srv_seen s))\<rparr>,
     map (\<lambda>r. (r, msgOf TypeEnvelope (js_envelope J env))) (route_targets env from s))"
proof -
  obtain m where m: "seen_add now now' (env_id env) (srv_seen s) = (m, True)"
    using seen_add_accepts [of now now' "env_id env" "srv_seen s"] assms(2)
    by (metis prod.collapse)
  show ?thesis
    using assms(1) by (auto simp: forward_def m route_targets_def next_hop_def Let_def split: option.splits)
qed

lemma forward_old:
  "env_verify C env \<noteq> None \<or> map_of (srv_seen s) (env_id env) \<noteq> None \<Longrightarrow>
    forward J C now now' env from s = (s, [])"
  by (auto simp: forward_def seen_add_def)

subsection \<open>A concrete hub for the witnesses\<close>

text \<open>
  A JSON library for concrete runs: a body is the list of the fields that matter, each of one
  byte or of fixed size. Only what the witnesses read back is encoded.
\<close>

definition run_json :: json_lib where
  "run_json = demo_json
     \<lparr>js_envelope := (\<lambda>e. bytes_of (env_id e)),
      un_envelope := (\<lambda>b. Some (demo_envelope\<lparr>env_id := string_of b, env_sig := replicate 32 1 @
          signedBytes (demo_envelope\<lparr>env_id := string_of b\<rparr>)\<rparr>)),
      js_gossip := (\<lambda>g. [last (put_be64 (pg_seq g))] @ pg_hub g @ concat (map ge_pub (pg_entries g))),
      un_gossip := (\<lambda>b. Some \<lparr>pg_hub = take 32 (tl b),
          pg_entries = (if drop 33 b = [] then [] else [\<lparr>ge_pub = drop 33 b, ge_x = [], ge_name = []\<rparr>]),
          pg_seq = ucast (hd b), pg_bloom = [], pg_sig = []\<rparr>)\<rparr>"

definition demo_config :: server_config where
  "demo_config =
     \<lparr>cfg_name = ''hub'', cfg_host = [], cfg_port = 4433, cfg_v6only = True, cfg_claim_v4 = False,
      cfg_public_v6 = Some (0x20 # 1 # replicate 13 0 @ [5]), cfg_public_v4 = None, cfg_cloud = False,
      cfg_dev = False, cfg_capture = False, cfg_peers = []\<rparr>"

definition demo_session :: "byte \<Rightarrow> string \<Rightarrow> session" where
  "demo_session k role =
     \<lparr>se_role = role, se_ed = replicate 32 k, se_x = replicate 32 k, se_name = ''s'', se_cloud = False,
      se_rtt = 0, se_last = 0, se_v6 = [], se_v4 = [], se_port = 0, se_proto = ''quic''\<rparr>"

text \<open>The hub 9 with the spoke 2 (session 0), the spoke 1 (session 1) and the hub 7 (session 2).\<close>

definition demo_hub_server :: server where
  "demo_hub_server =
     register True (demo_session 7 RoleHub)
      (register False (demo_session 1 RoleSpoke)
        (register False (demo_session 2 RoleSpoke) (NewServer (demo_identity 9) demo_config)))"

lemma demo_hub_inv: "hub_inv demo_hub_server"
  by (simp add: demo_hub_server_def hub_inv_register hub_inv_new)

definition demo_clocks :: clocks where
  "demo_clocks = \<lparr>t_arrival = 5, t_rtt = 6, t_seen = 7, t_cut = 8\<rparr>"

lemma demo_spokes:
  "srv_spokes demo_hub_server = [(mustHex (replicate 32 2), 0), (mustHex (replicate 32 1), 1)]"
  "srv_hubs demo_hub_server = [(mustHex (replicate 32 7), 2)]"
  "length (srv_heap demo_hub_server) = 3" "srv_seen demo_hub_server = []"
  "srv_gseen demo_hub_server = []" "srv_id demo_hub_server = demo_identity 9"
  by (simp_all add: demo_hub_server_def demo_session_def NewServer_def newSeen_def)

definition demo_signed :: "string \<Rightarrow> envelope" where
  "demo_signed i = the (un_envelope run_json (bytes_of i))"

lemma demo_signed_ok: "env_verify demo_crypto (demo_signed i) = None" "env_id (demo_signed i) = i"
  "env_to (demo_signed i) = replicate 32 2"
  by (simp_all add: demo_signed_def run_json_def env_verify_def demo_crypto_def demo_envelope_def
      env_consts signedBytes_def)

lemma demo_envelope_message: "envelope_message run_json (msgOf TypeEnvelope (bytes_of i)) (demo_signed i)"
  by (simp add: envelope_message_def demo_signed_def run_json_def)

subsection \<open>Properties: envelopes\<close>

text \<open>
  C2: A hub forwards an envelope at most once: when a reachable hub has put an envelope on the
  wire, then whatever connects, disconnects, is gossiped or delivered afterwards, another
  envelope with the same identifier produces no output, as long as the sweeps of the replay
  table read the clock within ten minutes of the first acceptance.
\<close>

theorem forwarded_once:
  assumes inv: "hub_inv s" and "envelope_message J m env" "hub_step J C s (Deliver ck r d m) out s1"
    and "out \<noteq> []" "t_cut ck - seen_window \<le> t_seen ck"
    and "hub_run J C s1 tr s2" "list_all (\<lambda>(ev, out). clock_within (t_seen ck) ev) tr"
    and "envelope_message J m' env'" "env_id env' = env_id env"
    and "hub_step J C s2 (Deliver ck' r' d' m') out' s3"
  shows "out' = []"
proof -
  let ?u = "set_session r (se_last_update (\<lambda>_. t_arrival ck)) (capture_dump d s)"
  from inv have u: "hub_inv ?u" by (simp add: hub_inv_set_session hub_inv_capture)
  have fw: "forward J C (t_seen ck) (t_cut ck) env r ?u = (s1, out)"
    using assms(3) onMsg_envelope [OF assms(2)] by (auto elim: hub_stepE)
  have new: "env_verify C env = None" "map_of (srv_seen ?u) (env_id env) = None"
    using forward_out_new [of J C "t_seen ck" "t_cut ck" env r ?u] assms(4) by (simp_all add: fw)
  have "map_of (srv_seen s1) (env_id env) = Some (t_seen ck)"
    using forward_records [OF u new assms(5), of J r] by (simp add: fw)
  moreover have "hub_inv s1" by (rule hub_step_inv [OF assms(3) inv])
  ultimately have old: "map_of (srv_seen s2) (env_id env) = Some (t_seen ck)"
    using seen_run_keeps [OF assms(6)] assms(7) by blast
  let ?v = "set_session r' (se_last_update (\<lambda>_. t_arrival ck')) (capture_dump d' s2)"
  have "forward J C (t_seen ck') (t_cut ck') env' r' ?v = (s3, out')"
    using assms(10) onMsg_envelope [OF assms(8)] by (auto elim: hub_stepE)
  then show ?thesis
    using forward_out_new [of J C "t_seen ck'" "t_cut ck'" env' r' ?v] old assms(9) by auto
qed

theorem forwarded_once_witness:
  "let m = msgOf TypeEnvelope (bytes_of ''x''); dl = \<lambda>r. Deliver demo_clocks r None m in
   snd (hub_handle run_json demo_crypto (dl 2)
     (fst (hub_handle run_json demo_crypto (dl 1) demo_hub_server))) = []"
proof -
  let ?m = "msgOf TypeEnvelope (bytes_of ''x'')"
  let ?h = "\<lambda>r. hub_handle run_json demo_crypto (Deliver demo_clocks r None ?m)"
  let ?u = "set_session 1 (se_last_update (\<lambda>_. 5)) demo_hub_server"
  have fw: "?h 1 demo_hub_server = forward run_json demo_crypto 7 8 (demo_signed ''x'') 1 ?u"
    using onMsg_envelope [OF demo_envelope_message]
    by (simp add: capture_dump_def demo_clocks_def)
  also have "\<dots> = (?u\<lparr>srv_seen := fst (seen_add 7 8 ''x'' [])\<rparr>,
      [(0, msgOf TypeEnvelope (js_envelope run_json (demo_signed ''x'')))])"
    by (subst forward_new) (simp_all add: demo_signed_ok demo_spokes route_targets_def)
  finally have h1: "?h 1 demo_hub_server = (?u\<lparr>srv_seen := fst (seen_add 7 8 ''x'' [])\<rparr>,
      [(0, msgOf TypeEnvelope (js_envelope run_json (demo_signed ''x'')))])" .
  have st1: "hub_step run_json demo_crypto demo_hub_server (Deliver demo_clocks 1 None ?m)
      (snd (?h 1 demo_hub_server)) (fst (?h 1 demo_hub_server))"
    by (rule hub_stepI) (simp_all add: demo_spokes)
  have st2: "hub_step run_json demo_crypto (fst (?h 1 demo_hub_server)) (Deliver demo_clocks 2 None ?m)
      (snd (?h 2 (fst (?h 1 demo_hub_server)))) (fst (?h 2 (fst (?h 1 demo_hub_server))))"
    by (rule hub_stepI) (simp_all only: h1 enabled.simps, simp_all add: demo_spokes)
  have "snd (?h 2 (fst (?h 1 demo_hub_server))) = []"
  proof (rule forwarded_once [OF demo_hub_inv demo_envelope_message st1 _ _ run_nil _ demo_envelope_message refl st2])
    show "snd (?h 1 demo_hub_server) \<noteq> []" by (simp only: h1) simp
    show "t_cut demo_clocks - seen_window \<le> t_seen demo_clocks"
      by (simp add: demo_clocks_def seen_window_def second_def)
  qed simp
  then show ?thesis by (simp only: Let_def)
qed

definition keeps_sessions :: "hub_event \<Rightarrow> bool" where
  "keeps_sessions ev = (case ev of Deliver _ _ _ _ \<Rightarrow> True | Tick _ \<Rightarrow> True | _ \<Rightarrow> False)"

lemma onMsg_tables [simp]:
  "srv_spokes (fst (onMsg J C ck r m s)) = srv_spokes s" "srv_hubs (fst (onMsg J C ck r m s)) = srv_hubs s"
proof -
  have "srv_spokes (fst (forward J C n n' env r u)) = srv_spokes u" "srv_hubs (fst (forward J C n n' env r u)) = srv_hubs u"
    for n n' env u
    by (auto simp: forward_def Let_def split: prod.splits bool.splits option.splits)
  then show "srv_spokes (fst (onMsg J C ck r m s)) = srv_spokes s"
    "srv_hubs (fst (onMsg J C ck r m s)) = srv_hubs s"
    by (simp_all add: onMsg_def onPresence_def onGossip_def gossipLocal_eq Let_def split: option.splits)
qed

lemma capture_tables [simp]:
  "srv_spokes (capture_dump d s) = srv_spokes s" "srv_hubs (capture_dump d s) = srv_hubs s"
  "srv_heap (capture_dump d s) = srv_heap s" "srv_where (capture_dump d s) = srv_where s"
  by (auto simp: capture_dump_def split: option.splits)

lemma run_keeps_sessions:
  "hub_run J C s tr s' \<Longrightarrow> list_all (\<lambda>(ev, out). keeps_sessions ev) tr \<Longrightarrow>
    srv_spokes s' = srv_spokes s \<and> srv_hubs s' = srv_hubs s"
proof (induction rule: hub_run.induct)
  case (run_snoc s tr t ev out u)
  then have "u = fst (hub_handle J C ev t)" by (metis fst_conv hub_stepE)
  with run_snoc show ?case by (cases ev) (simp_all add: keeps_sessions_def)
qed simp

text \<open>
  C7: A spoke that is connected gets its mail: whatever is delivered to the hub in the meantime,
  gossip that claims the spoke for another hub included, a new valid envelope for it goes to its
  session, unchanged, and nowhere else.
\<close>

theorem local_delivery:
  assumes "map_of (srv_spokes s) (mustHex (env_to env)) = Some sp"
    and "hub_run J C s tr s'" "list_all (\<lambda>(ev, out). keeps_sessions ev) tr"
    and "envelope_message J m env" "env_verify C env = None" "map_of (srv_seen s') (env_id env) = None"
  shows "snd (hub_handle J C (Deliver ck r d m) s') = [(sp, msgOf TypeEnvelope (js_envelope J env))]"
proof -
  have "srv_spokes s' = srv_spokes s" using run_keeps_sessions [OF assms(2,3)] by simp
  then show ?thesis
    using assms(1,5,6) by (simp add: onMsg_envelope [OF assms(4)] forward_new route_targets_def)
qed

theorem local_delivery_witness:
  "snd (hub_handle run_json demo_crypto (Deliver demo_clocks 2 None (msgOf TypeEnvelope (bytes_of ''x''))) demo_hub_server)
     = [(0, msgOf TypeEnvelope (js_envelope run_json (demo_signed ''x'')))]"
  by (rule local_delivery [OF _ run_nil _ demo_envelope_message demo_signed_ok(1)])
    (simp_all add: demo_signed_ok demo_spokes)

text \<open>
  C8: A new valid envelope for a key that is not a connected spoke goes to hubs only, at most once
  to each, unchanged, and never back where it came from: to the hub that gossip names for the
  key when that hub is connected and is not the sender, otherwise to every other hub.
\<close>

theorem remote_routing:
  assumes "hub_inv s" "env_verify C env = None" "map_of (srv_seen s) (env_id env) = None"
    and "map_of (srv_spokes s) (mustHex (env_to env)) = None"
  shows "let out = snd (forward J C now now' env from s); others = snd ` set (srv_hubs s) - {from} in
    distinct (map fst out) \<and> list_all (\<lambda>(h, m). m = msgOf TypeEnvelope (js_envelope J env)) out \<and>
    from \<notin> set (map fst out) \<and> set (map fst out) \<subseteq> snd ` set (srv_hubs s) \<and>
    set (map fst out) =
      (case next_hop s (mustHex (env_to env)) of
         None \<Rightarrow> others
       | Some p \<Rightarrow> if p = from then others else {p})"
proof -
  define H where "H = map snd (srv_hubs s)"
  let ?t = "route_targets env from s" and ?n = "next_hop s (mustHex (env_to env))"
  have dH: "distinct H" using assms(1) by (simp add: hub_inv_def H_def)
  have nH: "?n = Some p \<Longrightarrow> p \<in> set H" for p
    by (force simp: H_def next_hop_def dest: map_of_SomeD split: option.splits)
  have t: "?t = (case ?n of Some p \<Rightarrow> (if p \<noteq> from then [p] else filter (\<lambda>r. r \<noteq> from) H)
      | None \<Rightarrow> filter (\<lambda>r. r \<noteq> from) H)"
    using assms(4) unfolding route_targets_def Let_def by (simp only: option.case flip: H_def)
  have "distinct ?t" "from \<notin> set ?t" "set ?t \<subseteq> set H"
    and "set ?t = (case ?n of None \<Rightarrow> set H - {from} | Some p \<Rightarrow> if p = from then set H - {from} else {p})"
    unfolding t using dH nH by (auto split: option.splits)
  moreover have "snd ` set (srv_hubs s) = set H" by (simp add: H_def)
  ultimately show ?thesis
    by (simp add: forward_new [OF assms(2,3)] comp_def list_all_iff image_image Let_def)
qed

theorem remote_routing_witness:
  "let out = snd (forward run_json demo_crypto 7 8 (demo_signed ''x'') 0
       (demo_hub_server\<lparr>srv_spokes := []\<rparr>)) in set (map fst out) = {2}"
proof -
  have inv: "hub_inv (demo_hub_server\<lparr>srv_spokes := []\<rparr>)"
    using demo_hub_inv by (simp add: hub_inv_def table_ok_def)
  have "next_hop (demo_hub_server\<lparr>srv_spokes := []\<rparr>) (mustHex (replicate 32 2)) = None"
    by (simp add: next_hop_def demo_hub_server_def NewServer_def demo_session_def demo_identity_def)
  then show ?thesis
    using remote_routing [OF inv demo_signed_ok(1), of "''x''" run_json 7 8 0]
    by (simp add: demo_signed_ok demo_spokes Let_def)
qed

text \<open>
  An envelope that fails \<open>Verify\<close>, one whose identifier was seen before, and a body that is no
  envelope are dropped: nothing is sent and the only change is the time the session was last
  heard of (and the capture, when it is on).
\<close>

theorem envelope_refused:
  assumes "msg_type m = TypeEnvelope"
    and "case un_envelope J (msg_body m) of None \<Rightarrow> True
         | Some env \<Rightarrow> env_verify C env \<noteq> None \<or> map_of (srv_seen s) (env_id env) \<noteq> None"
  shows "hub_handle J C (Deliver ck r d m) s =
    (set_session r (se_last_update (\<lambda>_. t_arrival ck)) (capture_dump d s), [])"
proof (cases "un_envelope J (msg_body m)")
  case None
  with assms(1) show ?thesis by (simp add: onMsg_def type_consts Let_def)
next
  case (Some env)
  with assms have "envelope_message J m env" by (simp add: envelope_message_def)
  moreover have "env_verify C env \<noteq> None \<or>
      map_of (srv_seen (set_session r (se_last_update (\<lambda>_. t_arrival ck)) (capture_dump d s))) (env_id env) \<noteq> None"
    using assms(2) Some by simp
  ultimately show ?thesis by (simp add: onMsg_envelope forward_old)
qed

theorem envelope_refused_witness:
  "snd (hub_handle demo_json demo_crypto (Deliver demo_clocks 1 None (msgOf TypeEnvelope [1])) demo_hub_server) = []"
  using envelope_refused [where m = "msgOf TypeEnvelope [1]" and J = demo_json and C = demo_crypto
      and s = demo_hub_server and r = 1 and d = None and ck = demo_clocks]
  by (simp add: demo_json_def)

end
