(* ===== verification/Hub_Gossip.thy ===== *)
theory Hub_Gossip
  imports Hub_Routing
begin

section \<open>Presence gossip, registration and peers\<close>

text \<open>
  What a hub tells others about the spokes it can reach, what it takes over from them and how
  often, who can register a session, whom a hub accepts as a peer it dials, and three ways in
  which the code loses a spoke or a route.
\<close>

subsection \<open>Gossip taken in\<close>

definition gossip_in :: "json_lib \<Rightarrow> message \<Rightarrow> presence_gossip \<Rightarrow> bool" where
  "gossip_in J m g \<longleftrightarrow> msg_type m = TypePresenceGossip \<and> un_gossip J (msg_body m) = Some g"

lemma onMsg_gossip:
  "gossip_in J m g \<Longrightarrow>
    onMsg J C ck r m s = onGossip J r g (set_session r (se_last_update (\<lambda>_. t_arrival ck)) s)"
  by (simp add: onMsg_def gossip_in_def type_consts Let_def)

lemma onGossip_records: "seq_least (fst (onGossip J r g s)) (mustHex (pg_hub g)) (pg_seq g)"
  by (auto simp: onGossip_def seq_least_def Let_def update_conv' split: option.splits)

lemma onGossip_stale: "seq_least s (mustHex (pg_hub g)) (pg_seq g) \<Longrightarrow> onGossip J r g s = (s, [])"
  by (auto simp: onGossip_def seq_least_def Let_def)

lemma seq_least_mono: "seq_least s origin n \<Longrightarrow> m \<le> n \<Longrightarrow> seq_least s origin m"
  by (auto simp: seq_least_def)

lemma seq_least_session [simp]:
  "seq_least (set_session r f s) origin n = seq_least s origin n"
  "seq_least (capture_dump d s) origin n = seq_least s origin n"
  by (simp_all add: seq_least_def)

lemma map_of_entries_where:
  "map_of (srv_where (foldl (gossip_entry_in origin) s es)) k =
     (if k \<in> (\<lambda>e. mustHex (ge_pub e)) ` set es then Some origin else map_of (srv_where s) k)"
  by (induction es arbitrary: s) (auto simp: gossip_entry_in_def Let_def update_conv')

text \<open>
  C10: Gossip cannot circulate for ever: once a hub has been delivered a gossip message of another
  hub, it never again sends on, or takes anything from, one of that hub with the same or a
  lower sequence number, whatever happens in between.
\<close>

theorem gossip_once:
  assumes "gossip_in J m g" "mustHex (pg_hub g) \<noteq> self_hex s"
    and "hub_step J C s (Deliver ck r d m) out s1" "hub_run J C s1 tr s2"
    and "gossip_in J m' g'" "pg_hub g' = pg_hub g" "pg_seq g' \<le> pg_seq g"
    and "hub_step J C s2 (Deliver ck' r' d' m') out' s3"
  shows "out' = [] \<and> srv_where s3 = srv_where s2 \<and> srv_names s3 = srv_names s2 \<and>
    srv_xpubs s3 = srv_xpubs s2 \<and> srv_gseen s3 = srv_gseen s2"
proof -
  have s1: "s1 = fst (hub_handle J C (Deliver ck r d m) s)" using assms(3) by (metis fst_conv hub_stepE)
  have "seq_least s1 (mustHex (pg_hub g)) (pg_seq g)"
    by (simp add: s1 onMsg_gossip [OF assms(1)] onGossip_records)
  moreover have "srv_id s1 = srv_id s" unfolding s1 by (rule handle_id)
  ultimately have "seq_least s2 (mustHex (pg_hub g)) (pg_seq g)"
    using seq_least_run [OF assms(4), of "mustHex (pg_hub g)"] assms(2) by simp
  then have "onGossip J r' g' (set_session r' (se_last_update (\<lambda>_. t_arrival ck')) (capture_dump d' s2)) =
      (set_session r' (se_last_update (\<lambda>_. t_arrival ck')) (capture_dump d' s2), [])"
    using assms(6,7) by (intro onGossip_stale) (auto intro: seq_least_mono)
  then have "hub_handle J C (Deliver ck' r' d' m') s2 =
      (set_session r' (se_last_update (\<lambda>_. t_arrival ck')) (capture_dump d' s2), [])"
    by (simp add: onMsg_gossip [OF assms(5)])
  with assms(8) have "s3 = set_session r' (se_last_update (\<lambda>_. t_arrival ck')) (capture_dump d' s2) \<and> out' = []"
    by (auto elim: hub_stepE)
  then show ?thesis by (auto simp: capture_dump_def split: option.splits)
qed

definition demo_gossip :: "byte \<Rightarrow> byte \<Rightarrow> message" where
  "demo_gossip hub sq = msgOf TypePresenceGossip ([sq] @ replicate 32 hub @ replicate 32 3)"

lemma demo_gossip_in:
  "gossip_in run_json (demo_gossip hub sq)
     \<lparr>pg_hub = replicate 32 hub, pg_entries = [\<lparr>ge_pub = replicate 32 3, ge_x = [], ge_name = []\<rparr>],
      pg_seq = ucast sq, pg_bloom = [], pg_sig = []\<rparr>"
  by (simp add: gossip_in_def demo_gossip_def run_json_def)

theorem gossip_once_witness:
  "let h = \<lambda>sq. hub_handle run_json demo_crypto (Deliver demo_clocks 2 None (demo_gossip 7 sq)) in
   snd (h 4 (fst (h 5 demo_hub_server))) = []"
proof -
  let ?h = "\<lambda>sq. hub_handle run_json demo_crypto (Deliver demo_clocks 2 None (demo_gossip 7 sq))"
  let ?s1 = "fst (?h 5 demo_hub_server)"
  have st1: "hub_step run_json demo_crypto demo_hub_server (Deliver demo_clocks 2 None (demo_gossip 7 5))
      (snd (?h 5 demo_hub_server)) ?s1"
    by (rule hub_stepI) (simp_all add: demo_spokes)
  have "length (srv_heap ?s1) = 3"
    by (simp add: onMsg_gossip [OF demo_gossip_in] onGossip_def gossip_entry_in_def Let_def capture_dump_def demo_spokes)
  then have st2: "hub_step run_json demo_crypto ?s1 (Deliver demo_clocks 2 None (demo_gossip 7 4))
      (snd (?h 4 ?s1)) (fst (?h 4 ?s1))"
    by (intro hub_stepI) simp_all
  show ?thesis
    using gossip_once [OF demo_gossip_in _ st1 run_nil demo_gossip_in _ _ st2]
    by (simp add: demo_spokes demo_identity_def)
qed

text \<open>
  C27: A gossip message that is new for its origin redirects exactly the keys it lists to that
  origin and leaves every other route alone; it is sent on once to every spoke and every hub
  except the one it came from, and not at all otherwise.
\<close>

theorem gossip_effect:
  assumes "hub_inv s"
  shows "let origin = mustHex (pg_hub g); (s', out) = onGossip J r g s in
    if seq_least s origin (pg_seq g) then s' = s \<and> out = []
    else map_of (srv_where s') k =
           (if k \<in> (\<lambda>e. mustHex (ge_pub e)) ` set (pg_entries g) then Some origin
            else map_of (srv_where s) k) \<and>
         map_of (srv_gseen s') origin = Some (pg_seq g) \<and> distinct (map fst out) \<and>
         set out = (\<lambda>q. (q, msgOf TypePresenceGossip (js_gossip J g))) `
           (snd ` set (srv_spokes s) \<union> (snd ` set (srv_hubs s) - {r}))"
proof (cases "seq_least s (mustHex (pg_hub g)) (pg_seq g)")
  case True
  then show ?thesis by (simp add: onGossip_stale)
next
  case False
  then have new: "\<not> (case map_of (srv_gseen s) (mustHex (pg_hub g)) of None \<Rightarrow> False | Some prev \<Rightarrow> pg_seq g \<le> prev)"
    by (auto simp: seq_least_def split: option.splits)
  define S H where "S = map snd (srv_spokes s)" and "H = map snd (srv_hubs s)"
  have d: "distinct S" "distinct H" "set S \<inter> set H = {}" using assms by (auto simp: hub_inv_def S_def H_def)
  let ?msg = "msgOf TypePresenceGossip (js_gossip J g)"
  have H': "map snd (filter (\<lambda>(_, q). q \<noteq> r) hs) = filter (\<lambda>q. q \<noteq> r) (map snd hs)"
    for hs :: "(string \<times> sref) list"
    by (induction hs) auto
  have S': "map (\<lambda>(_, r). (r, ?msg)) ss = map (\<lambda>q. (q, ?msg)) (map snd ss)" for ss :: "(string \<times> sref) list"
    by auto
  have out: "fanoutGossip J g r s' = map (\<lambda>q. (q, ?msg)) (S @ filter (\<lambda>q. q \<noteq> r) H)"
    if "srv_spokes s' = srv_spokes s" "srv_hubs s' = srv_hubs s" for s'
    unfolding fanoutGossip_def Let_def S' H' that S_def H_def by simp
  have "distinct (S @ filter (\<lambda>q. q \<noteq> r) H)" using d by auto
  then show ?thesis
    using new False
    by (simp add: onGossip_def Let_def map_of_entries_where update_conv' out comp_def)
      (auto simp: S_def H_def image_Un)
qed

theorem gossip_effect_witness:
  "map_of (srv_where (fst (onGossip run_json 2
       \<lparr>pg_hub = replicate 32 7, pg_entries = [\<lparr>ge_pub = [3], ge_x = [], ge_name = []\<rparr>], pg_seq = 1,
        pg_bloom = [], pg_sig = []\<rparr> demo_hub_server))) (mustHex [3]) = Some (mustHex (replicate 32 7))"
  using gossip_effect [OF demo_hub_inv, where J = run_json and r = 2 and k = "mustHex [3]"
      and g = "\<lparr>pg_hub = replicate 32 7, pg_entries = [\<lparr>ge_pub = [3], ge_x = [], ge_name = []\<rparr>], pg_seq = 1,
        pg_bloom = [], pg_sig = []\<rparr>"]
  by (simp add: seq_least_def demo_spokes Let_def split: prod.splits)

subsection \<open>Gossip given out\<close>

lemma bloom_contains: "pub \<in> set pubs \<Longrightarrow> bloom_has (foldl bloom_add newBloom pubs) pub"
  using bloom_set_view.view_run [OF newBloom_inv, of pubs]
  by (auto simp: bloom_has_view newBloom_view foldl_union)

lemma parse_hex_key: "k = mustHex b \<Longrightarrow> (case parseHex k of Inl _ \<Rightarrow> [] | Inr b \<Rightarrow> b) = b"
  by simp

lemma spoke_entry_pub: "k = mustHex b \<Longrightarrow> ge_pub (spoke_entry s (k, r)) = b"
  by (simp add: spoke_entry_def)

lemma remote_entry_keys:
  assumes "hex_keys w" "distinct (map fst w)"
  shows "(\<lambda>e. mustHex (ge_pub e)) ` set (List.map_filter (remote_entry s xs) w) =
    {k. \<exists>h. map_of w k = Some h \<and> h \<noteq> self_hex s}"
  using assms
proof (induction w)
  case (Cons p w)
  obtain k h where p: "p = (k, h)" by fastforce
  obtain b where b: "k = mustHex b" using Cons.prems(1) by (auto simp: hex_keys_def p)
  have ih: "(\<lambda>e. mustHex (ge_pub e)) ` set (List.map_filter (remote_entry s xs) w) =
      {k. \<exists>h. map_of w k = Some h \<and> h \<noteq> self_hex s}"
    using Cons by (simp add: hex_keys_def)
  have "map_of w k = None" using Cons.prems(2) by (simp add: p map_of_eq_None_iff)
  then show ?case
    using ih by (auto simp: p b remote_entry_def List.map_filter_simps)
qed (simp add: List.map_filter_simps)

text \<open>
  C26: The presence a hub announces is exactly what it can reach: its own connected spokes and the
  keys that gossip has placed at other hubs. The sequence number is the previous one plus one
  (modulo 2^64), the message goes once to every connected session, and a message of 64 entries
  or more carries a Bloom filter that contains every local spoke.
\<close>

theorem gossip_content:
  assumes "hub_inv s"
  shows "let (s', out) = gossipLocal J s; g = fst (gossip_message s) in
    pg_hub g = id_ed_pub (srv_id s) \<and> pg_seq g = srv_seq s + 1 \<and> srv_seq s' = pg_seq g \<and>
    (\<lambda>e. mustHex (ge_pub e)) ` set (pg_entries g) =
      fst ` set (srv_spokes s) \<union> {k. \<exists>h. map_of (srv_where s) k = Some h \<and> h \<noteq> self_hex s} \<and>
    distinct (map fst out) \<and>
    set out = (\<lambda>r. (r, msgOf TypePresenceGossip (js_gossip J g))) `
      (snd ` set (srv_hubs s) \<union> snd ` set (srv_spokes s)) \<and>
    (length (pg_entries g) < 64 \<or>
      list_all (\<lambda>k. bloom_has (pg_bloom g) (projr (parseHex k))) (map fst (srv_spokes s)))"
proof -
  have inv: "hex_keys (srv_where s)" "distinct (map fst (srv_where s))" "hex_keys (srv_spokes s)"
    using assms table_hex by (auto simp: hub_inv_def)
  have w: "hex_keys (local_where s)" "distinct (map fst (local_where s))"
    using hub_inv_gossip [OF assms] by (simp_all add: hub_inv_def)
  have spk: "k \<in> fst ` set (srv_spokes s) \<Longrightarrow> \<exists>b. k = mustHex b" for k
    using inv(3) unfolding hex_keys_def by (rule bspec)
  have "(\<lambda>e. mustHex (ge_pub e)) ` spoke_entry s ` set (srv_spokes s) = fst ` set (srv_spokes s)"
    unfolding image_image
  proof (rule image_cong [OF refl])
    fix kr assume "kr \<in> set (srv_spokes s)"
    then obtain b where "fst kr = mustHex b" using spk [of "fst kr"] by auto
    then show "mustHex (ge_pub (spoke_entry s kr)) = fst kr"
      using spoke_entry_pub [of "fst kr" b s "snd kr"] by (cases kr) simp
  qed
  then have "(\<lambda>e. mustHex (ge_pub e)) ` set (gossip_entries s) =
      fst ` set (srv_spokes s) \<union> {k. \<exists>h. map_of (local_where s) k = Some h \<and> h \<noteq> self_hex s}"
    by (simp only: gossip_entries_def set_append set_map image_Un remote_entry_keys [OF w])
  also have "\<dots> = fst ` set (srv_spokes s) \<union> {k. \<exists>h. map_of (srv_where s) k = Some h \<and> h \<noteq> self_hex s}"
    by (rule set_eqI) (simp add: map_of_local_where)
  finally have entries: "(\<lambda>e. mustHex (ge_pub e)) ` set (gossip_entries s) =
      fst ` set (srv_spokes s) \<union> {k. \<exists>h. map_of (srv_where s) k = Some h \<and> h \<noteq> self_hex s}" .
  have pubs: "projr (parseHex k) \<in> set (map (\<lambda>kr. ge_pub (spoke_entry s kr)) (srv_spokes s))"
    if "k \<in> fst ` set (srv_spokes s)" for k
  proof -
    from that obtain r where kr: "(k, r) \<in> set (srv_spokes s)" by auto
    from spk [OF that] obtain b where b: "k = mustHex b" by blast
    then have pe: "projr (parseHex k) = ge_pub (spoke_entry s (k, r))" by (simp add: spoke_entry_def)
    show ?thesis unfolding set_map by (rule image_eqI [where x = "(k, r)"]) (rule pe, rule kr)
  qed
  have bloom: "list_all (\<lambda>k. bloom_has (local_bloom s) (projr (parseHex k))) (map fst (srv_spokes s))"
    using pubs bloom_contains [where pubs = "map (\<lambda>kr. ge_pub (spoke_entry s kr)) (srv_spokes s)"]
    by (simp add: list_all_iff local_bloom_def)
  have "distinct (map snd (srv_hubs s) @ map snd (srv_spokes s))" using assms by (simp add: hub_inv_def)
  then show ?thesis
    using entries bloom
    by (simp add: gossipLocal_eq gossip_sends_def gossip_message_eq comp_def image_Un image_image)
qed

theorem gossip_content_witness:
  "set (map fst (snd (gossipLocal run_json demo_hub_server))) = {0, 1, 2}"
proof -
  have "set (snd (gossipLocal run_json demo_hub_server)) =
      (\<lambda>r. (r, msgOf TypePresenceGossip (js_gossip run_json (fst (gossip_message demo_hub_server))))) `
        (snd ` set (srv_hubs demo_hub_server) \<union> snd ` set (srv_spokes demo_hub_server))"
    using gossip_content [OF demo_hub_inv, of run_json] by (simp add: gossipLocal_eq Let_def)
  then show ?thesis by (auto simp: demo_spokes image_iff)
qed

subsection \<open>Registration and peers\<close>

lemma make_ok_verifies:
  assumes "sign_correct C" "wf_identity C (srv_id s)"
  shows "hello_ok_verify C (make_ok C ts remote s)"
proof -
  from assms(2) have "id_ed_pub (srv_id s) = ed_public C (id_ed_priv (srv_id s))"
    and "length (id_ed_pub (srv_id s)) = 32"
    unfolding wf_identity_def by blast+
  then show ?thesis
    unfolding make_ok_def by (intro hello_ok_verify_signed assms(1)) simp_all
qed

text \<open>
  C11: Only a signed hello opens a session: when \<open>handleConn\<close> registers one, the first message
  was a hello whose signature verifies under the key it names, the session is the newest one and
  stands under that key in the table its role asks for, and the answer sent back verifies under
  the hub's own key. In every other case nothing changes and nothing is sent to anyone else.
\<close>

theorem registration_authentic:
  assumes "sign_correct C" "wf_identity C (srv_id s)"
  shows "case handleConn J C now ts remote proto ok first s of
      (Registered reply r, s', out) \<Rightarrow>
        (\<exists>m h. first = Some m \<and> un_hello J (msg_body m) = Some h \<and> hello_verify C h \<and>
           r = length (srv_heap s) \<and> length (srv_heap s') = r + 1 \<and> se_ed (srv_heap s' ! r) = hel_ed h \<and>
           map_of (if msg_type m = TypePeerHello \<or> hel_role h = RoleHub then srv_hubs s' else srv_spokes s')
             (mustHex (hel_ed h)) = Some r) \<and>
        (\<exists>t hok. reply = msgOf t (js_hello_ok J hok) \<and> hello_ok_verify C hok \<and> hok_ed hok = id_ed_pub (srv_id s))
    | (_, s', out) \<Rightarrow> s' = s \<and> out = []"
proof (cases "\<exists>m h. first = Some m \<and> (msg_type m = TypeHello \<or> msg_type m = TypePeerHello) \<and>
    un_hello J (msg_body m) = Some h \<and> hello_verify C h \<and> ok")
  case True
  then obtain m h where mh: "first = Some m" "msg_type m = TypeHello \<or> msg_type m = TypePeerHello"
    "un_hello J (msg_body m) = Some h" "hello_verify C h" "ok" by blast
  have "hok_ed (make_ok C ts remote s) = id_ed_pub (srv_id s)" by (simp add: make_ok_def)
  then show ?thesis
    using mh make_ok_verifies [OF assms, of ts remote]
    by (fastforce simp: handleConn_def Let_def gossipLocal_eq update_conv')
next
  case False
  then show ?thesis
    by (auto simp: handleConn_def Let_def split: option.splits)
qed

definition hello_json :: json_lib where
  "hello_json = demo_json\<lparr>un_hello := (\<lambda>b. Some (demo_hello\<lparr>hel_sig := hel_ed demo_hello @ helloSignedBytes demo_hello\<rparr>))\<rparr>"

theorem registration_authentic_witness:
  "map_of (srv_spokes (fst (snd (handleConn hello_json demo_crypto 0 0 None ''quic'' True
       (Some (msgOf TypeHello [])) (NewServer (demo_identity 9) demo_config))))) (mustHex (replicate 32 1)) = Some 0"
proof -
  let ?s = "NewServer (demo_identity 9) demo_config"
  let ?h = "handleConn hello_json demo_crypto 0 0 None ''quic'' True (Some (msgOf TypeHello [])) ?s"
  have wf: "wf_identity demo_crypto (srv_id ?s)" by (simp add: NewServer_def demo_identity_ok)
  have hb: "helloSignedBytes (demo_hello\<lparr>hel_sig := x\<rparr>) = helloSignedBytes demo_hello" for x
    by (simp add: helloSignedBytes_def)
  have v: "hello_verify demo_crypto (demo_hello\<lparr>hel_sig := hel_ed demo_hello @ helloSignedBytes demo_hello\<rparr>)"
    by (simp add: hello_verify_def hb) (simp add: demo_hello_def demo_crypto_def)
  then obtain reply r s' out where h: "?h = (Registered reply r, s', out)"
    by (simp add: handleConn_def hello_json_def type_consts gossipLocal_eq Let_def)
  then show ?thesis
    using registration_authentic [OF demo_crypto_ok(1) wf, where J = hello_json and now = 0 and ts = 0
        and remote = None and proto = "''quic''" and ok = True and first = "Some (msgOf TypeHello [])"]
    by (simp add: hello_json_def demo_hello_def type_consts role_consts) (simp add: NewServer_def)
qed

text \<open>
  A hello does not expire and answers no challenge: the message that once registered a spoke does
  so again at any later time, on any hub and from any address, and the session it opens takes the
  place of the spoke's own.
\<close>

theorem hello_replay:
  assumes "fst (handleConn J C now ts remote proto True (Some m) s) = Registered reply r"
    and "msg_type m = TypeHello" "un_hello J (msg_body m) = Some h" "hel_role h \<noteq> RoleHub"
  shows "map_of (srv_spokes (fst (snd (handleConn J C now2 ts2 remote2 proto2 True (Some m) s2))))
    (mustHex (hel_ed h)) = Some (length (srv_heap s2))"
proof -
  have "hello_verify C h"
    using assms by (auto simp: handleConn_def Let_def split: if_splits)
  then show ?thesis
    using assms(2-4) by (simp add: handleConn_def Let_def gossipLocal_eq type_consts update_conv')
qed

lemma first_some_Some: "first_some f xs = Some y \<Longrightarrow> \<exists>x \<in> set xs. f x = Some y"
  by (induction xs) (auto split: option.splits)

text \<open>
  C34: A hub that dials another one by its invite accepts only that hub: the answer was received on
  one of the invite's own addresses, its signature verifies, and its key is the invite's key.
\<close>

theorem peer_pinned:
  assumes "wf_invite iv" "dialPeer J C clock att s iv = Some hok"
  shows "hello_ok_verify C hok \<and> hok_ed hok = inv_pub_key iv \<and>
    (\<exists>netw addr m. netw \<in> {''quic'', ''tls''} \<and>
       (inv_ipv6 iv \<noteq> None \<and> addr = AddrIPv6 iv \<or> inv_ipv4 iv \<noteq> None \<and> addr = AddrIPv4 iv) \<and>
       att netw addr (msgOf TypePeerHello (js_hello J (peer_hello C (clock netw addr) s))) = Answer m \<and>
       un_hello_ok J (msg_body m) = Some hok)"
proof -
  from assms(2) obtain addr netw where addr: "addr \<in> set ((if inv_ipv6 iv \<noteq> None then [AddrIPv6 iv] else []) @
      (if inv_ipv4 iv \<noteq> None then [AddrIPv4 iv] else []))" and netw: "netw \<in> {''quic'', ''tls''}"
    and ans: "peer_answer J C iv (att netw addr (msgOf TypePeerHello (js_hello J (peer_hello C (clock netw addr) s)))) = Some hok"
    unfolding dialPeer_def Let_def by (fastforce dest!: first_some_Some)
  from ans assms(1) obtain m where "att netw addr (msgOf TypePeerHello (js_hello J (peer_hello C (clock netw addr) s))) = Answer m"
    "un_hello_ok J (msg_body m) = Some hok"
    "hello_ok_verify C hok" "hok_ed hok = inv_pub_key iv"
    by (auto simp: peer_answer_def wf_invite_def split: attempt.splits option.splits if_splits)
  with addr netw show ?thesis by (auto split: if_splits)
qed

definition demo_ok_json :: "hello_ok \<Rightarrow> json_lib" where
  "demo_ok_json k = demo_json\<lparr>un_hello_ok := (\<lambda>b. Some k)\<rparr>"

definition demo_hello_ok :: hello_ok where
  "demo_hello_ok = make_ok demo_crypto 5 None (NewServer (demo_identity 7) demo_config)"

theorem peer_pinned_witness:
  "dialPeer (demo_ok_json demo_hello_ok) demo_crypto (\<lambda>n a. 5) (\<lambda>n a m. if n = ''tls'' then Answer (msgOf [] []) else DialFailed)
     demo_hub_server (demo_invite\<lparr>inv_pub_key := replicate 32 7\<rparr>) = Some demo_hello_ok \<and>
   hok_ed demo_hello_ok = replicate 32 7"
proof -
  let ?iv = "demo_invite\<lparr>inv_pub_key := replicate 32 7\<rparr>"
  let ?att = "\<lambda>n a m. if n = ''tls'' then Answer (msgOf [] []) else DialFailed"
  have wf: "wf_invite ?iv" by (simp add: wf_invite_def)
  have v: "hello_ok_verify demo_crypto demo_hello_ok"
    unfolding demo_hello_ok_def by (rule make_ok_verifies [OF demo_crypto_ok(1)]) (simp add: NewServer_def demo_identity_ok)
  have ed: "hok_ed demo_hello_ok = replicate 32 7"
    by (simp add: demo_hello_ok_def make_ok_def NewServer_def demo_identity_def)
  have d: "dialPeer (demo_ok_json demo_hello_ok) demo_crypto (\<lambda>n a. 5) ?att demo_hub_server ?iv = Some demo_hello_ok"
    by (simp add: dialPeer_def peer_answer_def demo_ok_json_def v ed) (simp add: demo_invite_def)
  with peer_pinned [OF wf d] show ?thesis by simp
qed

subsection \<open>Sessions\<close>

text \<open>Which sessions are open: those of a run that it has not closed.\<close>

lemma onMsg_roles [simp]: "map se_role (srv_heap (fst (onMsg J C ck r m s))) = map se_role (srv_heap s)"
proof -
  have set: "map se_role (srv_heap (set_session q f u)) = map se_role (srv_heap u)" if "\<And>x. se_role (f x) = se_role x" for q f u
    using that by (cases "q < length (srv_heap u)") (simp_all add: set_session_def map_update list_update_same_conv list_update_beyond)
  have "srv_heap (fst (forward J C n n' env r u)) = srv_heap u" for n n' env u
    by (auto simp: forward_def Let_def split: prod.splits bool.splits option.splits)
  then show ?thesis
    by (simp add: onMsg_def onPresence_def onGossip_def gossipLocal_eq Let_def set split: option.splits)
qed

lemma roles_nth: "map se_role h = map se_role h' \<Longrightarrow> r < length h \<Longrightarrow> se_role (h ! r) = se_role (h' ! r)"
  by (metis length_map nth_map)

definition open_inv :: "sref set \<Rightarrow> server \<Rightarrow> bool" where
  "open_inv cl s \<longleftrightarrow> (\<forall>r \<in> cl. r < length (srv_heap s)) \<and>
     (\<forall>(k, r) \<in> set (srv_spokes s). se_role (srv_heap s ! r) \<noteq> RoleHub \<and> r \<notin> cl) \<and>
     (\<forall>(k, r) \<in> set (srv_hubs s). se_role (srv_heap s ! r) = RoleHub \<longrightarrow> r \<notin> cl)"

lemma open_invI:
  assumes "\<And>r. r \<in> cl \<Longrightarrow> r < length (srv_heap s)"
    "\<And>k r. (k, r) \<in> set (srv_spokes s) \<Longrightarrow> se_role (srv_heap s ! r) \<noteq> RoleHub \<and> r \<notin> cl"
    "\<And>k r. (k, r) \<in> set (srv_hubs s) \<Longrightarrow> se_role (srv_heap s ! r) = RoleHub \<Longrightarrow> r \<notin> cl"
  shows "open_inv cl s"
  using assms by (auto simp: open_inv_def)

lemma open_invD:
  assumes "open_inv cl s"
  shows "r \<in> cl \<Longrightarrow> r < length (srv_heap s)"
    "(k, r) \<in> set (srv_spokes s) \<Longrightarrow> se_role (srv_heap s ! r) \<noteq> RoleHub" "(k, r) \<in> set (srv_spokes s) \<Longrightarrow> r \<notin> cl"
    "(k, r) \<in> set (srv_hubs s) \<Longrightarrow> se_role (srv_heap s ! r) = RoleHub \<Longrightarrow> r \<notin> cl"
  using assms by (auto simp: open_inv_def)

lemma table_sessions: "hub_inv s \<Longrightarrow> (k, r) \<in> set (srv_spokes s) \<or> (k, r) \<in> set (srv_hubs s) \<Longrightarrow> r < length (srv_heap s)"
  by (auto simp: hub_inv_def dest: table_okD)

lemma open_inv_same:
  assumes "open_inv cl s" "hub_inv s" "map se_role (srv_heap t) = map se_role (srv_heap s)"
    "srv_spokes t = srv_spokes s" "srv_hubs t = srv_hubs s"
  shows "open_inv cl t"
proof -
  have len: "length (srv_heap t) = length (srv_heap s)" using assms(3) by (metis length_map)
  have role: "se_role (srv_heap t ! r) = se_role (srv_heap s ! r)" if "(k, r) \<in> set (srv_spokes s) \<or> (k, r) \<in> set (srv_hubs s)" for k r
    using roles_nth [OF assms(3) [symmetric]] table_sessions [OF assms(2) that] by simp
  show ?thesis
  proof (rule open_invI)
    show "r \<in> cl \<Longrightarrow> r < length (srv_heap t)" for r using open_invD(1) [OF assms(1)] len by simp
    show "(k, r) \<in> set (srv_spokes t) \<Longrightarrow> se_role (srv_heap t ! r) \<noteq> RoleHub \<and> r \<notin> cl" for k r
      using open_invD(2,3) [OF assms(1), of k r] role [of k r] assms(4) by simp
    show "(k, r) \<in> set (srv_hubs t) \<Longrightarrow> se_role (srv_heap t ! r) = RoleHub \<Longrightarrow> r \<notin> cl" for k r
      using open_invD(4) [OF assms(1), of k r] role [of k r] assms(5) by simp
  qed
qed

lemma open_inv_register:
  assumes o: "open_inv cl s" and "hub_inv s" "\<not> as_hub \<Longrightarrow> se_role x \<noteq> RoleHub"
  shows "open_inv cl (register as_hub x s)"
proof -
  let ?n = "length (srv_heap s)" and ?t = "register as_hub x s"
  have fresh: "?n \<notin> cl" using open_invD(1) [OF o, of ?n] by blast
  have old: "srv_heap ?t ! r = srv_heap s ! r" if "(k, r) \<in> set (srv_spokes s) \<or> (k, r) \<in> set (srv_hubs s)" for k r
    using table_sessions [OF assms(2) that] by (simp add: nth_append)
  have new: "srv_heap ?t ! ?n = x" by simp
  have upd: "p \<in> set (AList.update k v m) \<Longrightarrow> p \<in> set m \<or> p = (k, v)" for p k v and m :: "(string \<times> sref) list"
    by (auto dest: in_update)
  show ?thesis
  proof (rule open_invI)
    show "r \<in> cl \<Longrightarrow> r < length (srv_heap ?t)" for r using open_invD(1) [OF o, of r] by simp
    fix k r
    assume "(k, r) \<in> set (srv_spokes ?t)"
    then have "(k, r) \<in> set (srv_spokes s) \<or> r = ?n \<and> \<not> as_hub" using upd by (fastforce split: if_splits)
    then show "se_role (srv_heap ?t ! r) \<noteq> RoleHub \<and> r \<notin> cl"
      using open_invD(2,3) [OF o, of k r] old [of k r] new fresh assms(3) by auto
  next
    fix k r
    assume m: "(k, r) \<in> set (srv_hubs ?t)" and role: "se_role (srv_heap ?t ! r) = RoleHub"
    from m have "(k, r) \<in> set (srv_hubs s) \<or> r = ?n" using upd by (fastforce split: if_splits)
    then show "r \<notin> cl" using open_invD(4) [OF o, of k r] old [of k r] role fresh by auto
  qed
qed

lemma open_inv_close:
  assumes o: "open_inv cl s" and inv: "hub_inv s" "r < length (srv_heap s)"
  shows "open_inv (insert r cl) (fst (close_session J r s))"
proof -
  let ?k = "mustHex (se_ed (srv_heap s ! r))" and ?t = "fst (close_session J r s)"
  have del: "p \<in> set (AList.delete ?k m) \<longleftrightarrow> p \<in> set m \<and> fst p \<noteq> ?k" for p and m :: "(string \<times> sref) list"
    by (auto simp: AList.delete_eq)
  have t: "srv_heap ?t = srv_heap s"
    "srv_hubs ?t = (if se_role (srv_heap s ! r) = RoleHub then AList.delete ?k (srv_hubs s) else srv_hubs s)"
    "srv_spokes ?t = (if se_role (srv_heap s ! r) = RoleHub then srv_spokes s else AList.delete ?k (srv_spokes s))"
    by (simp_all add: close_session_def drop_session_def gossipLocal_eq)
  have key: "k = ?k" if "(k, r) \<in> set (srv_spokes s) \<or> (k, r) \<in> set (srv_hubs s)" for k
    using that inv(1) by (auto simp: hub_inv_def dest: table_okD)
  show ?thesis
  proof (rule open_invI; unfold t(1))
    show "q \<in> insert r cl \<Longrightarrow> q < length (srv_heap s)" for q using open_invD(1) [OF o, of q] inv(2) by auto
    fix k q
    assume m: "(k, q) \<in> set (srv_spokes ?t)"
    then have old: "(k, q) \<in> set (srv_spokes s)" by (auto simp: t(3) del split: if_splits)
    have "q \<noteq> r" using m key [of k] open_invD(2) [OF o old] by (auto simp: t(3) del split: if_splits)
    with open_invD(2,3) [OF o old] show "se_role (srv_heap s ! q) \<noteq> RoleHub \<and> q \<notin> insert r cl" by simp
  next
    fix k q
    assume m: "(k, q) \<in> set (srv_hubs ?t)" and role: "se_role (srv_heap s ! q) = RoleHub"
    then have old: "(k, q) \<in> set (srv_hubs s)" by (auto simp: t(2) del split: if_splits)
    have "q \<noteq> r" using m key [of k] role by (auto simp: t(2) del split: if_splits)
    with open_invD(4) [OF o old role] show "q \<notin> insert r cl" by simp
  qed
qed

lemma open_inv_step:
  assumes "hub_step J C s ev out s'" "hub_inv s" "open_inv cl s"
  shows "open_inv (case ev of Close r \<Rightarrow> insert r cl | _ \<Rightarrow> cl) s'"
proof -
  from assms(1) have en: "enabled ev s" and s': "s' = fst (hub_handle J C ev s)" by (auto elim: hub_stepE)
  have reg: "open_inv cl (after_gossip (register b x s))" if "\<not> b \<Longrightarrow> se_role x \<noteq> RoleHub" for b x
    by (rule open_inv_same [OF open_inv_register [OF assms(3,2) that] hub_inv_register [OF assms(2)]]) simp_all
  show ?thesis
  proof (cases ev)
    case (Connect now ts remote proto ok first)
    have "open_inv cl (fst (snd (handleConn J C now ts remote proto ok first s)))"
      using assms(3) by (auto simp: handleConn_def Let_def gossipLocal_eq split: option.splits intro!: reg)
    then show ?thesis by (simp add: s' Connect)
  next
    case (PeerUp now proto ok)
    have "open_inv cl (fst (handlePeerSession J now proto ok s))"
      unfolding handlePeerSession_def gossipLocal_eq fst_conv by (rule reg) simp
    then show ?thesis by (simp add: s' PeerUp)
  next
    case (Deliver ck r dump m)
    then show ?thesis using open_inv_same [OF assms(3,2), of s'] by (simp add: s')
  next
    case (Close r)
    then show ?thesis using open_inv_close [OF assms(3,2), of r J] en by (simp add: s')
  next
    case (Tick now)
    then show ?thesis using assms(3) by (simp add: s')
  qed
qed

definition closed_in :: "(hub_event \<times> outputs) list \<Rightarrow> sref set" where
  "closed_in tr = {r. Close r \<in> fst ` set tr}"

lemma open_run:
  "hub_run J C s tr t \<Longrightarrow> hub_inv s \<Longrightarrow> open_inv {} s \<Longrightarrow> open_inv (closed_in tr) t"
proof (induction rule: hub_run.induct)
  case (run_nil s)
  then show ?case by (simp add: closed_in_def)
next
  case (run_snoc s tr t ev out u)
  have "closed_in (tr @ [(ev, out)]) = (case ev of Close r \<Rightarrow> insert r (closed_in tr) | _ \<Rightarrow> closed_in tr)"
    by (auto simp: closed_in_def split: hub_event.splits)
  with open_inv_step [OF run_snoc.hyps(2) hub_run_inv [OF run_snoc.hyps(1) run_snoc.prems(1)]] run_snoc show ?case by simp
qed

text \<open>
  C21: After any run of a hub both session tables are sound. An entry of the spoke table is a session
  that was opened under that key by a hello with another role than hub and that the run has not closed. An
  entry of the hub table is a session under its own key too, and it is not closed when its role is
  hub; a session that greeted with \<open>peer_hello\<close> but another role is entered there and stays after its end.
  No session stands in two places.
\<close>

theorem hub_tables_sound:
  assumes "hub_run J C (NewServer i cfg) tr s"
  shows "(map_of (srv_spokes s) k = Some r \<longrightarrow> r < length (srv_heap s) \<and> k = mustHex (se_ed (srv_heap s ! r)) \<and>
      se_role (srv_heap s ! r) \<noteq> RoleHub \<and> Close r \<notin> fst ` set tr) \<and>
    (map_of (srv_hubs s) k = Some r \<longrightarrow> r < length (srv_heap s) \<and> k = mustHex (se_ed (srv_heap s ! r)) \<and>
      (se_role (srv_heap s ! r) = RoleHub \<longrightarrow> Close r \<notin> fst ` set tr)) \<and>
    distinct (map snd (srv_spokes s) @ map snd (srv_hubs s))"
proof -
  have inv: "hub_inv s" using hub_run_inv [OF assms hub_inv_new] .
  have tabs: "table_ok (srv_heap s) (srv_spokes s)" "table_ok (srv_heap s) (srv_hubs s)"
    using inv by (simp_all add: hub_inv_def)
  have "open_inv {} (NewServer i cfg)" by (simp add: open_inv_def NewServer_def)
  from open_run [OF assms hub_inv_new this] have "open_inv (closed_in tr) s" .
  moreover have "distinct (map snd (srv_spokes s) @ map snd (srv_hubs s))"
    using inv by (simp add: hub_inv_def Int_commute)
  ultimately show ?thesis
    using table_okD [OF tabs(1)] table_okD [OF tabs(2)] unfolding open_inv_def closed_in_def
    by (auto dest!: map_of_SomeD)
qed

text \<open>A spoke greets, leaves and greets again.\<close>

theorem hub_tables_sound_witness:
  "\<exists>s0 ev tr s. s0 = NewServer (demo_identity 9) demo_config \<and> hub_run hello_json demo_crypto s0 tr s \<and>
     map fst tr = [ev, Close 0, ev] \<and> map_of (srv_spokes s) (mustHex (replicate 32 1)) = Some 1 \<and> Close 1 \<notin> fst ` set tr"
proof -
  let ?ev = "Connect 0 0 None ''quic'' True (Some (msgOf TypeHello []))"
  let ?s0 = "NewServer (demo_identity 9) demo_config" and ?h = "hub_handle hello_json demo_crypto"
  define s1 where "s1 = fst (?h ?ev ?s0)"
  define s2 where "s2 = fst (?h (Close 0) s1)"
  define s3 where "s3 = fst (?h ?ev s2)"
  have hb: "helloSignedBytes (demo_hello\<lparr>hel_sig := x\<rparr>) = helloSignedBytes demo_hello" for x
    by (simp add: helloSignedBytes_def)
  have v: "hello_verify demo_crypto (demo_hello\<lparr>hel_sig := hel_ed demo_hello @ helloSignedBytes demo_hello\<rparr>)"
    by (simp add: hello_verify_def hb) (simp add: demo_hello_def demo_crypto_def)
  have reg: "length (srv_heap (fst (?h ?ev u))) = Suc (length (srv_heap u)) \<and>
      map_of (srv_spokes (fst (?h ?ev u))) (mustHex (replicate 32 1)) = Some (length (srv_heap u))" for u
    using v by (simp add: handleConn_def hello_json_def type_consts role_consts gossipLocal_eq Let_def update_conv')
      (simp add: demo_hello_def role_consts update_conv')
  have len: "length (srv_heap s1) = 1" "length (srv_heap s2) = 1"
    using reg [of ?s0] by (simp_all add: s1_def s2_def NewServer_def close_session_def drop_session_def gossipLocal_eq)
  have st: "hub_step hello_json demo_crypto ?s0 ?ev (snd (?h ?ev ?s0)) s1" "hub_step hello_json demo_crypto s1 (Close 0) (snd (?h (Close 0) s1)) s2"
    "hub_step hello_json demo_crypto s2 ?ev (snd (?h ?ev s2)) s3"
    by (rule hub_stepI; simp only: s1_def s2_def s3_def enabled.simps prod.collapse len [unfolded s1_def s2_def]; simp)+
  have run: "hub_run hello_json demo_crypto ?s0 ((([] @ [(?ev, snd (?h ?ev ?s0))]) @ [(Close 0, snd (?h (Close 0) s1))]) @ [(?ev, snd (?h ?ev s2))]) s3"
    (is "hub_run _ _ _ ?tr _")
    by (rule run_snoc [OF run_snoc [OF run_snoc [OF run_nil st(1)] st(2)] st(3)])
  have one: "map_of (srv_spokes s3) (mustHex (replicate 32 1)) = Some 1" using reg [of s2] len by (simp add: s3_def)
  then have "Close 1 \<notin> fst ` set ?tr" using hub_tables_sound [OF run, of "mustHex (replicate 32 1)" 1] by blast
  moreover have "map fst ?tr = [?ev, Close 0, ?ev]" by simp
  ultimately show ?thesis
    by (intro exI [of _ ?s0] exI [of _ ?ev] exI [of _ ?tr] exI [of _ s3] conjI refl run one)
qed

lemma map_of_snd: "map_of m k = Some v \<Longrightarrow> v \<in> snd ` set m"
  by (metis image_eqI map_of_SomeD snd_conv)

lemma route_targets_registered:
  "set (route_targets env src t) \<subseteq> snd ` set (srv_spokes t) \<union> snd ` set (srv_hubs t)"
proof (cases "map_of (srv_spokes t) (mustHex (env_to env))")
  case None
  have "next_hop t (mustHex (env_to env)) = Some p \<Longrightarrow> p \<in> snd ` set (srv_hubs t)" for p
    by (auto simp: next_hop_def dest: map_of_snd split: option.splits)
  with None show ?thesis
    unfolding route_targets_def Let_def by (simp split: option.split) blast
next
  case (Some r)
  with map_of_snd [OF Some] show ?thesis by (simp add: route_targets_def)
qed

text \<open>
  A spoke that reconnects can be lost: closing any session of a key, as when an old connection
  times out after the spoke has come back, takes the key out of the table, so that the session
  that replaced it, still open, is registered nowhere and gets no more envelopes.
\<close>

theorem reconnect_loses_spoke:
  assumes "hub_inv s" "r < length (srv_heap s)" "se_role (srv_heap s ! r) \<noteq> RoleHub"
    and "map_of (srv_spokes s) (mustHex (se_ed (srv_heap s ! r))) = Some n"
  shows "let s' = fst (hub_handle J C (Close r) s) in
    n < length (srv_heap s') \<and> n \<notin> snd ` set (srv_spokes s') \<and> n \<notin> snd ` set (srv_hubs s') \<and>
    n \<notin> set (route_targets env from s')"
proof -
  let ?k = "mustHex (se_ed (srv_heap s ! r))"
  have tab: "table_ok (srv_heap s) (srv_spokes s)"
    and d: "distinct (map snd (srv_hubs s) @ map snd (srv_spokes s))"
    using assms(1) by (simp_all add: hub_inv_def)
  have mem: "(?k, n) \<in> set (srv_spokes s)" using assms(4) by (rule map_of_SomeD)
  have len: "n < length (srv_heap s)" using table_okD [OF tab mem] by simp
  have hubs: "n \<notin> snd ` set (srv_hubs s)" using d mem by force
  have uniq: "k = ?k" if "(k, n) \<in> set (srv_spokes s)" for k
    using table_okD [OF tab that] table_okD [OF tab mem] by simp
  have spokes: "n \<notin> snd ` set (AList.delete ?k (srv_spokes s))"
    using uniq by (auto simp: AList.delete_eq)
  let ?s' = "fst (hub_handle J C (Close r) s)"
  have s': "srv_spokes ?s' = AList.delete ?k (srv_spokes s)" "srv_hubs ?s' = srv_hubs s" "srv_heap ?s' = srv_heap s"
    using assms(3) by (simp_all add: close_session_def drop_session_def gossipLocal_eq)
  then show ?thesis
    using len hubs spokes route_targets_registered [of env "from" ?s'] unfolding Let_def s' by blast
qed

text \<open>The old and the new session of one spoke.\<close>

definition twice_connected :: server where
  "twice_connected =
     register False (demo_session 2 RoleSpoke)
       (register False (demo_session 2 RoleSpoke) (NewServer (demo_identity 9) demo_config))"

theorem reconnect_loses_spoke_witness:
  "map_of (srv_spokes twice_connected) (mustHex (replicate 32 2)) = Some 1 \<and>
   1 \<notin> snd ` set (srv_spokes (fst (hub_handle run_json demo_crypto (Close 0) twice_connected)))"
proof -
  have inv: "hub_inv twice_connected"
    by (simp add: twice_connected_def hub_inv_register hub_inv_new)
  have heap: "srv_heap twice_connected = [demo_session 2 RoleSpoke, demo_session 2 RoleSpoke]"
    and sp: "map_of (srv_spokes twice_connected) (mustHex (replicate 32 2)) = Some 1"
    by (simp_all add: twice_connected_def NewServer_def demo_session_def)
  have "0 < length (srv_heap twice_connected)" "se_role (srv_heap twice_connected ! 0) \<noteq> RoleHub"
    "map_of (srv_spokes twice_connected) (mustHex (se_ed (srv_heap twice_connected ! 0))) = Some 1"
    using sp by (simp_all add: heap demo_session_def role_consts)
  from reconnect_loses_spoke [OF inv this, of run_json demo_crypto] sp show ?thesis
    by (simp only: Let_def simp_thms)
qed

text \<open>
  A session that greeted with \<open>peer_hello\<close> but another role than hub is entered as a hub, and its
  end does not take it out again.
\<close>

lemma stale_peer_entry:
  assumes "se_role (srv_heap s ! r) \<noteq> RoleHub"
  shows "srv_hubs (fst (hub_handle J C (Close r) s)) = srv_hubs s"
  using assms by (simp add: close_session_def drop_session_def gossipLocal_eq)

subsection \<open>Gossip that loses a route\<close>

text \<open>
  A restarted hub counts from 1 again: its peers ignore what it announces until it has announced
  more often than before the restart.
\<close>

lemma restarted_hub_ignored:
  assumes "seq_least peer (self_hex s) n" "srv_seq s + 1 \<le> n"
  shows "onGossip J r (fst (gossip_message s)) peer = (peer, [])"
  using assms by (intro onGossip_stale) (auto simp: gossip_message_eq intro: seq_least_mono)

text \<open>
  Gossip can make a route disappear: a hub C that knows a key only by hearsay from A, its
  single peer, announces the key as reachable through itself; A takes that over, even when it
  had a working route to the key, and from then on sends envelopes for the key to C alone,
  which has nowhere to send them.
\<close>

theorem gossip_blackhole:
  assumes "hub_inv c" "map_of (srv_where c) k = Some (self_hex a)" "self_hex a \<noteq> self_hex c"
    and "srv_hubs c = [(self_hex a, ra)]" "map_of (srv_spokes c) k = None"
    and "map_of (srv_hubs a) (self_hex c) = Some rc" "map_of (srv_spokes a) k = None"
    and "\<not> seq_least a (self_hex c) (srv_seq c + 1)" "mustHex (env_to env) = k" "src \<noteq> rc"
  shows "let a' = fst (onGossip J rc (fst (gossip_message c)) a); c' = snd (gossip_message c) in
    route_targets env src a' = [rc] \<and> route_targets env ra c' = []"
proof -
  let ?g = "fst (gossip_message c)"
  let ?a' = "fst (onGossip J rc ?g a)"
  have hk: "hex_keys (local_where c)" "distinct (map fst (local_where c))"
    using hub_inv_gossip [OF assms(1)] by (simp_all add: hub_inv_def)
  have lw: "map_of (local_where c) k = Some (self_hex a)"
    using assms(2,5) by (simp add: map_of_local_where map_of_eq_None_iff)
  from lw have "k \<in> (\<lambda>e. mustHex (ge_pub e)) ` set (pg_entries ?g)"
    using remote_entry_keys [OF hk, of c "local_xpubs c"] assms(3)
    by (auto simp: gossip_message_eq gossip_entries_def image_Un)
  moreover have "?a' = foldl (gossip_entry_in (self_hex c))
      (a\<lparr>srv_gseen := AList.update (self_hex c) (srv_seq c + 1) (srv_gseen a)\<rparr>) (pg_entries ?g)"
    using assms(8) by (auto simp: onGossip_def gossip_message_eq seq_least_def Let_def split: option.splits)
  ultimately have "map_of (srv_where ?a') k = Some (self_hex c)"
    and "srv_hubs ?a' = srv_hubs a" "srv_spokes ?a' = srv_spokes a"
    by (simp_all add: map_of_entries_where)
  then have "route_targets env src ?a' = [rc]"
    using assms(6,7,9,10) by (simp add: route_targets_def next_hop_def Let_def)
  moreover have "route_targets env ra (after_gossip c) = []"
    using lw assms(4,5,9) by (simp add: route_targets_def next_hop_def Let_def)
  moreover have "snd (gossip_message c) = after_gossip c"
    by (simp add: gossip_message_eq after_gossip_def)
  ultimately show ?thesis by (simp only: Let_def simp_thms)
qed

text \<open>The hubs 7 (A, which has a route to the key 3 through the hub 8) and 9 (C).\<close>

definition blackhole_a :: server where
  "blackhole_a =
     (register True (demo_session 8 RoleHub)
       (register True (demo_session 9 RoleHub) (NewServer (demo_identity 7) demo_config)))
       \<lparr>srv_where := [(mustHex (replicate 32 3), mustHex (replicate 32 8))]\<rparr>"

definition blackhole_c :: server where
  "blackhole_c =
     (register True (demo_session 7 RoleHub) (NewServer (demo_identity 9) demo_config))
       \<lparr>srv_where := [(mustHex (replicate 32 3), mustHex (replicate 32 7))]\<rparr>"

theorem gossip_blackhole_witness:
  "let env = demo_envelope\<lparr>env_to := replicate 32 3\<rparr>;
       a' = fst (onGossip run_json 0 (fst (gossip_message blackhole_c)) blackhole_a) in
   route_targets env 5 blackhole_a = [1] \<and> route_targets env 5 a' = [0] \<and>
   route_targets env 0 (snd (gossip_message blackhole_c)) = []"
proof -
  have inv: "hub_inv blackhole_c"
    using hub_inv_register [OF hub_inv_new, of True "demo_session 7 RoleHub" "demo_identity 9" demo_config]
    by (auto simp: blackhole_c_def hub_inv_def hex_keys_def)
  have a: "srv_hubs blackhole_a = [(mustHex (replicate 32 9), 0), (mustHex (replicate 32 8), 1)]"
    "srv_spokes blackhole_a = []" "srv_gseen blackhole_a = []" "srv_id blackhole_a = demo_identity 7"
    "srv_where blackhole_a = [(mustHex (replicate 32 3), mustHex (replicate 32 8))]"
    by (simp_all add: blackhole_a_def NewServer_def demo_session_def)
  have c: "srv_hubs blackhole_c = [(mustHex (replicate 32 7), 0)]" "srv_spokes blackhole_c = []"
    "srv_id blackhole_c = demo_identity 9"
    "srv_where blackhole_c = [(mustHex (replicate 32 3), mustHex (replicate 32 7))]"
    by (simp_all add: blackhole_c_def NewServer_def demo_session_def)
  have "route_targets (demo_envelope\<lparr>env_to := replicate 32 3\<rparr>) 5 blackhole_a = [1]"
    by (simp add: route_targets_def next_hop_def a)
  then show ?thesis
    using gossip_blackhole [OF inv, where a = blackhole_a and k = "mustHex (replicate 32 3)" and rc = 0
        and ra = 0 and env = "demo_envelope\<lparr>env_to := replicate 32 3\<rparr>" and J = run_json and src = 5]
    by (simp add: a c demo_identity_def seq_least_def Let_def)
qed

subsection \<open>The invite of a hub\<close>

lemma buildInvite_sel [simp]:
  "inv_version (buildInvite now s) = invite_version" "inv_pub_key (buildInvite now s) = copy32 (id_ed_pub (srv_id s))"
  "inv_expiry (buildInvite now s) = now + seven_days" "inv_name (buildInvite now s) = cfg_name (srv_cfg s)"
  "inv_cloud_seed (buildInvite now s) = cfg_cloud (srv_cfg s)"
  "inv_port (buildInvite now s) = word_of_int (cfg_port (srv_cfg s))"
  by (simp_all add: buildInvite_def Let_def)

text \<open>
  C33: The invite a hub prints leads back to it: with a public IPv6 address and its 32-byte key, the
  text encodes, decodes to the hub's key, address, port and class, carries an IPv4 address only
  when the hub claims one, and has not expired when it is made (until the year 2106).
\<close>

theorem hub_invite_works:
  assumes "cfg_public_v6 (srv_cfg s) = Some b" "length b = 16" "to4 (Some b) = None" "b \<noteq> replicate 16 0"
    and "length (id_ed_pub (srv_id s)) = 32" "id_ed_pub (srv_id s) \<noteq> replicate 32 0"
    and "0 \<le> now" "now + seven_days < 2 ^ 32 * second"
  shows "\<exists>str iv. encode_invite (buildInvite now s) = Inr str \<and> decode_invite U str r = Inr iv \<and>
    inv_pub_key iv = id_ed_pub (srv_id s) \<and> inv_ipv6 iv = Some b \<and>
    inv_port iv = port_or_default (word_of_int (cfg_port (srv_cfg s))) \<and>
    inv_cloud_seed iv = cfg_cloud (srv_cfg s) \<and> (cfg_claim_v4 (srv_cfg s) \<or> inv_ipv4 iv = None) \<and>
    \<not> Expired iv now"
proof -
  let ?iv = "buildInvite now s"
  have v6: "inv_ipv6 ?iv = Some b" using assms(1) by (simp add: buildInvite_def Let_def)
  have v4: "\<not> cfg_claim_v4 (srv_cfg s) \<Longrightarrow> inv_ipv4 ?iv = None" by (simp add: buildInvite_def Let_def)
  have wf: "wf_invite ?iv" using assms(5) by (simp add: wf_invite_def)
  have "marshal_ok ?iv" using assms(2-6) by (simp add: marshal_ok_def v6 invite_version_def to16_def)
  then obtain str where str: "encode_invite ?iv = Inr str" using encode_total by blast
  have c6: "canon_ipv6 (Some b) = Some b" using assms(2,4) by (simp add: canon_ipv6_def)
  have dec: "decode_invite U str r = Inr (canon_invite ?iv)"
    unfolding decode_encode [OF wf str] by (simp add: v6 c6)
  have sec: "0 < unix_seconds (now + seven_days)" "unix_seconds (now + seven_days) < 2 ^ 32"
    "now < time_unix (unix_seconds (now + seven_days))"
    using assms(7,8) by (simp_all add: unix_seconds_def time_unix_def seven_days_def second_def)
  then have "canon_expiry (now + seven_days) = time_unix (unix_seconds (now + seven_days))"
    using assms(7) by (simp add: canon_expiry_def Let_def zero_time_def seven_days_def second_def)
  with sec have "\<not> Expired (canon_invite ?iv) now"
    by (simp add: Expired_def canon_invite_def)
  moreover have "cfg_claim_v4 (srv_cfg s) \<or> inv_ipv4 (canon_invite ?iv) = None"
    by (cases "cfg_claim_v4 (srv_cfg s)") (simp_all add: canon_invite_def canon_ipv4_def v4)
  moreover have "inv_pub_key (canon_invite ?iv) = id_ed_pub (srv_id s)" "inv_ipv6 (canon_invite ?iv) = Some b"
    "inv_port (canon_invite ?iv) = port_or_default (word_of_int (cfg_port (srv_cfg s)))"
    "inv_cloud_seed (canon_invite ?iv) = cfg_cloud (srv_cfg s)"
    using assms(5) by (simp_all add: canon_invite_def v6 c6)
  ultimately show ?thesis using str dec by blast
qed

theorem hub_invite_works_witness:
  "\<exists>str iv. encode_invite (buildInvite 0 demo_hub_server) = Inr str \<and>
     decode_invite plain_unicode str None = Inr iv \<and> inv_pub_key iv = replicate 32 9"
proof -
  let ?b = "0x20 # 1 # replicate 13 0 @ [5] :: bytes"
  have cfg: "cfg_public_v6 (srv_cfg demo_hub_server) = Some ?b"
    and i: "id_ed_pub (srv_id demo_hub_server) = replicate 32 9"
    by (simp_all add: demo_hub_server_def NewServer_def demo_config_def demo_identity_def)
  have t: "to4 (Some ?b) = None" by (simp add: to4_def v4_in_v6_prefix_def)
  have n: "?b \<noteq> replicate 16 0" "(replicate 32 9 :: bytes) \<noteq> replicate 32 0"
    by (auto dest: arg_cong [where f = hd])
  have clk: "0 + seven_days < 2 ^ 32 * second" by (simp add: seven_days_def second_def)
  from hub_invite_works [OF cfg _ t n(1), of 0 plain_unicode None] n(2) clk show ?thesis
    by (simp add: i) blast
qed

end
