(* ===== verification/Spoke_Behaviour.thy ===== *)
theory Spoke_Behaviour
  imports Spoke_Client Hub_Gossip
begin

section \<open>The spoke: invariants and promises\<close>

text \<open>
  What holds in every reachable state of a spoke, which hub it connects to, which messages it
  shows, and what becomes of the messages it sends.
\<close>

subsection \<open>The invariant\<close>

definition peers_ok :: "bytes \<Rightarrow> (string \<times> peer_info) list \<Rightarrow> bool" where
  "peers_ok own ps \<longleftrightarrow> distinct (map fst ps) \<and>
     list_all (\<lambda>(k, p). k = mustHex (pi_ed p) \<and> pi_ed p \<noteq> own \<and> length (pi_x p) = 32) ps"

fun session_ok :: "crypto \<Rightarrow> session option \<Rightarrow> hello_ok option \<Rightarrow> bool" where
  "session_ok C None None \<longleftrightarrow> True"
| "session_ok C (Some se) (Some k) \<longleftrightarrow>
     hello_ok_verify C k \<and> se_role se = RoleHub \<and> se_ed se = hok_ed k \<and> se_x se = hok_x k"
| "session_ok C _ _ \<longleftrightarrow> False"

definition spoke_inv :: "spoke_env \<Rightarrow> spoke \<Rightarrow> bool" where
  "spoke_inv E s \<longleftrightarrow>
     peers_ok (id_ed_pub (sp_id s)) (sp_peers s) \<and> distinct (map fst (sp_failed s)) \<and>
     cache_inv (sp_cache s) \<and> queue_inv (sp_queue s, sp_disk s) \<and>
     session_ok (en_crypto E) (sp_sess s) (sp_hub_ok s)"

lemma length_zero32 [simp]: "length zero32 = 32"
  by (simp add: zero32_def)

lemma peers_ok_update:
  "peers_ok own ps \<Longrightarrow> pi_ed p \<noteq> own \<Longrightarrow> length (pi_x p) = 32 \<Longrightarrow>
    peers_ok own (AList.update (mustHex (pi_ed p)) p ps)"
  by (auto simp: peers_ok_def list_all_iff distinct_update dest!: in_update)

lemma peers_ok_own: "peers_ok own ps \<Longrightarrow> map_of ps (mustHex own) = None"
  by (auto simp: peers_ok_def list_all_iff map_of_eq_None_iff)

lemma peers_ok_learn: "peers_ok own ps \<Longrightarrow> peers_ok own (foldl (learn_entry own) ps es)"
proof (induction es arbitrary: ps)
  case (Cons e es)
  have "peers_ok own (learn_entry own ps e)"
    using Cons.prems peers_ok_update [of own ps "\<lparr>pi_ed = ge_pub e,
      pi_x = (if length (ge_x e) = 32 then ge_x e else zero32), pi_name = ge_name e\<rparr>"]
    by (simp add: learn_entry_def)
  then show ?case by (simp add: Cons.IH)
qed simp

lemma queue_inv_disk: "queue_inv (q, d) \<longleftrightarrow> queue_inv (q, d')"
  by (simp add: queue_inv_def)

lemma cache_inv_remember: "cache_inv c \<Longrightarrow> cache_inv (remember now h c)"
  using cac.step_inv [of c "(now, h)"] by (simp add: remember_step_def)

lemma candidates_frame:
  assumes "candidates E now s = (cands, s')"
  shows "s' = s\<lparr>sp_cache := sp_cache s'\<rparr>"
    "cache_inv (sp_cache s) \<Longrightarrow> cache_inv (sp_cache s')"
proof -
  define st where "st = foldl (invite_step (en_unicode E) now (sc_community (sp_cfg s)))"
  have s': "s' = s\<lparr>sp_cache := fst (st (sp_cache s, [], []) (sc_invites (sp_cfg s)))\<rparr>"
    using assms by (auto simp: candidates_def Let_def st_def split: prod.splits)
  then show "s' = s\<lparr>sp_cache := sp_cache s'\<rparr>" by simp
  have "cache_inv (fst a) \<Longrightarrow> cache_inv (fst (st a xs))" for a xs
    unfolding st_def
    by (induction xs arbitrary: a)
      (auto simp: invite_step_def Let_def cache_inv_remember split: sum.splits prod.splits)
  then show "cache_inv (sp_cache s) \<Longrightarrow> cache_inv (sp_cache s')" by (simp add: s')
qed

lemma queue_push_inv:
  "queue_inv (sp_queue s, sp_disk s) \<Longrightarrow>
     queue_inv (sp_queue (queue_push E env s), sp_disk (queue_push E env s))"
  using que.step_inv [of "(sp_queue s, sp_disk s)" "en_queue E" "en_write E" "Push (Some env)"]
  by (auto simp: queue_push_def split: prod.splits)

lemma queue_push_frame [simp]:
  "sp_id (queue_push E env s) = sp_id s" "sp_peers (queue_push E env s) = sp_peers s"
  "sp_failed (queue_push E env s) = sp_failed s" "sp_cache (queue_push E env s) = sp_cache s"
  "sp_sess (queue_push E env s) = sp_sess s" "sp_hub_ok (queue_push E env s) = sp_hub_ok s"
  "sp_cfg (queue_push E env s) = sp_cfg s"
  by (simp_all add: queue_push_def split: prod.splits)

lemma noteFail_inv: "spoke_inv E s \<Longrightarrow> spoke_inv E (noteFail now h s)"
  by (simp add: noteFail_def spoke_inv_def distinct_update)

lemma handshake_ok:
  assumes "handshake E answer h = Inr ok"
  shows "hello_ok_verify (en_crypto E) ok \<and> (length (ch_ed h) = 32 \<longrightarrow> hok_ed ok = ch_ed h)"
  using assms by (auto simp: handshake_def split: attempt.splits option.splits if_splits)

lemma connected_sel:
  assumes "connected E now proto rtt ok h s = (s', out)"
  shows "sp_hub_ok s' = Some ok" "sp_peers s' = sp_peers s" "sp_id s' = sp_id s" "sp_cfg s' = sp_cfg s"
    "\<exists>se. sp_sess s' = Some se \<and> se_role se = RoleHub \<and> se_ed se = hok_ed ok \<and> se_x se = hok_x ok"
  using assms by (auto simp: connected_def clearFail_def Let_def split: prod.splits)

lemma connected_queue:
  assumes "connected E now proto rtt ok h s = (s', out)"
  shows "sp_queue s' = (sp_queue s)\<lparr>q_items := []\<rparr>"
    "\<exists>b p. out = Banner b # ToHub (msgOf TypePresence p) #
       map (\<lambda>e. ToHub (msgOf TypeEnvelope (js_envelope (en_json E) e)))
         (List.map_filter id (q_items (sp_queue s)))"
proof -
  have pop: "q_pop_all J wr (q, d) = (List.map_filter id (q_items q), (q\<lparr>q_items := []\<rparr>, q_save J wr (q\<lparr>q_items := []\<rparr>) d))"
    for J wr q d
    using pop_out [of J wr "(q, d)"] by (simp add: q_pop_all_def Let_def)
  show "sp_queue s' = (sp_queue s)\<lparr>q_items := []\<rparr>"
    "\<exists>b p. out = Banner b # ToHub (msgOf TypePresence p) #
       map (\<lambda>e. ToHub (msgOf TypeEnvelope (js_envelope (en_json E) e)))
         (List.map_filter id (q_items (sp_queue s)))"
    using assms unfolding connected_def Let_def pop by (auto simp: clearFail_def)
qed

lemma connected_inv:
  assumes "spoke_inv E s" "hello_ok_verify (en_crypto E) ok" "connected E now proto rtt ok h s = (s', out)"
  shows "spoke_inv E s'"
proof -
  have "queue_inv (sp_queue s', sp_disk s')"
    using assms(1) connected_queue(1) [OF assms(3)] by (simp add: spoke_inv_def queue_inv_def)
  moreover have "cache_inv (sp_cache s')" "distinct (map fst (sp_failed s'))"
    using assms by (auto simp: connected_def clearFail_def Let_def spoke_inv_def cache_inv_remember
        distinct_delete split: prod.splits)
  ultimately show ?thesis
    using connected_sel [OF assms(3)] assms(1,2) by (auto simp: spoke_inv_def)
qed

text \<open>One candidate: dial it and shake hands.\<close>

definition hub_attempt ::
  "spoke_env \<Rightarrow> instant \<Rightarrow> bytes \<Rightarrow> os_dial \<Rightarrow> (cached_hub \<Rightarrow> attempt) \<Rightarrow> spoke \<Rightarrow> cached_hub
     \<Rightarrow> spoke_error + (string \<times> int \<times> hello_ok)" where
  "hub_attempt E now dropped os answer s h =
     (case dialHub os now (patience now dropped s h) h of
        None \<Rightarrow> Inl DialError
      | Some (p, t) \<Rightarrow> (case handshake E (answer h) h of Inl e \<Rightarrow> Inl e | Inr ok \<Rightarrow> Inr (p, t, ok)))"

lemma hub_attempt_Inr:
  "hub_attempt E now dropped os answer s h = Inr (p, t, ok) \<Longrightarrow> handshake E (answer h) h = Inr ok"
  by (auto simp: hub_attempt_def split: option.splits sum.splits)

lemma connect_loop_Cons:
  "connect_loop E now dropped os answer lst (h # hs) s =
     (case hub_attempt E now dropped os answer s h of
        Inr (p, t, ok) \<Rightarrow> (case connected E now p t ok h s of (s', out) \<Rightarrow> (Inr h, s', greet E now s # out))
      | Inl e \<Rightarrow>
          (if dialHub os now (patience now dropped s h) h = None
           then connect_loop E now dropped os answer (Some e) hs (noteFail now h s)
           else case connect_loop E now dropped os answer (Some e) hs s of
             (res, s', out) \<Rightarrow> (res, s', greet E now s # CloseConn # out)))"
  by (simp add: hub_attempt_def split: option.split sum.split)

declare connect_loop.simps(2) [simp del]

text \<open>What is written before a hub has answered: hellos, and the closing of connections.\<close>

definition only_hellos :: "spoke_out list \<Rightarrow> bool" where
  "only_hellos out \<longleftrightarrow> (\<forall>o1 \<in> set out. o1 = CloseConn \<or> (\<exists>b. o1 = ToHub (msgOf TypeHello b)))"

lemma only_hellos_simps [simp]:
  "only_hellos []" "only_hellos (CloseConn # out) \<longleftrightarrow> only_hellos out"
  "only_hellos (greet E now s # out) \<longleftrightarrow> only_hellos out"
  by (auto simp: only_hellos_def greet_def)

lemma greet_failed [simp]: "greet E now (s\<lparr>sp_failed := f\<rparr>) = greet E now s"
  by (simp add: greet_def)

lemma connect_loop_shape:
  "connect_loop E now dropped os answer lst hs s = (res, s', out) \<Longrightarrow>
     \<exists>f pre. only_hellos pre \<and> (case res of
       Inl e \<Rightarrow> s' = s\<lparr>sp_failed := f\<rparr> \<and> out = pre
     | Inr h \<Rightarrow> h \<in> set hs \<and> (\<exists>p t ok out1. handshake E (answer h) h = Inr ok \<and>
         connected E now p t ok h (s\<lparr>sp_failed := f\<rparr>) = (s', out1) \<and> out = pre @ greet E now s # out1))"
proof (induction hs arbitrary: lst s out)
  case Nil
  then show ?case by (intro exI [of _ "sp_failed s"] exI [of _ "[]"]) auto
next
  case (Cons h hs)
  show ?case
  proof (cases "hub_attempt E now dropped os answer s h")
    case (Inr b)
    obtain p t ok where b: "b = (p, t, ok)" by (cases b)
    with Inr Cons.prems hub_attempt_Inr [of E now dropped os answer s h p t ok] show ?thesis
      by (intro exI [of _ "sp_failed s"] exI [of _ "[]"]) (auto simp: connect_loop_Cons split: prod.splits; blast)
  next
    case (Inl e)
    show ?thesis
    proof (cases "dialHub os now (patience now dropped s h) h = None")
      case True
      with Inl Cons.prems have "connect_loop E now dropped os answer (Some e) hs (noteFail now h s) = (res, s', out)"
        by (simp add: connect_loop_Cons)
      from Cons.IH [OF this] obtain f pre where "only_hellos pre \<and> (case res of
         Inl e \<Rightarrow> s' = (noteFail now h s)\<lparr>sp_failed := f\<rparr> \<and> out = pre
       | Inr h' \<Rightarrow> h' \<in> set hs \<and> (\<exists>p t ok out1. handshake E (answer h') h' = Inr ok \<and>
           connected E now p t ok h' ((noteFail now h s)\<lparr>sp_failed := f\<rparr>) = (s', out1) \<and>
           out = pre @ greet E now (noteFail now h s) # out1))" by blast
      then show ?thesis
        by (intro exI [of _ f] exI [of _ pre]) (auto simp: noteFail_def split: sum.splits)
    next
      case False
      with Inl Cons.prems obtain out' where o: "out = greet E now s # CloseConn # out'"
        and "connect_loop E now dropped os answer (Some e) hs s = (res, s', out')"
        by (auto simp: connect_loop_Cons split: prod.splits)
      from Cons.IH [OF this(2)] obtain f pre where "only_hellos pre \<and> (case res of
         Inl e \<Rightarrow> s' = s\<lparr>sp_failed := f\<rparr> \<and> out' = pre
       | Inr h' \<Rightarrow> h' \<in> set hs \<and> (\<exists>p t ok out1. handshake E (answer h') h' = Inr ok \<and>
           connected E now p t ok h' (s\<lparr>sp_failed := f\<rparr>) = (s', out1) \<and>
           out' = pre @ greet E now s # out1))" by blast
      then show ?thesis
        by (intro exI [of _ f] exI [of _ "greet E now s # CloseConn # pre"]) (auto simp: o split: sum.splits)
    qed
  qed
qed

lemma connect_loop_inv:
  "spoke_inv E s \<Longrightarrow> spoke_inv E (fst (snd (connect_loop E now dropped os answer lst hs s)))"
proof (induction hs arbitrary: lst s)
  case (Cons h hs)
  note fail = Cons.IH [OF noteFail_inv [OF Cons.prems]] and rest = Cons.IH [OF Cons.prems]
  show ?case
  proof (cases "hub_attempt E now dropped os answer s h")
    case (Inl e)
    with fail rest [of "Some e"] show ?thesis by (auto simp: connect_loop_Cons split: prod.splits)
  next
    case (Inr b)
    obtain p t ok where b: "b = (p, t, ok)" by (cases b)
    note ok = hub_attempt_Inr [OF Inr [unfolded b], THEN handshake_ok, THEN conjunct1]
    from connected_inv [OF Cons.prems ok surjective_pairing, of now p t h] show ?thesis
      by (cases "connected E now p t ok h s") (simp add: connect_loop_Cons Inr b)
  qed
qed simp

lemma handleEnvelope_cases:
  assumes "handleEnvelope E env s = (s', out)" "out \<noteq> []"
  obtains p plain box where "env_verify (en_crypto E) env = None" "env_to env = id_ed_pub (sp_id s)"
    "map_of (sp_peers s) (mustHex (env_from env)) = Some p" "pi_x p \<noteq> zero32"
    "open_env (en_crypto E) (sp_id s) (pi_x p) env = Inr plain" "un_chat E plain = Some box"
    "out = [Show (Fingerprint (env_from env)) (cb_name box) (cb_text box)]"
    "s' = (if length (cb_x box) = 32 then
             s\<lparr>sp_peers := AList.update (mustHex (env_from env))
                 \<lparr>pi_ed = env_from env, pi_x = cb_x box, pi_name = cb_name box\<rparr> (sp_peers s)\<rparr>
           else s)"
  using assms
  by (auto simp: handleEnvelope_def tryOpen_def Let_def split: if_splits option.splits sum.splits)

lemma handleEnvelope_silent: "handleEnvelope E env s = (s', []) \<Longrightarrow> s' = s"
  by (auto simp: handleEnvelope_def Let_def split: if_splits option.splits sum.splits)

lemma handleEnvelope_inv: "spoke_inv E s \<Longrightarrow> spoke_inv E (fst (handleEnvelope E env s))"
proof -
  assume inv: "spoke_inv E s"
  obtain s' out where h: "handleEnvelope E env s = (s', out)" by fastforce
  show ?thesis
  proof (cases "out = []")
    case True
    with h inv handleEnvelope_silent show ?thesis by fastforce
  next
    case False
    with h show ?thesis
    proof (rule handleEnvelope_cases)
      fix p plain and box :: chat_box
      let ?p = "\<lparr>pi_ed = env_from env, pi_x = cb_x box, pi_name = cb_name box\<rparr>"
      assume p: "map_of (sp_peers s) (mustHex (env_from env)) = Some p"
        and s': "s' = (if length (cb_x box) = 32 then
          s\<lparr>sp_peers := AList.update (mustHex (env_from env)) ?p (sp_peers s)\<rparr> else s)"
      have "env_from env \<noteq> id_ed_pub (sp_id s)"
        using p peers_ok_own [of "id_ed_pub (sp_id s)" "sp_peers s"] inv by (auto simp: spoke_inv_def)
      then have "length (cb_x box) = 32 \<Longrightarrow>
          peers_ok (id_ed_pub (sp_id s)) (AList.update (mustHex (env_from env)) ?p (sp_peers s))"
        using peers_ok_update [of "id_ed_pub (sp_id s)" "sp_peers s" ?p] inv by (simp add: spoke_inv_def)
      then show ?thesis using inv by (simp add: h s' spoke_inv_def)
    qed
  qed
qed


lemma spoke_read_inv: "spoke_inv E s \<Longrightarrow> spoke_inv E (fst (spoke_read E now dump m s))"
proof -
  assume inv: "spoke_inv E s"
  define u where "u = (if sc_capture (sp_cfg s) then s\<lparr>sp_dump := dump\<rparr> else s)"
  have u: "spoke_inv E u" using inv by (simp add: u_def spoke_inv_def)
  have pong: "spoke_inv E (u\<lparr>sp_sess := map_option (se_rtt_update f) (sp_sess u)\<rparr>)" for f
    using u by (cases "sp_sess u"; cases "sp_hub_ok u") (simp_all add: spoke_inv_def)
  have gossip: "spoke_inv E (u\<lparr>sp_peers := foldl (learn_entry (id_ed_pub (sp_id u))) (sp_peers u) es\<rparr>)" for es
    using u peers_ok_learn by (simp add: spoke_inv_def)
  show ?thesis
    using u pong gossip handleEnvelope_inv [OF u]
    by (simp add: spoke_read_def Let_def flip: u_def split: option.splits)
qed

lemma spoke_send_inv:
  "spoke_inv E s \<Longrightarrow> spoke_inv E (fst (snd (spoke_send E rn ri now ok ed x msg s)))"
  using queue_push_inv [of s E]
  by (auto simp: spoke_send_def Let_def spoke_inv_def split: sum.splits option.splits)

lemma SendToName_inv:
  "spoke_inv E s \<Longrightarrow> spoke_inv E (fst (snd (SendToName E rn ri now ok name msg s)))"
  using spoke_send_inv by (auto simp: SendToName_def split: option.splits)

lemma candidates_inv: "spoke_inv E s \<Longrightarrow> candidates E now s = (cands, s') \<Longrightarrow> spoke_inv E s'"
proof -
  assume "spoke_inv E s" and c: "candidates E now s = (cands, s')"
  then have "spoke_inv E (s\<lparr>sp_cache := sp_cache s'\<rparr>)"
    using candidates_frame(2) [OF c] by (simp add: spoke_inv_def)
  then show ?thesis using candidates_frame(1) [OF c] by metis
qed

lemma connect_start_inv: "spoke_inv E s \<Longrightarrow> spoke_inv E (fst (snd (connect_start E now os answer s)))"
  using candidates_inv connect_loop_inv by (auto simp: connect_start_def split: prod.splits)

lemma disconnected_inv: "spoke_inv E s \<Longrightarrow> spoke_inv E (fst (snd (disconnected now h fin s)))"
proof -
  assume "spoke_inv E s"
  then have "spoke_inv E (s\<lparr>sp_sess := None, sp_hub_ok := None\<rparr>)" by (simp add: spoke_inv_def)
  then show ?thesis by (simp add: disconnected_def noteFail_inv Let_def)
qed

lemma spoke_handle_inv: "spoke_inv E s \<Longrightarrow> spoke_inv E (fst (spoke_handle E ev s))"
proof (cases ev)
  case (Learn iv)
  then show "spoke_inv E s \<Longrightarrow> ?thesis" by (simp add: AddInvite_def spoke_inv_def)
qed (simp_all add: connect_start_inv spoke_read_inv disconnected_inv spoke_send_inv SendToName_inv)

interpretation spk: stepper "\<lambda>s ev. fst (spoke_handle E ev s)" "spoke_inv E"
  by unfold_locales (rule spoke_handle_inv)

lemma spoke_step_inv: "spoke_step E s ev out s' \<Longrightarrow> spoke_inv E s \<Longrightarrow> spoke_inv E s'"
  using spoke_handle_inv [of E s ev] by (simp add: spoke_step_iff)

lemma spoke_run_inv: "spoke_run E s tr s' \<Longrightarrow> spoke_inv E s \<Longrightarrow> spoke_inv E s'"
  by (induction rule: spoke_run.induct) (auto intro: spoke_step_inv)

lemma spoke_new_inv:
  assumes "\<And>x. c = Some x \<Longrightarrow> cache_inv x" "\<And>x. q = Some x \<Longrightarrow> queue_inv (x, d)" "d [] = None"
  shows "spoke_inv E (NewSpoke i cfg c q d E)"
proof -
  have "cache_inv (open_cache J d [])" "queue_inv (open_queue K d [] 1000, d)" for J K
    using assms(3) by (simp_all add: open_cache_def open_queue_def cache_inv_def queue_inv_def)
  then show ?thesis
    using assms(1,2) by (auto simp: NewSpoke_def spoke_inv_def peers_ok_def split: option.splits)
qed

lemma connect_loop_id [simp]: "sp_id (fst (snd (connect_loop E now dropped os answer lst hs s))) = sp_id s"
proof -
  obtain res s' out where r: "connect_loop E now dropped os answer lst hs s = (res, s', out)"
    by (metis prod.collapse)
  from connect_loop_shape [OF r] connected_sel(3) show ?thesis
    by (fastforce simp: r split: sum.splits)
qed

lemma candidates_id [simp]: "sp_id (snd (candidates E now s)) = sp_id s"
  by (simp add: candidates_def Let_def split: prod.splits)

lemma handleEnvelope_id [simp]: "sp_id (fst (handleEnvelope E env s)) = sp_id s"
  by (simp add: handleEnvelope_def Let_def split: option.split sum.split)

lemma spoke_send_id [simp]: "sp_id (fst (snd (spoke_send E rn ri now ok ed x msg s))) = sp_id s"
  by (simp add: spoke_send_def Let_def split: option.split sum.split)

lemma spoke_read_id [simp]: "sp_id (fst (spoke_read E now dump m s)) = sp_id s"
  by (simp add: spoke_read_def Let_def split: option.split)

lemma spoke_handle_id: "sp_id (fst (spoke_handle E ev s)) = sp_id s"
proof (cases ev)
  case (TryHubs now os answer)
  then show ?thesis
    using candidates_id [of E now s] by (cases "candidates E now s") (auto simp: connect_start_def)
next
  case (SendName rn ri now ok name msg)
  then show ?thesis by (simp add: SendToName_def split: option.split)
qed (simp_all add: disconnected_def noteFail_def AddInvite_def Let_def)


subsection \<open>Which hub is connected\<close>

lemma failKey_port: "hubFailKey h = dial_key h @ ''|'' @ decimal (unat (ch_port h))"
  by (simp add: hubFailKey_def dial_key_def)

lemma bar_split:
  "CHR ''|'' \<notin> set b \<Longrightarrow> CHR ''|'' \<notin> set d \<Longrightarrow> a @ CHR ''|'' # b = c @ CHR ''|'' # d \<Longrightarrow> a = c"
proof -
  assume "CHR ''|'' \<notin> set b" "CHR ''|'' \<notin> set d" "a @ CHR ''|'' # b = c @ CHR ''|'' # d"
  then have "dropWhile (\<lambda>x. x \<noteq> CHR ''|'') (rev b @ CHR ''|'' # rev a) =
      dropWhile (\<lambda>x. x \<noteq> CHR ''|'') (rev d @ CHR ''|'' # rev c)"
    by (metis append.assoc append_Cons append_Nil rev.simps(2) rev_append)
  moreover have "dropWhile (\<lambda>x. x \<noteq> CHR ''|'') (rev y @ CHR ''|'' # rev x) = CHR ''|'' # rev x"
    if "CHR ''|'' \<notin> set y" for x y
    using that by (subst dropWhile_append2) auto
  ultimately have "CHR ''|'' # rev a = CHR ''|'' # rev c"
    using \<open>CHR ''|'' \<notin> set b\<close> \<open>CHR ''|'' \<notin> set d\<close> by simp
  then show "a = c" by simp
qed

lemma decimal_no_bar: "CHR ''|'' \<notin> set (decimal n)"
  using decimal_digits [of "CHR ''|''" n] by auto

lemma failKey_dial_key: "hubFailKey h = hubFailKey h' \<Longrightarrow> dial_key h = dial_key h'"
  using bar_split [OF decimal_no_bar decimal_no_bar] by (simp add: failKey_port)

lemma hub_attempt_noteFail:
  "hubFailKey h' \<noteq> hubFailKey h \<Longrightarrow>
     hub_attempt E now dropped os answer (noteFail now' h s) h' = hub_attempt E now dropped os answer s h'"
  by (simp add: hub_attempt_def patience_def recentFail_def noteFail_def update_conv')

lemma connect_loop_Cons_fst:
  "fst (connect_loop E now dropped os answer lst (h # hs) s) =
     (case hub_attempt E now dropped os answer s h of
        Inr _ \<Rightarrow> Inr h
      | Inl e \<Rightarrow> fst (connect_loop E now dropped os answer (Some e) hs
          (if dialHub os now (patience now dropped s h) h = None then noteFail now h s else s)))"
  by (simp add: connect_loop_Cons split: sum.split prod.split)

lemma connect_loop_result:
  assumes "distinct (map hubFailKey hs)"
  shows "fst (connect_loop E now dropped os answer lst hs s) =
    (case find (\<lambda>h. \<not> isl (hub_attempt E now dropped os answer s h)) hs of
       Some h \<Rightarrow> Inr h
     | None \<Rightarrow> Inl (if hs = [] then (case lst of None \<Rightarrow> AllFailed | Some e \<Rightarrow> e)
                    else projl (hub_attempt E now dropped os answer s (last hs))))"
  using assms
proof (induction hs arbitrary: lst s)
  case (Cons h hs)
  let ?a = "hub_attempt E now dropped os answer"
  have d: "distinct (map hubFailKey hs)" using Cons.prems by simp
  have "h' \<in> set hs \<Longrightarrow> ?a (noteFail now h s) h' = ?a s h'" for h'
    using Cons.prems by (intro hub_attempt_noteFail) (metis distinct.simps(2) image_eqI list.set_map list.simps(9))
  then have f: "find (\<lambda>x. \<not> isl (?a (noteFail now h s) x)) hs = find (\<lambda>x. \<not> isl (?a s x)) hs"
    "hs \<noteq> [] \<Longrightarrow> ?a (noteFail now h s) (last hs) = ?a s (last hs)"
    by (auto cong: find_cong)
  show ?case
    using Cons.IH [OF d] f
    by (cases "?a s h") (simp_all add: connect_loop_Cons_fst split: option.split)
qed simp


lemma distinct_map_finer:
  "distinct (map f xs) \<Longrightarrow> (\<And>x y. g x = g y \<Longrightarrow> f x = f y) \<Longrightarrow> distinct (map g xs)"
  by (auto simp: distinct_map intro: inj_onI dest: inj_onD)

text \<open>What \<open>candidates\<close> hands to \<open>DialOrder\<close>, before the recent failures are moved behind.\<close>

definition spoke_dial_order :: "spoke_env \<Rightarrow> instant \<Rightarrow> spoke \<Rightarrow> cached_hub list" where
  "spoke_dial_order E now s =
     (case foldl (invite_step (en_unicode E) now (sc_community (sp_cfg s))) (sp_cache s, [], []) (sc_invites (sp_cfg s)) of
        (c, fresh, seeds) \<Rightarrow>
          DialOrder
            (if sp_sess s \<noteq> None \<and> sp_hub_ok s \<noteq> None then
               [empty_hub\<lparr>ch_name := hok_name (the (sp_hub_ok s)), ch_ed := hok_ed (the (sp_hub_ok s)), ch_source := SrcOpen\<rparr>]
             else [])
            (cache_list (sp_cache s)) (sc_community (sp_cfg s))
            (fresh @ (if sc_manual_v6 (sp_cfg s) = [] then [] else
               [empty_hub\<lparr>ch_v6 := sc_manual_v6 (sp_cfg s), ch_port := port_or_default (sc_manual_port (sp_cfg s)),
                          ch_source := SrcInvite, ch_ed := sc_manual_key (sp_cfg s)\<rparr>]))
            (seeds @ sc_seeds (sp_cfg s)))"

lemma candidates_order:
  "fst (candidates E now s) = filter (\<lambda>h. \<not> recentFail now s h) (spoke_dial_order E now s) @
      filter (recentFail now s) (spoke_dial_order E now s)"
proof -
  have rf: "recentFail now (s\<lparr>sp_cache := c\<rparr>) = recentFail now s" for c
    by (simp add: recentFail_def fun_eq_iff)
  show ?thesis
    by (cases "sp_sess s"; cases "sp_hub_ok s")
      (simp_all add: candidates_def spoke_dial_order_def Let_def rf split: prod.split)
qed

lemma candidates_distinct: "distinct (map dial_key (fst (candidates E now s)))"
proof -
  have "distinct (map dial_key (spoke_dial_order E now s))"
    using first_by_keys [of dial_key "{}"] by (simp add: spoke_dial_order_def DialOrder_first_by split: prod.split)
  then show ?thesis
    by (auto simp: candidates_order distinct_map inj_on_def)
qed

lemma candidates_distinct_fail: "distinct (map hubFailKey (fst (candidates E now s)))"
  by (rule distinct_map_finer [OF candidates_distinct failKey_dial_key])

subsection \<open>Properties\<close>

text \<open>
  C9: A spoke connects to the first candidate that answers: the candidates are tried in their
  order, each with its own patience, and the first that can be dialled and completes the
  handshake is the hub of the session; when there is none the error is that of the last
  candidate. The session's key is the one in the verified hello and equals the key the
  candidate was known under, when it had one.
\<close>

theorem spoke_first_hub:
  assumes "candidates E now s = (cands, s1)" "cands \<noteq> []"
    and "att = hub_attempt E now (case sp_sess s1 of None \<Rightarrow> [] | Some se \<Rightarrow> se_ed se) os answer s1"
  shows "case find (\<lambda>h. \<not> isl (att h)) cands of
      None \<Rightarrow> fst (connect_start E now os answer s) = Inl (projl (att (last cands)))
    | Some h \<Rightarrow> fst (connect_start E now os answer s) = Inr h \<and>
        (\<exists>ok se. sp_sess (fst (snd (connect_start E now os answer s))) = Some se \<and>
           hello_ok_verify (en_crypto E) ok \<and> se_ed se = hok_ed ok \<and>
           (length (ch_ed h) = 32 \<longrightarrow> se_ed se = ch_ed h))"
proof -
  let ?d = "case sp_sess s1 of None \<Rightarrow> [] | Some se \<Rightarrow> se_ed se"
  have start: "connect_start E now os answer s = connect_loop E now ?d os answer None cands s1"
    using assms(1,2) by (simp add: connect_start_def)
  obtain res s' out where r: "connect_loop E now ?d os answer None cands s1 = (res, s', out)"
    by (metis prod.collapse)
  have "distinct (map hubFailKey cands)"
    using candidates_distinct_fail [of E now s] assms(1) by simp
  note res = connect_loop_result [OF this, of E now ?d os answer None s1, folded assms(3), unfolded r fst_conv]
  show ?thesis
  proof (cases "find (\<lambda>h. \<not> isl (att h)) cands")
    case (Some h)
    with res have h: "res = Inr h" by simp
    from connect_loop_shape [OF r] obtain f p t ok o1 where
      ok: "handshake E (answer h) h = Inr ok" and c: "connected E now p t ok h (s1\<lparr>sp_failed := f\<rparr>) = (s', o1)"
      by (auto simp: h)
    from connected_sel(5) [OF c] handshake_ok [OF ok] show ?thesis
      by (auto simp: Some start r h; metis)
  qed (use res assms(2) in \<open>simp add: start r\<close>)
qed

lemma run_waits_errors:
  "run_waits (if n = 0 then 0 else int (min (2 ^ (n - 1)) 20) * second) (map Some es) =
     map (\<lambda>i. int (min (2 ^ i) 20) * second) [n..<n + length es]"
proof (induction es arbitrary: n)
  case (Cons e es)
  have b: "next_backoff (if n = 0 then 0 else int (min (2 ^ (n - 1)) 20) * second) = int (min (2 ^ n) 20) * second"
  proof (cases n)
    case (Suc m)
    then show ?thesis by (auto simp: next_backoff_def Let_def second_def min_def)
  qed (simp add: next_backoff_def second_def)
  have u: "[n..<n + length (e # es)] = n # [Suc n..<Suc n + length es]"
    by (simp add: upt_conv_Cons del: upt_Suc)
  have "run_waits (int (min (2 ^ n) 20) * second) (map Some es) =
      map (\<lambda>i. int (min (2 ^ i) 20) * second) [Suc n..<Suc n + length es]"
    using Cons.IH [of "Suc n"] by (simp only: nat.distinct if_False diff_Suc_1)
  then show ?case unfolding u by (simp only: list.map run_waits.simps b)
qed simp

lemma connectOnce_error: "fst (connectOnce E now os answer reads now' fin s) \<noteq> None"
  by (simp add: connectOnce_def disconnected_def Let_def split: prod.split sum.split)

text \<open>
  C30: The waits between attempts are 1, 2, 4, 8, 16 and then always 20 seconds. \<open>connectOnce\<close>
  always returns an error, also when a session that worked has ended, so a nil result, which
  alone would start the sequence again, never happens: after five lost sessions a spoke waits
  twenty seconds before every reconnection, however long the last session lasted.
\<close>

theorem spoke_backoff:
  assumes "list_all (\<lambda>r. \<exists>E now os answer reads now' fin s. r = fst (connectOnce E now os answer reads now' fin s)) rs"
  shows "run_waits 0 rs = map (\<lambda>i. int (min (2 ^ i) 20) * second) [0..<length rs]"
proof -
  have "r \<noteq> None" if "r \<in> set rs" for r
  proof -
    from assms that obtain E now os answer reads now' fin s where "r = fst (connectOnce E now os answer reads now' fin s)"
      unfolding list_all_iff by blast
    then show ?thesis using connectOnce_error by metis
  qed
  then have "None \<notin> set rs" by blast
  then obtain es where "rs = map Some es"
    by (metis ex_map_conv not_None_eq)
  then show ?thesis using run_waits_errors [of 0 es] by simp
qed

subsection \<open>Sending\<close>

lemma offline_send:
  assumes "sp_sess s = None"
    and "seal (en_crypto E) rn ri ts (sp_id s) x ed EnvChat
      (js_chat E \<lparr>cb_text = msg, cb_name = id_name (sp_id s), cb_x = id_x_pub (sp_id s)\<rparr>) = Inr e"
  shows "spoke_send E rn ri ts ok ed x msg s = (Some ErrNoHub, queue_push E e s, [Banner err_no_hub_text])"
  using assms by (simp add: spoke_send_def)

lemma queue_push_items:
  "q_items (sp_queue (queue_push E e s)) = lastn (q_max (sp_queue s)) (q_items (sp_queue s) @ [Some e])"
  "q_max (sp_queue (queue_push E e s)) = q_max (sp_queue s)"
  using push_items [of "en_queue E" "en_write E" "Some e" "(sp_queue s, sp_disk s)"]
    push_frame(1) [of "en_queue E" "en_write E" "Some e" "(sp_queue s, sp_disk s)"]
  by (cases "q_push (en_queue E) (en_write E) (Some e) (sp_queue s, sp_disk s)"; simp add: queue_push_def)+

text \<open>A message to send: the two readings of the random source, the time, the addressee, the text.\<close>

record outgoing =
  og_nonce :: "bytes option"
  og_id :: "bytes option"
  og_ts :: "64 word"
  og_ed :: bytes
  og_x :: bytes
  og_text :: string

definition og_seal :: "spoke_env \<Rightarrow> identity \<Rightarrow> outgoing \<Rightarrow> env_error + envelope" where
  "og_seal E i g = seal (en_crypto E) (og_nonce g) (og_id g) (og_ts g) i (og_x g) (og_ed g) EnvChat
     (js_chat E \<lparr>cb_text = og_text g, cb_name = id_name i, cb_x = id_x_pub i\<rparr>)"

definition og_send :: "spoke_env \<Rightarrow> spoke \<Rightarrow> outgoing \<Rightarrow> spoke" where
  "og_send E s g =
     fst (snd (spoke_send E (og_nonce g) (og_id g) (og_ts g) True (og_ed g) (og_x g) (og_text g) s))"

lemma offline_sends:
  assumes "queue_inv (sp_queue s, sp_disk s)" "sp_sess s = None" "list_all2 (\<lambda>g e. og_seal E (sp_id s) g = Inr e) gs es"
  shows "let t = foldl (og_send E) s gs in sp_sess t = None \<and> sp_id t = sp_id s \<and>
    q_max (sp_queue t) = q_max (sp_queue s) \<and>
    q_items (sp_queue t) = lastn (q_max (sp_queue s)) (q_items (sp_queue s) @ map Some es)"
  using assms
proof (induction gs arbitrary: s es)
  case Nil
  then show ?case by (simp add: queue_inv_def)
next
  case (Cons g gs)
  then obtain e es' where es: "es = e # es'" and e: "og_seal E (sp_id s) g = Inr e"
    and rest: "list_all2 (\<lambda>g e. og_seal E (sp_id s) g = Inr e) gs es'"
    by (auto simp: list_all2_Cons1)
  have "og_send E s g = queue_push E e s"
    using Cons.prems(2) e by (simp add: og_send_def og_seal_def offline_send)
  then have fold: "foldl (og_send E) s (g # gs) = foldl (og_send E) (queue_push E e s) gs" by simp
  note IH = Cons.IH [OF queue_push_inv [OF Cons.prems(1), of E e]]
  show ?case
    unfolding fold
    using IH rest Cons.prems(2)
    by (simp add: es queue_push_items lastn_lastn_append Let_def)
qed


fun envelopes_in :: "spoke_out list \<Rightarrow> message list" where
  "envelopes_in [] = []"
| "envelopes_in (ToHub m # out) = (if msg_type m = TypeEnvelope then m # envelopes_in out else envelopes_in out)"
| "envelopes_in (_ # out) = envelopes_in out"

lemma envelopes_in_append [simp]: "envelopes_in (a @ b) = envelopes_in a @ envelopes_in b"
  by (induction a rule: envelopes_in.induct) simp_all

lemma envelopes_in_hellos: "only_hellos out \<Longrightarrow> envelopes_in (out @ greet E now s # out1) = envelopes_in out1"
proof -
  have greet: "envelopes_in (greet E now s # out1) = envelopes_in out1"
    by (simp add: greet_def type_consts)
  have "only_hellos out \<Longrightarrow> envelopes_in (out @ r) = envelopes_in r" for r
    by (induction out) (auto simp: only_hellos_def type_consts)
  then show "only_hellos out \<Longrightarrow> ?thesis" using greet by simp
qed

lemma envelopes_in_map [simp]:
  "envelopes_in (map (\<lambda>e. ToHub (msgOf TypeEnvelope (f e))) es) = map (\<lambda>e. msgOf TypeEnvelope (f e)) es"
  by (induction es) simp_all

lemma candidates_queue: "candidates E now s = (cands, s') \<Longrightarrow> sp_queue s' = sp_queue s"
  by (auto simp: candidates_def Let_def split: prod.splits)

lemma connect_flush:
  assumes "connect_start E now os answer s = (Inr h, s', out)"
  shows "envelopes_in out = map (\<lambda>e. msgOf TypeEnvelope (js_envelope (en_json E) e))
      (List.map_filter id (q_items (sp_queue s)))"
    "q_items (sp_queue s') = []"
proof -
  obtain cands s1 where c: "candidates E now s = (cands, s1)" by fastforce
  then obtain d where l: "connect_loop E now d os answer None cands s1 = (Inr h, s', out)"
    using assms by (auto simp: connect_start_def split: if_splits)
  from connect_loop_shape [OF l] obtain f pre p t ok o2 where
    conn: "connected E now p t ok h (s1\<lparr>sp_failed := f\<rparr>) = (s', o2)"
    and pre: "only_hellos pre" and out: "out = pre @ greet E now s1 # o2"
    by auto
  note q = connected_queue [OF conn]
  show "q_items (sp_queue s') = []" using q(1) by simp
  obtain b m where o2: "o2 = Banner b # ToHub (msgOf TypePresence m) #
       map (\<lambda>e. ToHub (msgOf TypeEnvelope (js_envelope (en_json E) e)))
         (List.map_filter id (q_items (sp_queue s)))"
    using q(2) candidates_queue [OF c] by auto
  have "TypePresence \<noteq> TypeEnvelope" by (simp add: type_consts)
  then show "envelopes_in out = map (\<lambda>e. msgOf TypeEnvelope (js_envelope (en_json E) e))
      (List.map_filter id (q_items (sp_queue s)))"
    unfolding out envelopes_in_hellos [OF pre] o2 by simp
qed

text \<open>
  C5: Store and forward: messages sent while there is no hub are sealed at once and kept, and
  the next connection sends the last \<open>max\<close> of them, together with what was queued before, in
  the order they were written, after announcing the spoke; the queue is then empty. (It is
  emptied before the hub has received anything: the errors of these writes are ignored.)
\<close>

theorem spoke_store_forward:
  assumes "queue_inv (sp_queue s, sp_disk s)" "sp_sess s = None"
    and "list_all2 (\<lambda>g e. og_seal E (sp_id s) g = Inr e) gs es"
    and "connect_start E now os answer (foldl (og_send E) s gs) = (Inr h, s', out)"
  shows "envelopes_in out = map (\<lambda>e. msgOf TypeEnvelope (js_envelope (en_json E) e))
      (List.map_filter id (lastn (q_max (sp_queue s)) (q_items (sp_queue s) @ map Some es))) \<and>
    q_items (sp_queue s') = []"
  using connect_flush [OF assms(4)] offline_sends [OF assms(1-3)] by (simp add: Let_def)


subsection \<open>What is shown\<close>

fun shows_text :: "spoke_out \<Rightarrow> bool" where
  "shows_text (Show _ _ _) = True"
| "shows_text _ = False"

lemma no_show_connect: "o1 \<in> set (snd (snd (connect_start E now os answer s))) \<Longrightarrow> \<not> shows_text o1"
proof (cases "candidates E now s")
  case (Pair cands s1)
  assume o: "o1 \<in> set (snd (snd (connect_start E now os answer s)))"
  show ?thesis
  proof (cases "cands = []")
    case False
    obtain res s' out d where l: "connect_loop E now d os answer None cands s1 = (res, s', out)"
      and st: "connect_start E now os answer s = (res, s', out)"
      using Pair False by (cases "connect_loop E now (case sp_sess s1 of None \<Rightarrow> [] | Some se \<Rightarrow> se_ed se) os answer None cands s1")
        (simp add: connect_start_def)
    from connect_loop_shape [OF l] connected_queue(2) o show ?thesis
      by (fastforce simp: st only_hellos_def greet_def split: sum.splits)
  qed (use o Pair in \<open>simp add: connect_start_def\<close>)
qed

lemma no_show_send: "o1 \<in> set (snd (snd (spoke_send E rn ri now ok ed x msg s))) \<Longrightarrow> \<not> shows_text o1"
  by (auto simp: spoke_send_def Let_def split: sum.splits option.splits if_splits)

lemma show_handle:
  assumes "Show fp name body \<in> set (snd (spoke_handle E ev s))"
  shows "\<exists>now dump m env. ev = Arrive now dump m \<and> msg_type m = TypeEnvelope \<and>
    un_envelope (en_json E) (msg_body m) = Some env \<and>
    Show fp name body \<in> set (snd (handleEnvelope E env (if sc_capture (sp_cfg s) then s\<lparr>sp_dump := dump\<rparr> else s)))"
proof (cases ev)
  case (TryHubs now os answer)
  with assms no_show_connect show ?thesis by fastforce
next
  case (SendTo rn ri now ok ed x msg)
  with assms no_show_send show ?thesis by fastforce
next
  case (SendName rn ri now ok name' msg)
  with assms no_show_send show ?thesis by (fastforce simp: SendToName_def split: option.splits if_splits)
next
  case (Arrive now dump m)
  with assms show ?thesis
    by (auto simp: spoke_read_def Let_def split: if_splits option.splits)
qed (use assms in \<open>auto simp: disconnected_def Let_def\<close>)


text \<open>
  C3: Whatever a spoke shows as a message was meant for it: in every reachable state, a text is
  shown only on the arrival of an envelope that is signed by its sender, is addressed to this
  spoke, does not come from the spoke itself, and opens with the box key on record for exactly
  that sender; the fingerprint shown is the sender's, name and text are those of the sealed box.
\<close>

theorem spoke_opens_only_addressed:
  assumes "spoke_inv E s0" "spoke_run E s0 tr s" "spoke_step E s ev out s'" "Show fp name body \<in> set out"
  shows "\<exists>now dump m env p plain box. ev = Arrive now dump m \<and> msg_type m = TypeEnvelope \<and>
    un_envelope (en_json E) (msg_body m) = Some env \<and> env_verify (en_crypto E) env = None \<and>
    env_to env = id_ed_pub (sp_id s) \<and> env_from env \<noteq> id_ed_pub (sp_id s) \<and>
    map_of (sp_peers s) (mustHex (env_from env)) = Some p \<and> pi_ed p = env_from env \<and>
    open_env (en_crypto E) (sp_id s) (pi_x p) env = Inr plain \<and> un_chat E plain = Some box \<and>
    fp = Fingerprint (env_from env) \<and> name = cb_name box \<and> body = cb_text box \<and> out = [Show fp name body]"
proof -
  have inv: "spoke_inv E s" by (rule spoke_run_inv [OF assms(2,1)])
  have out: "out = snd (spoke_handle E ev s)" using assms(3) by (simp add: spoke_step_iff)
  from show_handle [of fp name body E ev s] assms(4) obtain now dump m env where
    ev: "ev = Arrive now dump m" and ty: "msg_type m = TypeEnvelope"
    and env: "un_envelope (en_json E) (msg_body m) = Some env"
    and sh: "Show fp name body \<in> set (snd (handleEnvelope E env (if sc_capture (sp_cfg s) then s\<lparr>sp_dump := dump\<rparr> else s)))"
    unfolding out by blast
  define u where "u = (if sc_capture (sp_cfg s) then s\<lparr>sp_dump := dump\<rparr> else s)"
  have u: "sp_id u = sp_id s" "sp_peers u = sp_peers s" by (simp_all add: u_def)
  have out': "out = snd (handleEnvelope E env u)"
    by (simp add: out ev spoke_read_def ty env type_consts Let_def flip: u_def)
  have "snd (handleEnvelope E env u) \<noteq> []" using sh by (auto simp flip: u_def)
  with surjective_pairing [of "handleEnvelope E env u"] show ?thesis
  proof (rule handleEnvelope_cases)
    fix p plain box
    assume v: "env_verify (en_crypto E) env = None" "env_to env = id_ed_pub (sp_id u)"
      and p: "map_of (sp_peers u) (mustHex (env_from env)) = Some p"
      and op: "open_env (en_crypto E) (sp_id u) (pi_x p) env = Inr plain" "un_chat E plain = Some box"
      and o: "snd (handleEnvelope E env u) = [Show (Fingerprint (env_from env)) (cb_name box) (cb_text box)]"
    have "mustHex (env_from env) = mustHex (pi_ed p) \<and> pi_ed p \<noteq> id_ed_pub (sp_id s)"
      using inv map_of_SomeD [OF p] unfolding u
      by (auto simp: spoke_inv_def peers_ok_def list_all_iff)
    then have "pi_ed p = env_from env" "env_from env \<noteq> id_ed_pub (sp_id s)" by auto
    moreover have "fp = Fingerprint (env_from env)" "name = cb_name box" "body = cb_text box"
      using sh o by (auto simp flip: u_def)
    moreover have "out = [Show fp name body]" using out' o calculation by simp
    ultimately show ?thesis using ev ty env v p op unfolding u by blast
  qed
qed

subsection \<open>A concrete spoke for the witnesses\<close>

definition demo_plain :: bytes where "demo_plain = bytes_of ''hi''"

definition demo_sealed :: envelope where
  "demo_sealed = env_sign demo_crypto (id_ed_priv (demo_identity 1))
     \<lparr>env_id = hex_encode [1], env_from = replicate 32 1, env_to = replicate 32 2, env_ts = 5,
      env_type = EnvChat, env_sig = [],
      env_ciphertext = replicate 24 9 @ box_seal demo_crypto demo_plain (replicate 24 9) (replicate 32 2) (replicate 32 1)\<rparr>"

definition demo_spoke_env :: spoke_env where
  "demo_spoke_env =
     \<lparr>en_json = demo_json\<lparr>un_envelope := (\<lambda>b. Some demo_sealed), un_hello_ok := (\<lambda>b. Some demo_hello_ok)\<rparr>,
      en_crypto = demo_crypto, en_unicode = plain_unicode,
      en_cache = \<lparr>js_hubs = (\<lambda>hs. Some []), un_hubs = (\<lambda>b. [])\<rparr>, en_queue = demo_queue_json,
      en_write = disk_write, js_chat = (\<lambda>b. bytes_of (cb_text b)),
      un_chat = (\<lambda>b. Some \<lparr>cb_text = string_of b, cb_name = ''demo'', cb_x = replicate 32 1\<rparr>),
      un_gossip_part = (\<lambda>b. \<lparr>pg_hub = [], pg_entries = [\<lparr>ge_pub = replicate 32 1, ge_x = b, ge_name = ''demo''\<rparr>],
        pg_seq = 1, pg_bloom = [], pg_sig = []\<rparr>)\<rparr>"

definition demo_spoke_config :: spoke_config where
  "demo_spoke_config =
     \<lparr>sc_name = [], sc_invites = [], sc_manual_v6 = ''2001::5'', sc_manual_port = 0,
      sc_manual_key = replicate 32 7, sc_community = [], sc_seeds = [], sc_capture = False\<rparr>"

definition demo_spoke :: spoke where
  "demo_spoke = NewSpoke (demo_identity 2) demo_spoke_config None None (\<lambda>p. None) demo_spoke_env"

text \<open>The spoke 2, connected to the hub 7 and knowing the box key of the spoke 1.\<close>

definition demo_online :: spoke where
  "demo_online = demo_spoke
     \<lparr>sp_sess := Some (demo_session 7 RoleHub),
      sp_hub_ok := Some demo_hello_ok,
      sp_peers := [(mustHex (replicate 32 1), \<lparr>pi_ed = replicate 32 1, pi_x = replicate 32 1, pi_name = ''demo''\<rparr>)]\<rparr>"

lemma demo_spoke_inv: "spoke_inv demo_spoke_env demo_spoke"
  unfolding demo_spoke_def by (rule spoke_new_inv) simp_all

lemma demo_hello_ok_facts: "hello_ok_verify demo_crypto demo_hello_ok"
  "hok_ed demo_hello_ok = replicate 32 7" "hok_x demo_hello_ok = replicate 32 7"
  unfolding demo_hello_ok_def
  by (rule make_ok_verifies [OF demo_crypto_ok(1)])
    (simp_all add: NewServer_def demo_identity_ok make_ok_def, simp_all add: demo_identity_def)

lemma replicate_neq: "x \<noteq> y \<Longrightarrow> 0 < n \<Longrightarrow> replicate n x \<noteq> replicate n y"
  by (cases n) simp_all

lemma demo_online_inv: "spoke_inv demo_spoke_env demo_online"
  using demo_spoke_inv
  by (simp add: spoke_inv_def demo_online_def peers_ok_def demo_session_def demo_hello_ok_facts demo_spoke_env_def
      demo_spoke_def NewSpoke_def demo_spoke_config_def demo_identity_def replicate_neq)

lemma demo_sealed_sel: "env_from demo_sealed = replicate 32 1" "env_to demo_sealed = replicate 32 2"
  "env_ciphertext demo_sealed = replicate 24 9 @ replicate 16 0 @ demo_plain"
  by (simp_all add: demo_sealed_def env_sign_def demo_crypto_def)

lemma demo_sealed_verifies: "env_verify demo_crypto demo_sealed = None"
  unfolding demo_sealed_def
  by (subst verify_signed [OF demo_crypto_ok(1)])
    (simp_all add: demo_crypto_def demo_identity_def env_consts demo_plain_def)

lemma demo_sealed_opens: "open_env demo_crypto (demo_identity 2) x demo_sealed = Inr demo_plain"
  by (simp add: open_env_def demo_sealed_verifies demo_sealed_sel env_consts Let_def) (simp add: demo_crypto_def)


theorem spoke_opens_only_addressed_witness:
  "snd (spoke_handle demo_spoke_env (Arrive 6 [] (msgOf TypeEnvelope [])) demo_online)
     = [Show (Fingerprint (replicate 32 1)) ''demo'' ''hi'']"
proof -
  let ?ev = "Arrive 6 [] (msgOf TypeEnvelope [])"
  let ?r = "spoke_handle demo_spoke_env ?ev demo_online"
  have cfg: "sc_capture (sp_cfg demo_online) = False" "sp_id demo_online = demo_identity 2"
    by (simp_all add: demo_online_def demo_spoke_def NewSpoke_def demo_spoke_config_def)
  have h: "?r = handleEnvelope demo_spoke_env demo_sealed demo_online"
    by (simp add: spoke_read_def type_consts Let_def cfg) (simp add: demo_spoke_env_def)
  have st: "spoke_step demo_spoke_env demo_online ?ev (snd ?r) (fst ?r)"
    by (rule spoke_stepI) (simp_all add: demo_online_def)
  have env: "en_crypto demo_spoke_env = demo_crypto" "id_ed_pub (demo_identity 2) = replicate 32 2"
    "un_chat demo_spoke_env demo_plain = Some \<lparr>cb_text = ''hi'', cb_name = ''demo'', cb_x = replicate 32 1\<rparr>"
    by (simp_all add: demo_spoke_env_def demo_identity_def demo_plain_def)
  have peers: "map_of (sp_peers demo_online) (mustHex (replicate 32 1)) =
      Some \<lparr>pi_ed = replicate 32 1, pi_x = replicate 32 1, pi_name = ''demo''\<rparr>"
    by (simp add: demo_online_def)
  have "Show (Fingerprint (replicate 32 1)) ''demo'' ''hi'' \<in> set (snd ?r)"
    unfolding h
    by (simp add: handleEnvelope_def tryOpen_def env cfg demo_sealed_verifies demo_sealed_opens demo_sealed_sel
        peers zero32_def replicate_neq Let_def)
  from spoke_opens_only_addressed [OF demo_online_inv srun_nil st this] show ?thesis by blast
qed

lemma connectOnce_results:
  "list_all (\<lambda>r. \<exists>E now os answer reads now' fin s. r = fst (connectOnce E now os answer reads now' fin s))
     (map (\<lambda>s. fst (connectOnce E now os answer reads now' fin s)) ss)"
  unfolding list_all_iff by auto blast

theorem spoke_backoff_witness:
  "run_waits 0 (map (\<lambda>s. fst (connectOnce demo_spoke_env 0 \<lparr>quic_dial = (\<lambda>t a. None), tls_dial = (\<lambda>t n a. None)\<rparr>
       (\<lambda>h. DialFailed) [] 0 False s)) [demo_spoke, demo_spoke, demo_online, demo_online, demo_spoke, demo_spoke, demo_spoke])
   = [1000000000, 2000000000, 4000000000, 8000000000, 16000000000, 20000000000, 20000000000]"
  unfolding spoke_backoff [OF connectOnce_results] by (simp add: second_def upt_rec)

definition demo_target :: cached_hub where
  "demo_target = empty_hub\<lparr>ch_v6 := ''2001::5'', ch_port := default_port, ch_source := SrcInvite, ch_ed := replicate 32 7\<rparr>"

definition demo_os :: os_dial where
  "demo_os = \<lparr>quic_dial = (\<lambda>t a. Some 7000000), tls_dial = (\<lambda>t n a. None)\<rparr>"

definition demo_answer :: "cached_hub \<Rightarrow> attempt" where
  "demo_answer h = Answer (msgOf TypeHelloOK [])"

lemma demo_candidates:
  assumes "sp_sess s = None" "sp_cfg s = demo_spoke_config" "c_hubs (sp_cache s) = []" "sp_failed s = []"
  shows "fst (candidates E now s) = [demo_target]"
  using assms
  by (simp add: candidates_order spoke_dial_order_def demo_spoke_config_def cache_list_def recentFail_def
      DialOrder_first_by segment_def with_source_def src_consts port_or_default_def demo_target_def)

lemma demo_attempt:
  "sp_failed s = [] \<Longrightarrow> hub_attempt demo_spoke_env now [] demo_os demo_answer s demo_target = Inr (''quic'', 7000000, demo_hello_ok)"
  by (simp add: hub_attempt_def dialHub_def dial_targets_def Let_def Dial_def demo_os_def handshake_def demo_answer_def)
    (simp add: demo_target_def demo_spoke_env_def demo_hello_ok_facts)

lemma demo_connect:
  assumes "sp_sess s = None" "sp_cfg s = demo_spoke_config" "c_hubs (sp_cache s) = []" "sp_failed s = []"
  shows "\<exists>s' out. connect_start demo_spoke_env now demo_os demo_answer s = (Inr demo_target, s', out)"
proof -
  obtain s1 where c: "candidates demo_spoke_env now s = ([demo_target], s1)"
    using demo_candidates [OF assms] by (metis prod.collapse)
  from candidates_frame(1) [OF c] have "sp_failed s1 = []" "sp_sess s1 = None"
    using assms by (metis spoke.select_convs spoke.surjective spoke.update_convs(8))+
  then show ?thesis
    by (simp add: connect_start_def c connect_loop_Cons demo_attempt split: prod.split)
qed

lemma demo_spoke_sel: "sp_sess demo_spoke = None" "sp_cfg demo_spoke = demo_spoke_config"
  "c_hubs (sp_cache demo_spoke) = []" "sp_failed demo_spoke = []" "sp_id demo_spoke = demo_identity 2"
  "q_items (sp_queue demo_spoke) = []" "q_max (sp_queue demo_spoke) = 1000"
  by (simp_all add: demo_spoke_def NewSpoke_def open_cache_def open_queue_def) (simp add: demo_spoke_config_def)

theorem spoke_first_hub_witness:
  "\<exists>se. sp_sess (fst (snd (connect_start demo_spoke_env 100 demo_os demo_answer demo_spoke))) = Some se \<and>
     se_ed se = replicate 32 7"
proof -
  obtain s1 where c: "candidates demo_spoke_env 100 demo_spoke = ([demo_target], s1)"
    using demo_candidates [OF demo_spoke_sel(1-4)] by (metis prod.collapse)
  from candidates_frame(1) [OF c] have s1: "sp_failed s1 = []" "sp_sess s1 = None"
    using demo_spoke_sel by (metis spoke.select_convs spoke.surjective spoke.update_convs(8))+
  have "length (ch_ed demo_target) = 32" "ch_ed demo_target = replicate 32 7" by (simp_all add: demo_target_def)
  then show ?thesis
    using spoke_first_hub [OF c _ refl, of demo_os demo_answer] by (auto simp: s1 demo_attempt)
qed

definition demo_outgoing :: "string \<Rightarrow> outgoing" where
  "demo_outgoing m = \<lparr>og_nonce = Some (replicate 24 9), og_id = Some [1], og_ts = 5, og_ed = replicate 32 1,
     og_x = replicate 32 1, og_text = m\<rparr>"

lemma demo_outgoing_seals: "length m \<le> 100 \<Longrightarrow> \<exists>e. og_seal demo_spoke_env i (demo_outgoing m) = Inr e"
  by (simp add: og_seal_def seal_def demo_outgoing_def max_plaintext_def demo_spoke_env_def Let_def)

theorem spoke_store_forward_witness:
  "\<exists>e1 e2 s' out. connect_start demo_spoke_env 100 demo_os demo_answer
       (foldl (og_send demo_spoke_env) demo_spoke [demo_outgoing ''a'', demo_outgoing ''b'']) = (Inr demo_target, s', out) \<and>
     envelopes_in out = map (\<lambda>e. msgOf TypeEnvelope (js_envelope demo_json e)) [e1, e2]"
proof -
  let ?gs = "[demo_outgoing ''a'', demo_outgoing ''b'']"
  let ?t = "foldl (og_send demo_spoke_env) demo_spoke ?gs"
  obtain e1 e2 where e: "og_seal demo_spoke_env (demo_identity 2) (demo_outgoing ''a'') = Inr e1"
    "og_seal demo_spoke_env (demo_identity 2) (demo_outgoing ''b'') = Inr e2"
    using demo_outgoing_seals [of "''a''" "demo_identity 2"] demo_outgoing_seals [of "''b''" "demo_identity 2"] by auto
  have sends: "list_all2 (\<lambda>g e. og_seal demo_spoke_env (sp_id demo_spoke) g = Inr e) ?gs [e1, e2]"
    by (simp add: demo_spoke_sel e)
  have push: "og_send demo_spoke_env s g = queue_push demo_spoke_env e s"
    if "sp_sess s = None" "og_seal demo_spoke_env (sp_id s) g = Inr e" for s g e
    using that by (simp add: og_send_def og_seal_def offline_send)
  have t: "?t = queue_push demo_spoke_env e2 (queue_push demo_spoke_env e1 demo_spoke)"
    by (simp add: push demo_spoke_sel e)
  have "\<exists>s' out. connect_start demo_spoke_env 100 demo_os demo_answer ?t = (Inr demo_target, s', out)"
    unfolding t by (rule demo_connect) (simp_all add: demo_spoke_sel)
  then obtain s' out where c: "connect_start demo_spoke_env 100 demo_os demo_answer ?t = (Inr demo_target, s', out)"
    by blast
  have "queue_inv (sp_queue demo_spoke, sp_disk demo_spoke)" using demo_spoke_inv by (simp add: spoke_inv_def)
  from spoke_store_forward [OF this demo_spoke_sel(1) sends c] c show ?thesis
    by (simp add: demo_spoke_sel List.map_filter_simps) (auto simp: demo_spoke_env_def demo_json_def)
qed


subsection \<open>The state of a spoke\<close>

text \<open>
  C22: In every state a spoke can reach, the table of peers has one entry per key, stored under
  that key, with a box key of 32 bytes, and never one for the spoke's own key; the cache has one
  entry per hub and the queue is within its limit; there is a session exactly when a hub's answer
  is on record, and its key is the key of that answer, which verified. The identity never changes.
\<close>

theorem spoke_sound:
  assumes "spoke_run E (NewSpoke i cfg c q d E) tr s" "d [] = None"
    and "\<And>x. c = Some x \<Longrightarrow> cache_inv x" "\<And>x. q = Some x \<Longrightarrow> queue_inv (x, d)"
  shows "distinct (map fst (sp_peers s)) \<and>
    list_all (\<lambda>(k, p). k = mustHex (pi_ed p) \<and> pi_ed p \<noteq> id_ed_pub i \<and> length (pi_x p) = 32) (sp_peers s) \<and>
    distinct (map ch_ed (c_hubs (sp_cache s))) \<and> q_len (sp_queue s) \<le> q_max (sp_queue s) \<and>
    session_ok (en_crypto E) (sp_sess s) (sp_hub_ok s) \<and>
    sp_id s = (if sc_name cfg \<noteq> [] then i\<lparr>id_name := sc_name cfg\<rparr> else i)"
proof -
  have "sp_id s = sp_id (NewSpoke i cfg c q d E)"
    using assms(1)
  proof (induction rule: spoke_run.induct)
    case (srun_snoc s tr t ev out u)
    then show ?case using spoke_handle_id [of E ev t] by (simp add: spoke_step_iff)
  qed simp
  then have id: "sp_id s = (if sc_name cfg \<noteq> [] then i\<lparr>id_name := sc_name cfg\<rparr> else i)"
    by (simp add: NewSpoke_def)
  then have own: "id_ed_pub (sp_id s) = id_ed_pub i" by simp
  have "spoke_inv E s"
    by (rule spoke_run_inv [OF assms(1) spoke_new_inv [OF assms(3,4,2)]])
  then show ?thesis
    unfolding id [symmetric] own [symmetric]
    by (simp add: spoke_inv_def peers_ok_def cache_inv_def queue_inv_def q_len_def)
qed

theorem spoke_sound_witness:
  "session_ok demo_crypto
     (sp_sess (fst (spoke_handle demo_spoke_env (TryHubs 100 demo_os demo_answer) demo_spoke)))
     (sp_hub_ok (fst (spoke_handle demo_spoke_env (TryHubs 100 demo_os demo_answer) demo_spoke)))"
proof -
  let ?ev = "TryHubs 100 demo_os demo_answer"
  have "spoke_step demo_spoke_env demo_spoke ?ev (snd (spoke_handle demo_spoke_env ?ev demo_spoke))
      (fst (spoke_handle demo_spoke_env ?ev demo_spoke))"
    by (rule spoke_stepI) (simp_all add: demo_spoke_sel)
  from srun_snoc [OF srun_nil this] have "spoke_run demo_spoke_env
      (NewSpoke (demo_identity 2) demo_spoke_config None None (\<lambda>p. None) demo_spoke_env)
      [(?ev, snd (spoke_handle demo_spoke_env ?ev demo_spoke))] (fst (spoke_handle demo_spoke_env ?ev demo_spoke))"
    by (simp add: demo_spoke_def)
  from spoke_sound [OF this] show ?thesis by (simp add: demo_spoke_env_def)
qed

subsection \<open>The box keys of peers come from the hub\<close>

definition rekey :: "bytes \<Rightarrow> peer_info \<Rightarrow> peer_info \<Rightarrow> peer_info" where
  "rekey ed p' p = (if pi_ed p = ed then p' else p)"

lemma update_values:
  assumes "distinct (map fst ps)" "k \<in> fst ` set ps"
    and "\<forall>(a, p) \<in> set ps. a = mustHex (pi_ed p)" "k = mustHex ed"
  shows "map snd (AList.update k p' ps) = map (rekey ed p') (map snd ps)"
  using assms
proof (induction ps)
  case (Cons q ps)
  obtain a p where q: "q = (a, p)" by fastforce
  show ?case
  proof (cases "a = k")
    case True
    then have "\<forall>(b, r) \<in> set ps. pi_ed r \<noteq> ed" using Cons.prems by (force simp: q)
    then have "map (rekey ed p') (map snd ps) = map snd ps"
      by (auto simp: rekey_def intro!: map_idI)
    moreover have "pi_ed p = ed" using Cons.prems True by (auto simp: q)
    ultimately show ?thesis using True by (simp add: q rekey_def)
  next
    case False
    then have "pi_ed p \<noteq> ed" using Cons.prems by (auto simp: q)
    then show ?thesis using Cons.IH Cons.prems False by (auto simp: q rekey_def)
  qed
qed simp

lemma find_peer_rekey:
  assumes inv: "peers_ok own (sp_peers s)" and p: "map_of (sp_peers s) (mustHex ed) = Some p"
    and p': "pi_ed p' = ed" "pi_name p' = pi_name p"
    and s': "sp_peers s' = AList.update (mustHex ed) p' (sp_peers s)"
    and find: "find_peer name s = Some (ed, x0)"
  shows "find_peer name s' = Some (ed, pi_x p')"
proof -
  let ?ps = "map snd (sp_peers s)"
  have keys: "distinct (map fst (sp_peers s))" "\<forall>(a, p) \<in> set (sp_peers s). a = mustHex (pi_ed p)"
    using inv by (auto simp: peers_ok_def list_all_iff)
  have vals: "map snd (sp_peers s') = map (rekey ed p') ?ps"
    unfolding s' by (rule update_values [OF keys(1) _ keys(2) refl])
      (metis p map_of_eq_None_iff option.distinct(1))
  have only: "q \<in> set ?ps \<Longrightarrow> pi_ed q = ed \<Longrightarrow> q = p" for q
  proof -
    assume "q \<in> set ?ps" "pi_ed q = ed"
    then have "(mustHex ed, q) \<in> set (sp_peers s)" using keys(2) by auto
    from map_of_is_SomeI [OF keys(1) this] p show "q = p" by simp
  qed
  have ed: "pi_ed p = ed" using keys(2) map_of_SomeD [OF p] by auto
  have same: "pi_ed (rekey ed p' q) = pi_ed q" "q \<in> set ?ps \<Longrightarrow> pi_name (rekey ed p' q) = pi_name q" for q
    using only p' by (auto simp: rekey_def)
  define vs where "vs = map snd (sp_peers s)"
  let ?P = "\<lambda>q. pi_name q = name \<or> Fingerprint (pi_ed q) = name"
  have "find ?P (map (rekey ed p') xs) = map_option (rekey ed p') (find ?P xs)" if "set xs \<subseteq> set vs" for xs
    using that same by (induction xs) (auto simp: vs_def)
  then have f: "find ?P (map (rekey ed p') vs) = map_option (rekey ed p') (find ?P vs)" by blast
  have h: "length vs = 1 \<Longrightarrow> hd (map (rekey ed p') vs) = rekey ed p' (hd vs)"
    by (cases vs) simp_all
  have x: "pi_x (rekey ed p' q) = (if pi_ed q = ed then pi_x p' else pi_x q)" for q
    by (simp add: rekey_def)
  show ?thesis
    using find unfolding find_peer_def Let_def vals vs_def [symmetric] f
    by (cases "find ?P vs"; cases "length vs = 1") (auto simp: h same x split: if_splits)
qed

text \<open>
  C19: A hub can read the messages that cross it. A spoke takes the box key of a peer from the
  gossip of its hub, which nobody signs: after one gossip message that repeats a known peer with
  the hub's own box key, a message sent to that peer by name goes out to the peer's address
  sealed for the hub, which opens it to the plaintext, although the comments and the README
  promise that relays never see it.
\<close>

theorem hub_reads_plaintext:
  assumes C: "box_correct (en_crypto E)" and me: "wf_identity (en_crypto E) (sp_id s)" and inv: "spoke_inv E s"
    and find: "find_peer name s = Some (ed, x0)" and p: "map_of (sp_peers s) (mustHex ed) = Some p"
    and g: "pg_entries (un_gossip_part E body) = [\<lparr>ge_pub = ed, ge_x = x_public (en_crypto E) hk, ge_name = pi_name p\<rparr>]"
    and hx: "length (x_public (en_crypto E) hk) = 32" "x_public (en_crypto E) hk \<noteq> zero32"
    and up: "sp_sess s \<noteq> None" and n: "length n = nonce_size"
    and plain: "plain = js_chat E \<lparr>cb_text = msg, cb_name = id_name (sp_id s), cb_x = id_x_pub (sp_id s)\<rparr>"
      "length plain \<le> max_plaintext"
  shows "\<exists>e. snd (snd (SendToName E (Some n) (Some i) ts True name msg
           (fst (spoke_read E now dump (msgOf TypePresenceGossip body) s)))) =
        [ToHub (msgOf TypeEnvelope (js_envelope (en_json E) e))] \<and> env_to e = ed \<and>
      box_open (en_crypto E) (drop nonce_size (env_ciphertext e)) (take nonce_size (env_ciphertext e))
        (id_x_pub (sp_id s)) hk = Some plain"
proof -
  let ?C = "en_crypto E"
  let ?p = "\<lparr>pi_ed = ed, pi_x = x_public ?C hk, pi_name = pi_name p\<rparr>"
  define s' where "s' = fst (spoke_read E now dump (msgOf TypePresenceGossip body) s)"
  have own: "peers_ok (id_ed_pub (sp_id s)) (sp_peers s)" using inv by (simp add: spoke_inv_def)
  then have "ed \<noteq> id_ed_pub (sp_id s)" using peers_ok_own [OF own] p by auto
  then have peers: "sp_peers s' = AList.update (mustHex ed) ?p (sp_peers s)"
    by (simp add: s'_def spoke_read_def type_consts Let_def g learn_entry_def hx)
  have found: "find_peer name s' = Some (ed, x_public ?C hk)"
    using find_peer_rekey [OF own p _ _ peers find] by simp
  have s': "sp_id s' = sp_id s" "sp_sess s' = sp_sess s"
    by (simp_all add: s'_def spoke_read_def type_consts Let_def)
  define e where "e = env_sign ?C (id_ed_priv (sp_id s))
    \<lparr>env_id = hex_encode i, env_from = id_ed_pub (sp_id s), env_to = ed, env_ts = ts, env_type = EnvChat,
     env_sig = [], env_ciphertext = n @ box_seal ?C plain n (x_public ?C hk) (id_x_priv (sp_id s))\<rparr>"
  have "seal ?C (Some n) (Some i) ts (sp_id s) (x_public ?C hk) ed EnvChat plain = Inr e"
    using plain(2) by (simp add: seal_def e_def Let_def)
  then have "snd (snd (SendToName E (Some n) (Some i) ts True name msg s')) =
      [ToHub (msgOf TypeEnvelope (js_envelope (en_json E) e))]"
    using up by (auto simp: SendToName_def found hx spoke_send_def s' plain(1) [symmetric])
  moreover have "env_to e = ed" "env_ciphertext e = n @ box_seal ?C plain n (x_public ?C hk) (id_x_priv (sp_id s))"
    by (simp_all add: e_def env_sign_def)
  moreover have "id_x_pub (sp_id s) = x_public ?C (id_x_priv (sp_id s))"
    using me unfolding wf_identity_def by blast
  then have "box_open ?C (box_seal ?C plain n (x_public ?C hk) (id_x_priv (sp_id s))) n (id_x_pub (sp_id s)) hk = Some plain"
    using C unfolding box_correct_def by metis
  ultimately show ?thesis using n by (intro exI [of _ e]) (simp add: s'_def [symmetric])
qed

theorem hub_reads_plaintext_witness:
  "\<exists>e. snd (snd (SendToName demo_spoke_env (Some (replicate 24 9)) (Some [1]) 5 True ''demo'' ''hi''
           (fst (spoke_read demo_spoke_env 6 [] (msgOf TypePresenceGossip (replicate 32 7)) demo_online)))) =
        [ToHub (msgOf TypeEnvelope (js_envelope (en_json demo_spoke_env) e))] \<and> env_to e = replicate 32 1 \<and>
      box_open (en_crypto demo_spoke_env) (drop nonce_size (env_ciphertext e)) (take nonce_size (env_ciphertext e))
        (id_x_pub (sp_id demo_online)) (replicate 32 7) = Some (bytes_of ''hi'')"
proof (rule hub_reads_plaintext [OF _ _ demo_online_inv])
  show "box_correct (en_crypto demo_spoke_env)" "wf_identity (en_crypto demo_spoke_env) (sp_id demo_online)"
    by (simp_all add: demo_spoke_env_def demo_crypto_ok demo_identity_ok demo_online_def demo_spoke_sel)
  show "find_peer ''demo'' demo_online = Some (replicate 32 1, replicate 32 1)"
    by (simp add: find_peer_def demo_online_def)
  show "map_of (sp_peers demo_online) (mustHex (replicate 32 1)) =
      Some \<lparr>pi_ed = replicate 32 1, pi_x = replicate 32 1, pi_name = ''demo''\<rparr>"
    by (simp add: demo_online_def)
qed (simp_all add: demo_spoke_env_def demo_crypto_def demo_online_def zero32_def replicate_neq nonce_size_def max_plaintext_def)

subsection \<open>Recorded answers\<close>

text \<open>
  The answer of a hub is not bound to the hello it answers nor to the connection: an answer that
  one spoke accepted for a hub is accepted by every spoke, at any time, from whatever address is
  listed for a hub with the same key.
\<close>

theorem recorded_answer_accepted:
  assumes "handshake E (Answer m) h = Inr ok" "length (ch_ed h) = 32" "ch_ed h' = ch_ed h"
    and "en_json E' = en_json E" "en_crypto E' = en_crypto E"
  shows "handshake E' (Answer m) h' = Inr ok"
  using assms by (auto simp: handshake_def split: option.splits if_splits)

subsection \<open>Short codes of cached hubs\<close>

lemma marshal_body_expiry:
  "wf_invite iv \<Longrightarrow> length v6 = 16 \<Longrightarrow>
     take 4 (drop 52 (marshal_body iv v6)) = put_be32 (invite_exp_word iv)"
  unfolding marshal_body_alt by (simp add: wf_invite_def)

lemma marshal_expiry:
  assumes "wf_invite iv" "marshal iv False = Inr raw"
  shows "take 4 (drop 52 raw) = put_be32 (invite_exp_word iv)"
proof -
  have "marshal_ok iv" using assms(2) marshal_Inr_iff [of iv False] by blast
  then have "raw = marshal_body (iv\<lparr>inv_version := 1\<rparr>) (wire_ipv6 iv)"
    using assms(2) marshal_Inr [of iv False] by simp
  moreover have "wf_invite (iv\<lparr>inv_version := 1\<rparr>)" "invite_exp_word (iv\<lparr>inv_version := 1\<rparr>) = invite_exp_word iv"
    using assms(1) by (simp_all add: wf_invite_def invite_exp_word_def)
  ultimately show ?thesis using marshal_body_expiry by simp
qed

text \<open>
  The short code of a hub is a hash of its invite, expiry included, but a cached hub keeps no
  expiry. So the code that the resolvers of the cache and of the community list compute for a
  hub is a hash of another text than the code the hub prints, which always has an expiry: unless
  two hashes collide, the printed code is never found.
\<close>

theorem cached_short_code_differs:
  assumes "wf_invite iv" "invite_exp_word iv \<noteq> 0" "marshal iv False = Inr raw"
    and "ch_invite (cachedFromInvite iv src) = Some iv'" "marshal iv' False = Inr raw'"
  shows "raw' \<noteq> raw \<and> ShortCode iv = shortFrom raw \<and> ShortCode iv' = shortFrom raw'"
proof -
  have iv': "inv_expiry iv' = zero_time" "inv_pub_key iv' = inv_pub_key iv"
    using assms(4) by (auto simp: ch_invite_def cachedFromInvite_def Let_def split: if_splits)
  then have "wf_invite iv'" "invite_exp_word iv' = 0"
    using assms(1) by (simp_all add: wf_invite_def invite_exp_word_def)
  then have "take 4 (drop 52 raw') \<noteq> take 4 (drop 52 raw)"
    using marshal_expiry [OF assms(1,3)] marshal_expiry [OF _ assms(5)] assms(2) by simp
  then show ?thesis using assms(3,5) by (auto simp: ShortCode_def)
qed

end
