(* ===== verification/Capability_Probe.thy ===== *)
theory Capability_Probe
  imports Go_Strings Net_IP
begin

section \<open>What this host can offer (\<open>hub/capability.go\<close>, \<open>hub/ra.go\<close>)\<close>

text \<open>
  \<open>Probe\<close> looks at the network interfaces and at whether the UDP port can be bound, and decides
  whether the host may be a hub and whether it may advertise an IPv4 address. The interfaces
  and the operating system's answer to a bind are arguments: \<open>listen network address\<close> is the
  error text of \<open>net.ListenPacket\<close>, \<open>None\<close> when it succeeds. Everything after that is a pure
  function of them.
\<close>

definition em_dash :: string where "em_dash = string_of [0xe2, 0x80, 0x94]"

definition HubRefuse :: string where
  "HubRefuse = ''This dish cannot be a hub. Put the app on a PC behind a bypass router or use a Priority public IP.''"

text \<open>An interface address as the type switch of \<open>ipFromAddr\<close> sees it.\<close>

datatype net_addr =
    IPNet ip nat
  | IPAddr ip
  | OtherAddr string

record iface =
  if_up :: bool
  if_loopback :: bool
  if_addrs :: "net_addr list"

record cap =
  cap_global_v6 :: "ip list"
  cap_local_v4 :: "ip list"
  cap_public_v4 :: ip
  cap_cgnat :: bool
  cap_can_bind :: bool
  cap_bind_port :: int
  cap_bind_error :: string
  cap_can_hub :: bool
  cap_claim_v4 :: bool
  cap_reason :: string
  cap_dev :: bool
  cap_default_v6 :: bool

record probe_opts =
  po_port :: int
  po_dev :: bool
  po_observed :: ip

subsection \<open>Classifying addresses\<close>

definition isGlobalIPv6 :: "ip \<Rightarrow> bool" where
  "isGlobalIPv6 a =
     (if a = None \<or> to4 a \<noteq> None then False
      else if is_loopback a \<or> is_link_local_unicast a \<or> is_link_local_multicast a \<or> is_private a
        then False
      else if is_unspecified a \<or> is_multicast a then False
      else ip_bytes a ! 0 AND 0xe0 = 0x20)"

definition isUsableDevIPv6 :: "ip \<Rightarrow> bool" where
  "isUsableDevIPv6 a =
     (if a = None \<or> to4 a \<noteq> None then False else is_loopback a \<or> is_private a)"

definition isCGNAT :: "ip \<Rightarrow> bool" where
  "isCGNAT a = (case to4 a of None \<Rightarrow> False | Some b \<Rightarrow> b ! 0 = 100 \<and> 64 \<le> b ! 1 \<and> b ! 1 \<le> 127)"

definition isPrivateIPv4 :: "ip \<Rightarrow> bool" where
  "isPrivateIPv4 a =
     (case to4 a of
        None \<Rightarrow> False
      | Some b \<Rightarrow>
          (if is_loopback (Some b) \<or> is_link_local_unicast (Some b) \<or> is_private (Some b) then True
           else isCGNAT (Some b)))"

definition anyCGNAT :: "ip list \<Rightarrow> bool" where
  "anyCGNAT ips = list_ex isCGNAT ips"

fun publicIPv4 :: "ip list \<Rightarrow> ip" where
  "publicIPv4 [] = None"
| "publicIPv4 (a # r) =
     (case to4 a of
        None \<Rightarrow> publicIPv4 r
      | Some b \<Rightarrow>
          (if \<not> isPrivateIPv4 (Some b) \<and> \<not> is_multicast (Some b) \<and> \<not> is_unspecified (Some b)
           then Some b else publicIPv4 r))"

definition hasIP :: "ip list \<Rightarrow> ip \<Rightarrow> bool" where
  "hasIP xs want = list_ex (\<lambda>a. ip_equal a want) xs"

fun uniqueIPs_from :: "string set \<Rightarrow> ip list \<Rightarrow> ip list" where
  "uniqueIPs_from seen [] = []"
| "uniqueIPs_from seen (a # r) =
     (let k = ip_string a in
      if k \<in> seen then uniqueIPs_from seen r else a # uniqueIPs_from (insert k seen) r)"

definition uniqueIPs :: "ip list \<Rightarrow> ip list" where
  "uniqueIPs xs = uniqueIPs_from {} xs"

definition ipFromAddr :: "net_addr \<Rightarrow> ip" where
  "ipFromAddr a =
     (case a of
        IPNet i _ \<Rightarrow> i
      | IPAddr i \<Rightarrow> i
      | OtherAddr s \<Rightarrow>
          (case split_host_port s of None \<Rightarrow> parse_ip s | Some (host, _) \<Rightarrow> parse_ip host))"

subsection \<open>The probe\<close>

type_synonym os_listen = "string \<Rightarrow> string \<Rightarrow> string option"

definition canBindUDP :: "os_listen \<Rightarrow> int \<Rightarrow> bool \<Rightarrow> bool \<times> string" where
  "canBindUDP listen port wantv6 =
     (let network = (if wantv6 then ''udp6'' else ''udp'');
          addr = (if wantv6 then ''[::]:'' @ decimal_int port else '':'' @ decimal_int port)
      in case listen network addr of
        None \<Rightarrow> (True, [])
      | Some err \<Rightarrow>
          (if str_contains err ''address already in use'' then (True, [])
           else case listen ''udp6'' ''[::]:0'' of
             Some _ \<Rightarrow> (False, err)
           | None \<Rightarrow> (True, ''port busy: '' @ err)))"

definition probe_addr :: "bool \<Rightarrow> ip list \<times> ip list \<Rightarrow> net_addr \<Rightarrow> ip list \<times> ip list" where
  "probe_addr dev = (\<lambda>(v6, v4) a.
     let i = ipFromAddr a in
     if i = None then (v6, v4)
     else if to4 i \<noteq> None then (v6, v4 @ [to4 i])
     else if isGlobalIPv6 i \<or> dev \<and> isUsableDevIPv6 i then (v6 @ [i], v4)
     else (v6, v4))"

definition probe_iface :: "bool \<Rightarrow> ip list \<times> ip list \<Rightarrow> iface \<Rightarrow> ip list \<times> ip list" where
  "probe_iface dev acc f =
     (if \<not> if_up f \<or> if_loopback f \<and> \<not> dev then acc
      else foldl (probe_addr dev) acc (if_addrs f))"

text \<open>The public IPv4 address and whether an observation by a peer reveals a NAT.\<close>

definition observe_ipv4 :: "ip \<Rightarrow> ip list \<Rightarrow> ip \<times> bool" where
  "observe_ipv4 observed local_v4 =
     (let pub = publicIPv4 local_v4; cgnat = anyCGNAT local_v4 in
      if observed \<noteq> None then
        (let obs = to4 observed in
         if pub \<noteq> None \<and> obs \<noteq> None \<and> ip_equal pub obs then (pub, cgnat)
         else if obs \<noteq> None \<and> \<not> isPrivateIPv4 obs \<and> \<not> isCGNAT obs then
           (if hasIP local_v4 obs then (obs, cgnat) else (None, True))
         else (None, cgnat))
      else if pub \<noteq> None then (pub, cgnat)
      else (None, cgnat))"

definition Probe :: "os_listen \<Rightarrow> iface list \<Rightarrow> probe_opts \<Rightarrow> cap" where
  "Probe listen ifaces opts =
     (let port = (if po_port opts = 0 then 4433 else po_port opts);
          dev = po_dev opts;
          (v6, v4) = foldl (probe_iface dev) ([], []) ifaces;
          v6 = (if dev then uniqueIPs (v6 @ [parse_ip ''::1'']) else v6);
          (can_bind, bind_err) = canBindUDP listen port (v6 \<noteq> []);
          (pub, cgnat) = observe_ipv4 (po_observed opts) v4;
          claim = (pub \<noteq> None \<and> \<not> cgnat);
          (hub, reason) =
            (if \<not> can_bind then (False, HubRefuse @ '' (cannot bind UDP :'' @ decimal_int port @ '')'')
             else if v6 = [] then (False, HubRefuse)
             else (True, if claim then ''hub-capable: global IPv6 + public IPv4''
                         else ''hub-capable: global IPv6 (no public IPv4 '' @ em_dash @
                           '' CGNAT or RFC1918; IPv4 inbound will not be advertised)''))
      in \<lparr>cap_global_v6 = v6, cap_local_v4 = v4, cap_public_v4 = pub, cap_cgnat = cgnat,
          cap_can_bind = can_bind, cap_bind_port = port, cap_bind_error = bind_err,
          cap_can_hub = hub, cap_claim_v4 = claim, cap_reason = reason, cap_dev = dev,
          cap_default_v6 = (v6 \<noteq> [])\<rparr>)"

definition PickIPv6 :: "cap \<Rightarrow> ip" where
  "PickIPv6 c =
     (case find isGlobalIPv6 (cap_global_v6 c) of
        Some a \<Rightarrow> a
      | None \<Rightarrow> (if cap_global_v6 c \<noteq> [] then cap_global_v6 c ! 0 else None))"

subsection \<open>Prefix report\<close>

record ra_report =
  ra_prefixes :: "string list"
  ra_advice :: string

definition ra_addr :: "string list \<Rightarrow> net_addr \<Rightarrow> string list" where
  "ra_addr acc a =
     (case a of
        IPNet i ones \<Rightarrow>
          (if to4 i \<noteq> None then acc
           else if isGlobalIPv6 i then acc @ [ip_string i @ ''/'' @ decimal ones]
           else acc)
      | _ \<Rightarrow> acc)"

definition ProbeRA :: "iface list \<Rightarrow> ra_report" where
  "ProbeRA ifaces =
     (let ps = foldl (\<lambda>acc f. if \<not> if_up f then acc else foldl ra_addr acc (if_addrs f)) [] ifaces
      in \<lparr>ra_prefixes = ps,
          ra_advice =
            (if ps = [] then
               ''No global IPv6 prefix on this host. Enable bypass mode, confirm the dish delegated a /56, and run radvd (deploy/radvd.conf) so LAN devices keep global addresses.''
             else
               ''Global IPv6 prefix present. Keep radvd/systemd-networkd advertising it; the stock Starlink router will not, once in bypass.'')\<rparr>)"

subsection \<open>Lemmas\<close>

lemma byte_top_bits: "(b :: byte) AND 0xe0 = 0x20 \<longleftrightarrow> 32 \<le> b \<and> b < 64"
proof -
  have "list_all (\<lambda>n. ((word_of_nat n :: byte) AND 0xe0 = 0x20) = (32 \<le> (word_of_nat n :: byte) \<and> (word_of_nat n :: byte) < 64)) [0..<256]"
    by code_simp
  moreover have "unat b \<in> set [0..<256]" using unsigned_less [of b, where ?'a = nat] by simp
  ultimately have "((word_of_nat (unat b) :: byte) AND 0xe0 = 0x20) = (32 \<le> (word_of_nat (unat b) :: byte) \<and> (word_of_nat (unat b) :: byte) < 64)"
    by (simp only: list_all_iff)
  then show ?thesis by simp
qed

lemma byte_fc: "(b :: byte) AND 0xfe = 0xfc \<Longrightarrow> \<not> b < 64"
proof -
  have "list_all (\<lambda>n. \<not> ((word_of_nat n :: byte) AND 0xfe = 0xfc \<and> (word_of_nat n :: byte) < 64)) [0..<256]"
    by code_simp
  moreover have "unat b \<in> set [0..<256]" using unsigned_less [of b, where ?'a = nat] by simp
  ultimately have "\<not> ((word_of_nat (unat b) :: byte) AND 0xfe = 0xfc \<and> (word_of_nat (unat b) :: byte) < 64)"
    by (simp only: list_all_iff) blast
  then show "b AND 0xfe = 0xfc \<Longrightarrow> \<not> b < 64" by simp
qed

text \<open>The other tests of \<open>isGlobalIPv6\<close> are implied by the first three bits.\<close>

lemma global_first_byte:
  assumes len: "length b = 16" and lo: "32 \<le> b ! 0" and hi: "b ! 0 < 64"
  shows "to4 (Some b) = None" "\<not> is_loopback (Some b)" "\<not> is_link_local_unicast (Some b)"
    "\<not> is_link_local_multicast (Some b)" "\<not> is_private (Some b)" "\<not> is_unspecified (Some b)"
    "\<not> is_multicast (Some b)"
proof -
  obtain x r where b: "b = x # r" using len by (cases b) auto
  have x: "x \<noteq> 0" "x \<noteq> 0xfe" "x \<noteq> 0xff" using lo hi by (auto simp: b)
  show t: "to4 (Some b) = None" using x len by (auto simp: to4_def v4_in_v6_prefix_def b)
  note t' = t [unfolded b]
  show "\<not> is_loopback (Some b)" using x
    by (simp add: is_loopback_def t' ip_equal_def ipv6_loopback_def ip_bytes_def b numeral_eq_Suc)
  show "\<not> is_link_local_unicast (Some b)" "\<not> is_link_local_multicast (Some b)"
    "\<not> is_multicast (Some b)"
    using x by (simp_all add: is_link_local_unicast_def is_link_local_multicast_def is_multicast_def
        t' ip_bytes_def b)
  show "\<not> is_private (Some b)"
    using byte_fc [of x] hi by (auto simp: is_private_def t' ip_bytes_def b)
  show "\<not> is_unspecified (Some b)"
    using x len by (auto simp: is_unspecified_def ip_equal_def ipv4_zero_def ipv6_zero_def ip_bytes_def b
        v4_in_v6_prefix_def numeral_eq_Suc)
qed

lemma isGlobalIPv6_16:
  assumes "length b = 16"
  shows "isGlobalIPv6 (Some b) \<longleftrightarrow> 0x20 \<le> b ! 0 \<and> b ! 0 \<le> 0x3f"
proof -
  have "b ! 0 \<le> 0x3f \<longleftrightarrow> b ! 0 < 64" by (simp add: word_le_nat_alt word_less_nat_alt) arith
  then show ?thesis
    using global_first_byte [OF assms]
    by (auto simp: isGlobalIPv6_def ip_bytes_def byte_top_bits)
qed

lemma isGlobalIPv6_Some: "isGlobalIPv6 a \<Longrightarrow> a \<noteq> None"
  by (auto simp: isGlobalIPv6_def split: if_splits)

definition four_byte :: "ip \<Rightarrow> bool" where
  "four_byte a \<longleftrightarrow> (\<exists>b. a = Some b \<and> length b = 4)"

lemma four_byte_to4: "to4 a \<noteq> None \<Longrightarrow> four_byte (to4 a)"
  by (auto simp: four_byte_def dest: length_to4)

lemma to4_four_byte [simp]: "four_byte a \<Longrightarrow> to4 a = a"
  by (auto simp: four_byte_def to4_def)

text \<open>What the walk over the interfaces collects.\<close>

definition probe_ok :: "bool \<Rightarrow> ip list \<times> ip list \<Rightarrow> bool" where
  "probe_ok dev acc \<longleftrightarrow>
     list_all (\<lambda>i. isGlobalIPv6 i \<or> dev \<and> isUsableDevIPv6 i) (fst acc) \<and> list_all four_byte (snd acc)"

lemma probe_ok_addr: "probe_ok dev acc \<Longrightarrow> probe_ok dev (probe_addr dev acc a)"
  using four_byte_to4 [of "ipFromAddr a"] by (auto simp: probe_ok_def probe_addr_def Let_def split: prod.splits)

lemma probe_ok_addrs: "probe_ok dev acc \<Longrightarrow> probe_ok dev (foldl (probe_addr dev) acc xs)"
  by (induction xs arbitrary: acc) (simp_all add: probe_ok_addr)

lemma probe_ok_ifaces: "probe_ok dev acc \<Longrightarrow> probe_ok dev (foldl (probe_iface dev) acc fs)"
  by (induction fs arbitrary: acc) (simp_all add: probe_iface_def probe_ok_addrs)

lemma Probe_fields:
  fixes opts :: probe_opts and ifaces :: "iface list" and listen :: os_listen
  defines "w \<equiv> foldl (probe_iface (po_dev opts)) ([], []) ifaces"
  defines "c \<equiv> Probe listen ifaces opts"
  shows "cap_local_v4 c = snd w"
    and "cap_global_v6 c = (if po_dev opts then uniqueIPs (fst w @ [parse_ip ''::1'']) else fst w)"
    and "cap_bind_port c = (if po_port opts = 0 then 4433 else po_port opts)"
    and "(cap_can_bind c, cap_bind_error c) = canBindUDP listen (cap_bind_port c) (cap_global_v6 c \<noteq> [])"
    and "(cap_public_v4 c, cap_cgnat c) = observe_ipv4 (po_observed opts) (cap_local_v4 c)"
    and "cap_claim_v4 c \<longleftrightarrow> cap_public_v4 c \<noteq> None \<and> \<not> cap_cgnat c"
    and "cap_can_hub c \<longleftrightarrow> cap_can_bind c \<and> cap_global_v6 c \<noteq> []"
    and "cap_default_v6 c \<longleftrightarrow> cap_global_v6 c \<noteq> []"
  unfolding w_def c_def by (simp_all add: Probe_def Let_def case_prod_unfold)

lemma local_v4_four: "list_all four_byte (cap_local_v4 (Probe listen ifaces opts))"
  using probe_ok_ifaces [of "po_dev opts" "([], [])" ifaces]
  by (simp add: Probe_fields probe_ok_def)

lemma publicIPv4_found:
  "list_all four_byte xs \<Longrightarrow> publicIPv4 xs = Some b \<Longrightarrow> Some b \<in> set xs \<and> \<not> isPrivateIPv4 (Some b)"
  by (induction xs) (auto split: option.splits if_splits)

lemma ip_equal_four: "four_byte a \<Longrightarrow> four_byte b \<Longrightarrow> ip_equal a b \<longleftrightarrow> a = b"
  by (auto simp: four_byte_def ip_equal_def ip_bytes_def)

lemma observe_claim:
  assumes v4: "list_all four_byte xs" and obs: "observe_ipv4 observed xs = (Some b, False)"
  shows "Some b \<in> set xs \<and> \<not> isPrivateIPv4 (Some b) \<and> \<not> anyCGNAT xs \<and>
    (observed = None \<or> to4 observed = Some b)"
proof -
  have pub: "publicIPv4 xs = Some p \<Longrightarrow> Some p \<in> set xs \<and> \<not> isPrivateIPv4 (Some p)" for p
    using publicIPv4_found [OF v4] .
  have four: "a \<in> set xs \<Longrightarrow> four_byte a" for a using v4 by (simp add: list_all_iff)
  show ?thesis
  proof (cases "observed = None")
    case True
    with obs pub show ?thesis by (auto simp: observe_ipv4_def Let_def split: if_splits)
  next
    case False
    have fo: "to4 observed = Some q \<Longrightarrow> four_byte (Some q)" for q
      by (auto simp: four_byte_def dest: length_to4)
    from False obs show ?thesis
      using pub four fo ip_equal_four
      by (auto simp: observe_ipv4_def Let_def hasIP_def list_ex_iff split: if_splits)
  qed
qed

lemma claim_own_ipv4:
  assumes "cap_claim_v4 (Probe listen ifaces opts)"
  shows "\<exists>b. length b = 4 \<and> cap_public_v4 (Probe listen ifaces opts) = Some b \<and>
    Some b \<in> set (cap_local_v4 (Probe listen ifaces opts)) \<and> \<not> isPrivateIPv4 (Some b) \<and>
    \<not> anyCGNAT (cap_local_v4 (Probe listen ifaces opts)) \<and>
    (po_observed opts = None \<or> to4 (po_observed opts) = Some b)"
proof -
  let ?c = "Probe listen ifaces opts"
  from assms obtain b where b: "cap_public_v4 ?c = Some b" and nat: "\<not> cap_cgnat ?c"
    by (auto simp: Probe_fields(6))
  have "observe_ipv4 (po_observed opts) (cap_local_v4 ?c) = (Some b, False)"
    using Probe_fields(5) [of listen ifaces opts] b nat by simp
  from observe_claim [OF local_v4_four this] b local_v4_four [of listen ifaces opts]
  show ?thesis by (auto simp: four_byte_def list_all_iff)
qed

subsection \<open>Properties\<close>

text \<open>
  A host advertises an IPv4 address only when it can be reached there: the advertised address
  is one of its own interface addresses, it is neither private, loopback, link-local nor
  carrier-grade NAT, no interface address is in the carrier-grade NAT range, and when a peer has
  reported the address it sees, that is the same address.
\<close>

theorem probe_ipv4_claim:
  assumes "cap_claim_v4 (Probe listen ifaces opts)"
  shows "\<exists>b. length b = 4 \<and> cap_public_v4 (Probe listen ifaces opts) = Some b \<and>
    Some b \<in> set (cap_local_v4 (Probe listen ifaces opts)) \<and> \<not> isPrivateIPv4 (Some b) \<and>
    \<not> anyCGNAT (cap_local_v4 (Probe listen ifaces opts)) \<and>
    (po_observed opts = None \<or> to4 (po_observed opts) = Some b)"
  by (rule claim_own_ipv4 [OF assms])

definition demo_ifaces :: "iface list" where
  "demo_ifaces =
     [\<lparr>if_up = True, if_loopback = True, if_addrs = [IPNet (Some [127, 0, 0, 1]) 8]\<rparr>,
      \<lparr>if_up = True, if_loopback = False,
       if_addrs = [IPNet (Some [203, 0, 113, 7]) 24,
                   IPNet (Some (0x20 # 1 # replicate 13 0 @ [5])) 64]\<rparr>]"

lemma replicate_4: "replicate 4 x = [x, x, x, x]"
  by (simp add: numeral_eq_Suc)

lemma demo_walk:
  "foldl (probe_iface False) ([], []) demo_ifaces =
     ([Some (0x20 # 1 # replicate 13 0 @ [5])], [Some [203, 0, 113, 7]])"
  by (simp add: demo_ifaces_def probe_iface_def probe_addr_def ipFromAddr_def to4_def
      isGlobalIPv6_16 v4_in_v6_prefix_def)

lemma demo_observe: "observe_ipv4 None [Some [203, 0, 113, 7]] = (Some [203, 0, 113, 7], False)"
  by (simp add: observe_ipv4_def anyCGNAT_def isCGNAT_def to4_def isPrivateIPv4_def is_loopback_def
      is_link_local_unicast_def is_private_def is_multicast_def is_unspecified_def ip_equal_def
      ip_bytes_def ipv4_zero_def ipv6_zero_def v4_in_v6_prefix_def replicate_4)

lemma demo_probe:
  fixes c
  defines "c \<equiv> Probe (\<lambda>n a. None) demo_ifaces \<lparr>po_port = 0, po_dev = False, po_observed = None\<rparr>"
  shows "cap_claim_v4 c" "cap_can_hub c" "cap_public_v4 c = Some [203, 0, 113, 7]"
  by (simp_all add: c_def Probe_def demo_walk demo_observe canBindUDP_def)

theorem probe_ipv4_claim_witness:
  "\<not> isPrivateIPv4 (cap_public_v4
     (Probe (\<lambda>n a. None) demo_ifaces \<lparr>po_port = 0, po_dev = False, po_observed = None\<rparr>))"
  using probe_ipv4_claim [OF demo_probe(1)] by auto

text \<open>
  The exact condition for offering to be a hub: some usable IPv6 address, and the UDP port can
  be bound, or is in use by someone else, or at least some other UDP port can be bound. So a
  port that cannot be bound for another reason does not prevent the offer.
\<close>

theorem probe_can_be_hub:
  "let c = Probe listen ifaces opts in
   cap_can_hub c \<longleftrightarrow>
     cap_global_v6 c \<noteq> [] \<and>
     (case listen ''udp6'' (''[::]:'' @ decimal_int (cap_bind_port c)) of
        None \<Rightarrow> True
      | Some err \<Rightarrow> str_contains err ''address already in use'' \<or> listen ''udp6'' ''[::]:0'' = None)"
proof -
  let ?c = "Probe listen ifaces opts"
  have "cap_can_bind ?c = fst (canBindUDP listen (cap_bind_port ?c) (cap_global_v6 ?c \<noteq> []))"
    using Probe_fields(4) [of listen ifaces opts] by (metis fst_conv)
  then show ?thesis
    by (auto simp: Probe_fields(7) canBindUDP_def Let_def split: option.splits)
qed

text \<open>
  \<open>isGlobalIPv6\<close> accepts exactly the global unicast range \<open>2000::/3\<close>: a 16-byte address is
  accepted if and only if its first byte is between 0x20 and 0x3f; the other tests are implied.
\<close>

theorem isGlobalIPv6_exact:
  assumes "length b = 16"
  shows "isGlobalIPv6 (Some b) \<longleftrightarrow> 0x20 \<le> b ! 0 \<and> b ! 0 \<le> 0x3f"
  by (rule isGlobalIPv6_16 [OF assms])

theorem isGlobalIPv6_exact_witness: "isGlobalIPv6 (Some (0x2a # replicate 15 0))"
  using isGlobalIPv6_exact [of "0x2a # replicate 15 0"] by simp

text \<open>
  Outside a lab, a host that offers to be a hub has a global unicast IPv6 address, and that is
  what \<open>PickIPv6\<close> advertises.
\<close>

theorem pick_global:
  assumes "\<not> po_dev opts" "cap_can_hub (Probe listen ifaces opts)"
  shows "isGlobalIPv6 (PickIPv6 (Probe listen ifaces opts)) \<and>
    PickIPv6 (Probe listen ifaces opts) \<in> set (cap_global_v6 (Probe listen ifaces opts))"
proof -
  let ?c = "Probe listen ifaces opts"
  have "list_all isGlobalIPv6 (cap_global_v6 ?c)"
    using probe_ok_ifaces [of False "([], [])" ifaces] assms(1)
    by (simp add: Probe_fields(2) probe_ok_def)
  moreover have "cap_global_v6 ?c \<noteq> []" using assms(2) by (simp add: Probe_fields(7))
  ultimately obtain a r where "cap_global_v6 ?c = a # r" "isGlobalIPv6 a"
    by (cases "cap_global_v6 ?c") auto
  then show ?thesis by (simp add: PickIPv6_def)
qed

theorem pick_global_witness:
  "isGlobalIPv6 (PickIPv6
     (Probe (\<lambda>n a. None) demo_ifaces \<lparr>po_port = 0, po_dev = False, po_observed = None\<rparr>))"
  using pick_global [OF _ demo_probe(2)] by simp

end
