(* ===== verification/Community.thy ===== *)
theory Community
  imports Envelope Hub_Cache Identity_Store
begin

section \<open>Signed lists of community hubs (\<open>hub/community.go\<close>)\<close>

text \<open>
  A spoke can be provisioned with a list of hubs signed by a root key. The signature is over the
  SHA-256 of a canonical JSON text of some fields of the hubs. The JSON texts are parameters:
  \<open>js_wire\<close> of the canonical list, \<open>js_community\<close> and \<open>un_community\<close> of the file; \<open>Store_JSON\<close> and
  \<open>Hub_Files\<close> give them their values.
\<close>

record wire_hub =
  wh_name :: string
  wh_ed :: string
  wh_x :: string
  wh_v6 :: string
  wh_v4 :: string
  wh_port :: "16 word"
  wh_cloud :: bool

record community_file =
  cf_version :: int
  cf_root :: bytes
  cf_hubs :: "cached_hub list"
  cf_sig :: bytes

record community_json =
  js_wire :: "wire_hub list \<Rightarrow> bytes option"
  js_community :: "community_file \<Rightarrow> bytes option"
  un_community :: "bytes \<Rightarrow> community_file option"

datatype community_error =
    CommRead
  | CommJson
  | CommBadRoot
  | CommPin
  | CommBadSignature
  | CommWrite

definition wire_of :: "cached_hub \<Rightarrow> wire_hub" where
  "wire_of h =
     \<lparr>wh_name = ch_name h, wh_ed = mustHex (ch_ed h), wh_x = mustHex (ch_x h), wh_v6 = ch_v6 h,
      wh_v4 = ch_v4 h, wh_port = ch_port h, wh_cloud = ch_cloud h\<rparr>"

definition canonicalHubs :: "community_json \<Rightarrow> cached_hub list \<Rightarrow> bytes option" where
  "canonicalHubs J hubs = js_wire J (map wire_of hubs)"

text \<open>\<open>Verify\<close> gives the error, \<open>None\<close> for nil; a nil pin is \<open>None\<close>.\<close>

definition community_verify :: "crypto \<Rightarrow> community_json \<Rightarrow> bytes option \<Rightarrow> community_file \<Rightarrow> community_error option" where
  "community_verify C J pinned f =
     (if length (cf_root f) \<noteq> 32 then Some CommBadRoot
      else if (case pinned of None \<Rightarrow> False | Some p \<Rightarrow> p \<noteq> cf_root f) then Some CommPin
      else case canonicalHubs J (cf_hubs f) of
        None \<Rightarrow> Some CommJson
      | Some msg \<Rightarrow> (if \<not> ed_verify C (cf_root f) (sha256 msg) (cf_sig f) then Some CommBadSignature else None))"

definition fill_hub :: "cached_hub \<Rightarrow> cached_hub" where
  "fill_hub h0 =
     (let h = (if ch_source h0 = [] then h0\<lparr>ch_source := SrcCommunity\<rparr> else h0)
      in case ch_invite h of None \<Rightarrow> h | Some iv \<Rightarrow> h\<lparr>ch_short := ShortDisplay iv\<rparr>)"

definition LoadCommunity ::
  "crypto \<Rightarrow> community_json \<Rightarrow> disk \<Rightarrow> string \<Rightarrow> bytes option \<Rightarrow> community_error + community_file" where
  "LoadCommunity C J d path pinned =
     (case d path of
        None \<Rightarrow> Inl CommRead
      | Some b \<Rightarrow>
          (case un_community J b of
             None \<Rightarrow> Inl CommJson
           | Some f \<Rightarrow>
               (case community_verify C J pinned f of
                  Some e \<Rightarrow> Inl e
                | None \<Rightarrow> Inr (f\<lparr>cf_hubs := map fill_hub (cf_hubs f)\<rparr>))))"

definition SignCommunity :: "crypto \<Rightarrow> community_json \<Rightarrow> bytes \<Rightarrow> cached_hub list \<Rightarrow> community_error + community_file" where
  "SignCommunity C J root hubs =
     (case canonicalHubs J hubs of
        None \<Rightarrow> Inl CommJson
      | Some msg \<Rightarrow>
          Inr \<lparr>cf_version = 1, cf_root = ed_public C root, cf_hubs = hubs, cf_sig = ed_sign C root (sha256 msg)\<rparr>)"

definition community_save ::
  "community_json \<Rightarrow> disk_writer \<Rightarrow> community_file \<Rightarrow> string \<Rightarrow> disk \<Rightarrow> community_error option \<times> disk" where
  "community_save J wr f path d =
     (case js_community J f of
        None \<Rightarrow> (Some CommJson, d)
      | Some b \<Rightarrow> (case wr path (b @ [10]) d of (d', ok) \<Rightarrow> (if ok then None else Some CommWrite, d')))"

subsection \<open>What the signature covers\<close>

definition set_unsigned :: "int \<Rightarrow> instant \<Rightarrow> string \<Rightarrow> string \<Rightarrow> cached_hub \<Rightarrow> cached_hub" where
  "set_unsigned rtt seen src short h = h\<lparr>ch_rtt := rtt, ch_seen := seen, ch_source := src, ch_short := short\<rparr>"

lemma wire_of_unsigned [simp]: "wire_of (set_unsigned rtt seen src short h) = wire_of h"
  by (simp add: wire_of_def set_unsigned_def)

lemma verify_wires:
  "map wire_of hubs = map wire_of (cf_hubs f) \<Longrightarrow>
     community_verify C J pinned (f\<lparr>cf_hubs := hubs\<rparr>) = community_verify C J pinned f"
  by (simp add: community_verify_def canonicalHubs_def split: option.split)

lemma verify_signed_community:
  assumes "sign_correct C" "length (ed_public C root) = 32" "SignCommunity C J root hubs = Inr f"
  shows "community_verify C J pinned f =
    (if pinned = None \<or> pinned = Some (ed_public C root) then None else Some CommPin)"
  using assms
  by (auto simp: SignCommunity_def community_verify_def sign_correct_def split: option.splits)

text \<open>
  The signature does not protect the order in which the hubs of the list are tried: whoever can
  write the file may change the times, sources and short codes of its entries, and the list still
  verifies; with one time changed the second of two hubs is dialled first.
\<close>

theorem community_order_unsigned:
  assumes f: "community_verify C J pinned f = None" and hubs: "cf_hubs f = [a, b]"
    and keys: "dial_key a \<noteq> dial_key b" and src: "ch_source a \<noteq> []" "ch_source b \<noteq> []"
  shows "let b' = set_unsigned (ch_rtt b) (ch_seen a + 1) (ch_source b) (ch_short b) b in
    community_verify C J pinned (f\<lparr>cf_hubs := [a, b']\<rparr>) = None \<and>
    DialOrder [] [] [a, b'] [] [] = [b', a]"
proof -
  define b' where "b' = set_unsigned (ch_rtt b) (ch_seen a + 1) (ch_source b) (ch_short b) b"
  have b': "ch_seen b' = ch_seen a + 1" "dial_key b' = dial_key b" "ch_source b' = ch_source b"
    by (simp_all add: b'_def set_unsigned_def dial_key_def)
  have "community_verify C J pinned (f\<lparr>cf_hubs := [a, b']\<rparr>) = None"
    using f by (subst verify_wires) (simp_all add: hubs b'_def)
  moreover have "dial_rank SrcCommunity b' < dial_rank SrcCommunity a"
    by (simp add: dial_rank_def b' src_consts less_prod_def)
  then have "sort_key (dial_rank SrcCommunity) [a, b'] = [b', a]"
    by (simp add: sort_key_simps)
  then have "DialOrder [] [] [a, b'] [] [] = [b', a]"
    using keys src by (simp add: DialOrder_first_by segment_def with_source_def b')
  ultimately show ?thesis unfolding b'_def [symmetric] Let_def by blast
qed

subsection \<open>Properties\<close>

text \<open>
  A signed list reaches its users: what \<open>SignCommunity\<close> signs and \<open>Save\<close> writes, \<open>LoadCommunity\<close>
  gives back, for every hub with its source and short code filled in, to those who pin the
  signer's key or pin nothing; who pins another key gets an error. Conversely whatever is loaded
  under a pin carries a signature of the pinned key over the canonical text of its hubs.
\<close>

theorem community_roundtrip:
  assumes C: "sign_correct C" "length (ed_public C root) = 32"
    and f: "SignCommunity C J root hubs = Inr f"
    and json: "js_community J f = Some b" "un_community J (b @ [10]) = Some f"
  shows "LoadCommunity C J (snd (community_save J disk_write f path d)) path pinned =
      (if pinned = None \<or> pinned = Some (ed_public C root) then Inr (f\<lparr>cf_hubs := map fill_hub hubs\<rparr>)
       else Inl CommPin) \<and>
    (\<forall>d' g pin. LoadCommunity C J d' path (Some pin) = Inr g \<longrightarrow>
       (\<exists>raw msg. cf_hubs g = map fill_hub raw \<and> canonicalHubs J raw = Some msg \<and>
          ed_verify C pin (sha256 msg) (cf_sig g)))"
proof
  have "cf_hubs f = hubs" using f by (auto simp: SignCommunity_def split: option.splits)
  then show "LoadCommunity C J (snd (community_save J disk_write f path d)) path pinned =
      (if pinned = None \<or> pinned = Some (ed_public C root) then Inr (f\<lparr>cf_hubs := map fill_hub hubs\<rparr>)
       else Inl CommPin)"
    using verify_signed_community [OF C f, of pinned]
    by (auto simp: LoadCommunity_def community_save_def json disk_write_def split: option.splits if_splits)
  show "\<forall>d' g pin. LoadCommunity C J d' path (Some pin) = Inr g \<longrightarrow>
       (\<exists>raw msg. cf_hubs g = map fill_hub raw \<and> canonicalHubs J raw = Some msg \<and>
          ed_verify C pin (sha256 msg) (cf_sig g))"
    by (auto simp: LoadCommunity_def community_verify_def split: option.splits if_splits)
qed

definition demo_hub :: cached_hub where
  "demo_hub =
     \<lparr>ch_name = ''h'', ch_ed = replicate 32 7, ch_x = [], ch_v6 = [], ch_v4 = [], ch_port = 4433, ch_rtt = 0,
      ch_seen = 0, ch_source = [], ch_cloud = False, ch_short = []\<rparr>"

definition demo_community_json :: "community_file \<Rightarrow> community_json" where
  "demo_community_json f =
     \<lparr>js_wire = (\<lambda>ws. Some (concat (map (\<lambda>w. bytes_of (wh_ed w)) ws))), js_community = (\<lambda>f. Some []),
      un_community = (\<lambda>b. Some f)\<rparr>"

theorem community_roundtrip_witness:
  "\<exists>f. LoadCommunity demo_crypto (demo_community_json f)
     (snd (community_save (demo_community_json f) disk_write f ''c'' (\<lambda>p. None))) ''c'' (Some (replicate 32 3)) =
   Inr (f\<lparr>cf_hubs := [demo_hub\<lparr>ch_source := SrcCommunity\<rparr>]\<rparr>)"
proof -
  let ?root = "replicate 64 3 :: bytes"
  obtain f where f: "SignCommunity demo_crypto (demo_community_json undefined) ?root [demo_hub] = Inr f"
    by (simp add: SignCommunity_def canonicalHubs_def demo_community_json_def)
  then have f': "SignCommunity demo_crypto (demo_community_json f) ?root [demo_hub] = Inr f"
    by (simp add: SignCommunity_def canonicalHubs_def demo_community_json_def)
  have pub: "ed_public demo_crypto ?root = replicate 32 3" by (simp add: demo_crypto_def)
  have "fill_hub demo_hub = demo_hub\<lparr>ch_source := SrcCommunity\<rparr>"
    by (simp add: fill_hub_def demo_hub_def ch_invite_def)
  then show ?thesis
    using community_roundtrip [OF demo_crypto_ok(1) _ f', of "[]" "''c''" "\<lambda>p. None" "Some (replicate 32 3)"]
    by (intro exI [of _ f]) (simp add: pub demo_community_json_def)
qed

end
