(* ===== verification/Local_API.thy ===== *)
theory Local_API
  imports Go_Strings "HOL-Library.AList"
begin

section \<open>The loopback interface for the app (\<open>hub/api.go\<close>)\<close>

text \<open>
  The handlers of the local control plane. The functions they call are fields that may be nil; a
  function that can change the program acts on a state \<open>'s\<close>. The JSON text of an answer is not
  modelled: an answer is the object that is encoded. \<open>un_send\<close> decodes the body of a send request
  and gives the error text when it cannot.
\<close>

datatype json_value = JString string | JOther bytes

type_synonym json_object = "(string \<times> json_value) list"

datatype reply =
    HttpError nat string
  | JsonReply json_object

record http_request =
  rq_path :: string
  rq_method :: string
  rq_body :: bytes

record 's local_api =
  la_status :: "('s \<Rightarrow> json_object) option"
  la_invite :: "('s \<Rightarrow> string) option"
  la_qr :: "('s \<Rightarrow> string) option"
  la_become :: "('s \<Rightarrow> (string \<times> string option) \<times> 's) option"
  la_stop :: "('s \<Rightarrow> 's) option"
  la_send :: "(string \<Rightarrow> string \<Rightarrow> 's \<Rightarrow> string option \<times> 's) option"
  la_banner :: "('s \<Rightarrow> string) option"

definition api_status :: "'s local_api \<Rightarrow> 's \<Rightarrow> reply \<times> 's" where
  "api_status a s =
     (let out = (case la_status a of None \<Rightarrow> [] | Some f \<Rightarrow> f s);
          out' = (case la_banner a of None \<Rightarrow> out | Some b \<Rightarrow> AList.update ''banner'' (JString (b s)) out)
      in (JsonReply out', s))"

definition api_invite :: "'s local_api \<Rightarrow> 's \<Rightarrow> reply \<times> 's" where
  "api_invite a s =
     (let out = (case la_invite a of None \<Rightarrow> [] | Some f \<Rightarrow> [(''invite'', JString (f s))]);
          out' = (case la_qr a of None \<Rightarrow> out | Some q \<Rightarrow> AList.update ''qr_payload'' (JString (q s)) out)
      in (JsonReply out', s))"

definition post_only :: "http_request \<Rightarrow> ('s \<Rightarrow> reply \<times> 's) \<Rightarrow> 's \<Rightarrow> reply \<times> 's" where
  "post_only r h s = (if rq_method r \<noteq> ''POST'' then (HttpError 405 ''POST'', s) else h s)"

definition api_become :: "'s local_api \<Rightarrow> 's \<Rightarrow> reply \<times> 's" where
  "api_become a s =
     (case la_become a of
        None \<Rightarrow> (HttpError 503 ''unavailable'', s)
      | Some f \<Rightarrow>
          (case f s of
             ((msg, Some e), s') \<Rightarrow> (JsonReply [(''error'', JString e), (''message'', JString msg)], s')
           | ((msg, None), s') \<Rightarrow> (JsonReply [(''ok'', JString ''1''), (''message'', JString msg)], s')))"

definition api_stop :: "'s local_api \<Rightarrow> 's \<Rightarrow> reply \<times> 's" where
  "api_stop a s =
     (JsonReply [(''ok'', JString ''1'')], case la_stop a of None \<Rightarrow> s | Some f \<Rightarrow> f s)"

definition api_send :: "(bytes \<Rightarrow> string + (string \<times> string)) \<Rightarrow> bytes \<Rightarrow> 's local_api \<Rightarrow> 's \<Rightarrow> reply \<times> 's" where
  "api_send un_send body a s =
     (case un_send body of
        Inl e \<Rightarrow> (HttpError 400 e, s)
      | Inr (to, msg) \<Rightarrow>
          (case la_send a of
             None \<Rightarrow> (HttpError 503 ''unavailable'', s)
           | Some f \<Rightarrow>
               (case f to msg s of
                  (Some e, s') \<Rightarrow> (JsonReply [(''error'', JString e)], s')
                | (None, s') \<Rightarrow> (JsonReply [(''ok'', JString ''1'')], s'))))"

text \<open>The routes, for a path in the clean form the multiplexer matches; any other path is not found.\<close>

definition api_handle ::
  "(bytes \<Rightarrow> string + (string \<times> string)) \<Rightarrow> 's local_api \<Rightarrow> http_request \<Rightarrow> 's \<Rightarrow> reply \<times> 's" where
  "api_handle un_send a r s =
     (if rq_path r = ''/v1/status'' then api_status a s
      else if rq_path r = ''/v1/invite'' then api_invite a s
      else if rq_path r = ''/v1/become-hub'' then post_only r (api_become a) s
      else if rq_path r = ''/v1/stop-hub'' then post_only r (api_stop a) s
      else if rq_path r = ''/v1/send'' then post_only r (api_send un_send (rq_body r) a) s
      else (HttpError 404 ''404 page not found'', s))"

subsection \<open>Properties\<close>

text \<open>
  C38: The control plane changes the program only through its three commands. An error answer
  leaves the state alone and is 404 for an unknown path, 405 for a command that is not a POST,
  400 for a send whose body cannot be decoded (before anything is called), 503 for a command
  without a function; a JSON answer either reports status or invite and changes nothing, or
  comes from a POST and the new state is that of the one function installed for the command.
\<close>

theorem api_outcomes:
  "case api_handle un_send a r s of
     (HttpError code msg, s') \<Rightarrow> s' = s \<and>
       code = (if rq_path r \<notin> {''/v1/status'', ''/v1/invite'', ''/v1/become-hub'', ''/v1/stop-hub'', ''/v1/send''} then 404
               else if rq_method r \<noteq> ''POST'' then 405
               else if rq_path r = ''/v1/send'' \<and> isl (un_send (rq_body r)) then 400
               else 503)
   | (JsonReply out, s') \<Rightarrow>
       rq_path r \<in> {''/v1/status'', ''/v1/invite''} \<and> s' = s \<or>
       rq_method r = ''POST'' \<and>
         (rq_path r = ''/v1/become-hub'' \<and> (\<exists>f. la_become a = Some f \<and> s' = snd (f s)) \<or>
          rq_path r = ''/v1/stop-hub'' \<and> s' = (case la_stop a of None \<Rightarrow> s | Some f \<Rightarrow> f s) \<or>
          rq_path r = ''/v1/send'' \<and>
            (\<exists>f to msg. la_send a = Some f \<and> un_send (rq_body r) = Inr (to, msg) \<and> s' = snd (f to msg s)))"
proof -
  have become: "case api_become a s of (HttpError c m, s') \<Rightarrow> s' = s \<and> c = 503
      | (JsonReply _, s') \<Rightarrow> \<exists>f. la_become a = Some f \<and> s' = snd (f s)"
    by (auto simp: api_become_def split: option.split prod.split)
  have send: "case api_send un_send (rq_body r) a s of
        (HttpError c m, s') \<Rightarrow> s' = s \<and> c = (if isl (un_send (rq_body r)) then 400 else 503)
      | (JsonReply _, s') \<Rightarrow>
          \<exists>f to msg. la_send a = Some f \<and> un_send (rq_body r) = Inr (to, msg) \<and> s' = snd (f to msg s)"
    by (auto simp: api_send_def split: option.split prod.split sum.split)
  show ?thesis
    using become send
    by (auto simp: api_handle_def post_only_def api_status_def api_invite_def api_stop_def Let_def
        split: prod.splits reply.splits if_splits)
qed

end
