(* ===== verification/Lan_Discovery.thy ===== *)
theory Lan_Discovery
  imports Invite_Codec
begin

section \<open>Discovery on the local network (\<open>hub/mdns.go\<close>)\<close>

text \<open>
  A hub announces its invite in UDP packets to two multicast groups; a spoke that browses
  collects the invites it hears in a channel of eight places, which both listeners fill and which
  drops what finds no place. A read of a listener is \<open>None\<close> when it times out or fails.
\<close>

definition lanPort :: nat where "lanPort = 53535"
definition lan_prefix :: string where "lan_prefix = ''starmesh-lan ''"
definition lan_buffer :: nat where "lan_buffer = 2048"
definition lan_channel :: nat where "lan_channel = 8"

definition AdvertiseLAN :: "(string \<times> string) list" where
  "AdvertiseLAN = [(''udp6'', ''[ff02::1]:'' @ decimal lanPort), (''udp4'', ''224.0.0.251:'' @ decimal lanPort)]"

definition BrowseLAN :: "(string \<times> string) list" where
  "BrowseLAN = [(''udp6'', ''[::]:'' @ decimal lanPort), (''udp4'', ''0.0.0.0:'' @ decimal lanPort)]"

text \<open>The packets one announcer writes: one at once and one per tick of fifteen seconds.\<close>

definition announce :: "bool \<Rightarrow> string \<Rightarrow> nat \<Rightarrow> bytes list" where
  "announce opened payload ticks =
     (if opened then replicate (1 + ticks) (bytes_of (lan_prefix @ payload)) else [])"

definition listen_step :: "go_unicode \<Rightarrow> string list \<Rightarrow> bytes option \<Rightarrow> string list" where
  "listen_step U ch packet =
     (case packet of
        None \<Rightarrow> ch
      | Some p \<Rightarrow>
          (let s = string_of (take lan_buffer p) in
           if \<not> has_prefix s lan_prefix then ch
           else let iv = trim_space U (drop (length lan_prefix) s) in
             if length ch < lan_channel then ch @ [iv] else ch))"

definition listenLAN :: "go_unicode \<Rightarrow> string list \<Rightarrow> bytes option list \<Rightarrow> string list" where
  "listenLAN U ch packets = foldl (listen_step U) ch packets"

text \<open>What one packet says, if it is a beacon.\<close>

definition beacon :: "go_unicode \<Rightarrow> bytes option \<Rightarrow> string option" where
  "beacon U packet =
     (case packet of
        None \<Rightarrow> None
      | Some p \<Rightarrow>
          (if has_prefix (string_of (take lan_buffer p)) lan_prefix
           then Some (trim_space U (drop (length lan_prefix) (string_of (take lan_buffer p)))) else None))"

lemma listen_step_beacon:
  "listen_step U ch p = (case beacon U p of None \<Rightarrow> ch | Some t \<Rightarrow> if length ch < lan_channel then ch @ [t] else ch)"
  by (simp add: listen_step_def beacon_def Let_def split: option.split)

lemma listenLAN_spec:
  "length ch \<le> lan_channel \<Longrightarrow>
     listenLAN U ch ps = ch @ take (lan_channel - length ch) (List.map_filter (beacon U) ps)"
proof (induction ps arbitrary: ch)
  case (Cons p ps)
  show ?case
  proof (cases "beacon U p")
    case (Some t)
    then show ?thesis
      using Cons.IH [of "ch @ [t]"] Cons.IH [of ch] Cons.prems
      by (auto simp: listenLAN_def listen_step_beacon List.map_filter_simps Suc_diff_Suc take_Cons'
          split: if_splits)
  qed (use Cons in \<open>simp add: listenLAN_def listen_step_beacon List.map_filter_simps\<close>)
qed (simp add: listenLAN_def List.map_filter_simps)

lemma invite_plain:
  assumes "encode_invite iv = Inr s"
  shows "is_ascii s" "\<forall>c \<in> set s. \<not> is_space c"
  using encode_Inr [OF assms] prefix_plain alphabet_plain b32_encode_alphabet
  by (fastforce simp: is_ascii_def list_all_iff)+

lemma beacon_of_invite:
  assumes "wf_invite iv" "encode_invite iv = Inr s"
  shows "beacon U (Some (bytes_of (lan_prefix @ s))) = Some s"
proof -
  have "length (lan_prefix @ s) \<le> lan_buffer"
    using encoded_length(1) [OF assms] by (simp add: lan_prefix_def lan_buffer_def)
  then have "string_of (take lan_buffer (bytes_of (lan_prefix @ s))) = lan_prefix @ s"
    by (metis length_bytes_of string_of_bytes_of take_all)
  then show ?thesis
    using trim_space_id [OF invite_plain [OF assms(2)]] by (simp add: beacon_def)
qed

subsection \<open>Properties\<close>

text \<open>
  C37: Discovery brings the invite across unchanged: a browsing spoke whose channel has a place
  left gets, from the first announcement of a hub, exactly the text the hub encoded, whatever
  other packets and failed reads come before it; every later packet leaves it in place. In
  general the channel holds the first eight beacons heard.
\<close>

theorem lan_discovery:
  assumes "wf_invite iv" "encode_invite iv = Inr s" "length ch < lan_channel"
    and "List.map_filter (beacon U) noise = []" "announce True s ticks = p # ps"
  shows "take (Suc (length ch)) (listenLAN U ch (noise @ Some p # rest)) = ch @ [s]"
proof -
  have p: "p = bytes_of (lan_prefix @ s)" using assms(5) by (simp add: announce_def)
  have "List.map_filter (beacon U) (noise @ Some p # rest) = s # List.map_filter (beacon U) rest"
    using assms(4) beacon_of_invite [OF assms(1,2), of U]
    by (simp add: p List.map_filter_def)
  then show ?thesis
    using assms(3) by (simp add: listenLAN_spec take_Cons')
qed

theorem lan_discovery_witness:
  "\<exists>s. encode_invite demo_invite = Inr s \<and>
     take 1 (listenLAN plain_unicode [] [None, Some [1, 2], Some (bytes_of (''starmesh-lan '' @ s)), None]) = [s]"
proof -
  from encode_total [OF demo_ok(2)] obtain s where s: "encode_invite demo_invite = Inr s" ..
  have "List.map_filter (beacon plain_unicode) [None, Some [1, 2]] = []"
    by (simp add: List.map_filter_simps beacon_def lan_prefix_def has_prefix_def lan_buffer_def string_of_def)
  from lan_discovery [OF demo_ok(1) s _ this, of "[]" 0 "bytes_of (lan_prefix @ s)" "[]" "[None]"] s show ?thesis
    by (simp add: announce_def lan_channel_def lan_prefix_def)
qed

end
