(* ===== verification/Invite_Print.thy ===== *)
theory Invite_Print
  imports Invite_Codec
begin

section \<open>Printing an invite with its QR code (\<open>hub/qr.go\<close>)\<close>

text \<open>
  What \<open>PrintInvite\<close> writes. The QR encoder is third-party code: \<open>qr_encode\<close> gives the code of a
  text, \<open>None\<close> when it fails; a code is its size and its black modules.
\<close>

record qr_code =
  qr_size :: nat
  qr_black :: "nat \<Rightarrow> nat \<Rightarrow> bool"

definition nl :: string where "nl = [CHR 0x0A]"

definition qr_block :: string where "qr_block = string_of [0xe2, 0x96, 0x88, 0xe2, 0x96, 0x88]"
definition qr_white :: string where "qr_white = ''  ''"

definition qr_cell :: "qr_code \<Rightarrow> int \<Rightarrow> int \<Rightarrow> string" where
  "qr_cell c x y =
     (let n = int (qr_size c) in
      if x < 0 \<or> y < 0 \<or> x \<ge> n \<or> y \<ge> n \<or> \<not> qr_black c (nat x) (nat y) then qr_white else qr_block)"

definition qr_row :: "qr_code \<Rightarrow> int \<Rightarrow> string" where
  "qr_row c y = concat (map (\<lambda>x. qr_cell c x y) [-1..int (qr_size c)]) @ nl"

definition qrASCII :: "qr_code \<Rightarrow> string" where
  "qrASCII c = concat (map (qr_row c) [-1..int (qr_size c)])"

datatype print_error = PrintEncode invite_error | PrintQR

definition print_head :: "invite \<Rightarrow> string \<Rightarrow> string" where
  "print_head iv blob =
     ''Starmesh hub invite (no DNS)'' @ nl
     @ ''  name:    '' @ inv_name iv @ nl
     @ ''  short:   '' @ ShortDisplay iv @ nl
     @ ''  ipv6:    '' @ AddrIPv6 iv @ nl
     @ (if inv_ipv4 iv \<noteq> None then ''  ipv4:    '' @ AddrIPv4 iv @ nl
        else ''  ipv4:    (none '' @ string_of [0xe2, 0x80, 0x94] @ '' CGNAT / not claimed)'' @ nl)
     @ (if inv_cloud_seed iv then ''  class:   cloud seed (last resort)'' @ nl else [])
     @ ''  blob:    '' @ blob @ nl
     @ nl"

text \<open>The text written and the error returned, if any; writing itself is not checked by the code.\<close>

definition PrintInvite :: "(string \<Rightarrow> qr_code option) \<Rightarrow> invite \<Rightarrow> string \<times> print_error option" where
  "PrintInvite qr_encode iv =
     (case encode_invite iv of
        Inl e \<Rightarrow> ([], Some (PrintEncode e))
      | Inr blob \<Rightarrow>
          (case qr_encode blob of
             None \<Rightarrow> (print_head iv blob, Some PrintQR)
           | Some code \<Rightarrow>
               (print_head iv blob @ qrASCII code @ nl @ nl
                @ ''Family phones on this LAN can also pick it up via mDNS/LAN beacon.'' @ nl
                @ ''Short code works only if the hub is already in cache or the community list.'' @ nl,
                None)))"

subsection \<open>The drawing shows the code\<close>

text \<open>
  A row is read back cell by cell: a block is three bytes twice, a blank two spaces. The drawing
  determines the modules, and it has a quiet zone of one module on every side.
\<close>

fun read_cells :: "string \<Rightarrow> bool list" where
  "read_cells (a # b # r) = (if a = CHR '' '' then False # read_cells r else True # read_cells (drop 4 r))"
| "read_cells _ = []"

lemma read_cell: "read_cells (qr_cell c x y @ r) =
   (0 \<le> x \<and> 0 \<le> y \<and> x < int (qr_size c) \<and> y < int (qr_size c) \<and> qr_black c (nat x) (nat y)) # read_cells r"
proof -
  have "read_cells (qr_block @ r) = True # read_cells r" "read_cells (qr_white @ r) = False # read_cells r"
    by (simp_all add: qr_block_def qr_white_def string_of_def char_of_byte_def char_of_eq_iff)
  then show ?thesis by (auto simp: qr_cell_def Let_def)
qed

lemma read_cells_row:
  "read_cells (concat (map (\<lambda>x. qr_cell c x y) xs)) =
     map (\<lambda>x. 0 \<le> x \<and> 0 \<le> y \<and> x < int (qr_size c) \<and> y < int (qr_size c) \<and> qr_black c (nat x) (nat y)) xs"
  by (induction xs) (simp_all add: read_cell)

lemma upto_nat: "[0..int n - 1] = map int [0..<n]"
  by (induction n) (simp_all add: upto_rec2)

theorem qr_drawing:
  "read_cells (butlast (qr_row c y)) =
     (if 0 \<le> y \<and> y < int (qr_size c)
      then False # map (\<lambda>x. qr_black c x (nat y)) [0..<qr_size c] @ [False]
      else replicate (qr_size c + 2) False)"
proof -
  let ?n = "int (qr_size c)"
  have range: "[-1..?n] = -1 # map int [0..<qr_size c] @ [?n]"
    using upto_rec1 [of "-1" ?n] upto_rec2 [of 0 ?n] by (simp add: upto_nat)
  have "butlast (qr_row c y) = concat (map (\<lambda>x. qr_cell c x y) [-1..?n])"
    by (simp add: qr_row_def nl_def butlast_append)
  then show ?thesis
    by (simp only: read_cells_row range) (auto simp: replicate_append_same [symmetric] map_replicate_const comp_def)
qed

end
