(* ===== verification/Command_Line.thy ===== *)
theory Command_Line
  imports Spoke_Behaviour Capability_Probe Community Local_API Lan_Discovery Invite_Print
begin

section \<open>The command line program (\<open>hub/cmd/starmesh/main.go\<close>)\<close>

text \<open>
  How the commands put the components together. Parsed flags are records; reading flags, signals,
  standard input and output are outside the model: a command is a function from its flags, the
  disk and what the machine answers to its outcome. Logging is left out.
\<close>

subsection \<open>Choosing a command\<close>

datatype action =
    RunHub "string list"
  | RunSpoke "string list"
  | RunProbe "string list"
  | RunBecomeHub "string list"
  | RunInvite "string list"
  | RunIdentity "string list"
  | RunCommunity "string list"
  | Help
  | Usage nat

text \<open>\<open>os.Args\<close> includes the program's name; \<open>Usage\<close> carries the exit code.\<close>

definition main_action :: "string list \<Rightarrow> action" where
  "main_action argv =
     (if length argv < 2 then Usage 2
      else let c = argv ! 1; rest = drop 2 argv in
        if c = ''hub'' then RunHub rest
        else if c = ''spoke'' then RunSpoke rest
        else if c = ''probe'' then RunProbe rest
        else if c = ''become-hub'' then RunBecomeHub rest
        else if c = ''invite'' then RunInvite rest
        else if c = ''identity'' then RunIdentity rest
        else if c = ''community'' then RunCommunity rest
        else if c = ''help'' \<or> c = ''-h'' \<or> c = ''--help'' then Help
        else Usage 2)"

definition exit_code :: "'e option \<Rightarrow> nat" where
  "exit_code err = (if err = None then 0 else 1)"

datatype cli_error =
    CliIdentity identity_error
  | CliCommunity community_error
  | CliInvite invite_error
  | CliPrint print_error
  | CliStart
  | CliRead
  | CliJson
  | CliNotHub
  | CliRefused
  | CliMissingKey
  | CliKeyHex hex_error
  | CliKeyLength
  | CliBadKey
  | CliUsage

subsection \<open>Keys and invites\<close>

definition parseKey :: "go_unicode \<Rightarrow> string \<Rightarrow> cli_error + bytes" where
  "parseKey U s0 =
     (let s = trim_space U s0 in
      if s = [] then Inl CliMissingKey
      else case hex_decode s of
        Inl e \<Rightarrow> Inl (CliKeyHex e)
      | Inr b \<Rightarrow> (if length b \<noteq> 32 then Inl CliKeyLength else Inr b))"

definition min_int :: "int \<Rightarrow> int \<Rightarrow> int" where
  "min_int a b = (if a < b then a else b)"

record invite_flags =
  vf_name :: string
  vf_ipv6 :: string
  vf_ipv4 :: string
  vf_port :: nat
  vf_key :: string
  vf_seed :: bool

text \<open>\<open>invite encode\<close>: the two lines printed; an address that does not parse is nil.\<close>

definition cli_invite_encode :: "go_unicode \<Rightarrow> invite_flags \<Rightarrow> cli_error + (string \<times> string)" where
  "cli_invite_encode U f =
     (case parseKey U (vf_key f) of
        Inl e \<Rightarrow> Inl e
      | Inr raw \<Rightarrow>
          (let iv = \<lparr>inv_version = invite_version, inv_pub_key = copy32 raw,
                 inv_ipv6 = (if vf_ipv6 f \<noteq> [] then parse_ip (vf_ipv6 f) else None),
                 inv_ipv4 = (if vf_ipv4 f \<noteq> [] then parse_ip (vf_ipv4 f) else None),
                 inv_port = word_of_nat (vf_port f), inv_expiry = zero_time, inv_name = vf_name f,
                 inv_cloud_seed = vf_seed f\<rparr>
           in case encode_invite iv of
                Inl e \<Rightarrow> Inl (CliInvite e)
              | Inr blob \<Rightarrow> Inr (blob, ShortDisplay iv)))"

text \<open>\<open>invite decode\<close>: the arguments joined, or standard input when they are empty.\<close>

definition cli_invite_decode :: "go_unicode \<Rightarrow> string list \<Rightarrow> string \<Rightarrow> cli_error + invite" where
  "cli_invite_decode U args stdin =
     (let raw0 = concat args; raw = (if raw0 = [] then stdin else raw0)
      in case decode_invite U raw None of Inl e \<Rightarrow> Inl (CliInvite e) | Inr iv \<Rightarrow> Inr iv)"

text \<open>
  \<open>invite\<close>: the dispatch on its first argument. \<open>words\<close> and \<open>flags\<close> are what the \<open>flag\<close> package
  makes of the rest for the two subcommands.
\<close>

datatype invite_output = Decoded invite | Encoded string string

definition cmdInvite ::
  "go_unicode \<Rightarrow> (string list \<Rightarrow> string list) \<Rightarrow> (string list \<Rightarrow> invite_flags) \<Rightarrow> string \<Rightarrow> string list \<Rightarrow> cli_error + invite_output" where
  "cmdInvite U words flags stdin args =
     (case args of
        [] \<Rightarrow> Inl CliUsage
      | c # rest \<Rightarrow>
          (if c = ''decode'' then
             (case cli_invite_decode U (words rest) stdin of Inl e \<Rightarrow> Inl e | Inr iv \<Rightarrow> Inr (Decoded iv))
           else if c = ''encode'' then
             (case cli_invite_encode U (flags rest) of Inl e \<Rightarrow> Inl e | Inr (blob, short) \<Rightarrow> Inr (Encoded blob short))
           else Inl CliUsage))"

text \<open>
  What \<open>invite encode\<close> prints, \<open>invite decode\<close> reads, given as one argument, in pieces or on standard
  input: the name cut to 32 bytes, the flags' port, key and role, no expiry.
\<close>

lemma invite_commands_agree:
  assumes enc: "cmdInvite U words flags i0 (''encode'' # fl) = Inr (Encoded blob short)"
    and blob: "(if concat (words ws) = [] then stdin else concat (words ws)) = blob"
  shows "\<exists>raw iv. parseKey U (vf_key (flags fl)) = Inr raw \<and> inv_pub_key iv = raw \<and>
    inv_name iv = vf_name (flags fl) \<and> inv_cloud_seed iv = vf_seed (flags fl) \<and>
    inv_port iv = word_of_nat (vf_port (flags fl)) \<and>
    cmdInvite U words flags stdin (''decode'' # ws) =
      (if \<not> inv_cloud_seed iv \<and> canon_ipv6 (inv_ipv6 iv) = None then Inl (CliInvite ErrNoIPv6)
       else Inr (Decoded (canon_invite iv)))"
proof -
  from enc have "cli_invite_encode U (flags fl) = Inr (blob, short)"
    by (auto simp: cmdInvite_def split: sum.splits prod.splits)
  then obtain raw iv where k: "parseKey U (vf_key (flags fl)) = Inr raw" and e: "encode_invite iv = Inr blob"
    and iv: "inv_pub_key iv = copy32 raw" "inv_name iv = vf_name (flags fl)" "inv_cloud_seed iv = vf_seed (flags fl)"
      "inv_port iv = word_of_nat (vf_port (flags fl))"
    by (auto simp: cli_invite_encode_def Let_def split: sum.splits)
  from k have len: "length raw = 32" by (auto simp: parseKey_def Let_def split: sum.splits if_splits)
  then have "wf_invite iv" by (simp add: wf_invite_def iv(1))
  from decode_encode [OF this e, of U None]
  have "cmdInvite U words flags stdin (''decode'' # ws) =
      (if \<not> inv_cloud_seed iv \<and> canon_ipv6 (inv_ipv6 iv) = None then Inl (CliInvite ErrNoIPv6)
       else Inr (Decoded (canon_invite iv)))"
    using blob by (simp add: cmdInvite_def cli_invite_decode_def Let_def)
  with k iv len show ?thesis by (intro exI [of _ raw] exI [of _ iv]) simp
qed

subsection \<open>Probing\<close>

record probe_flags =
  bf_dev :: bool
  bf_port :: int

definition cli_probe :: "os_listen \<Rightarrow> iface list \<Rightarrow> probe_flags \<Rightarrow> cap \<times> ra_report \<times> cli_error option" where
  "cli_probe listen ifaces f =
     (let c = Probe listen ifaces \<lparr>po_port = bf_port f, po_dev = bf_dev f, po_observed = None\<rparr>
      in (c, ProbeRA ifaces, if cap_can_hub c then None else Some CliNotHub))"

subsection \<open>Running a hub\<close>

text \<open>
  The configuration \<open>runHub\<close> makes from its arguments and the identity's name.
\<close>

definition hub_name :: "string \<Rightarrow> identity \<Rightarrow> string" where
  "hub_name name i =
     (let n1 = (if name = [] then id_name i else name) in if n1 = [] then ''starmesh-hub'' else n1)"

definition hub_config :: "string \<Rightarrow> int \<Rightarrow> bool \<Rightarrow> bool \<Rightarrow> cap \<Rightarrow> string list \<Rightarrow> server_config" where
  "hub_config name port dev seed c peers =
     (let cfg = \<lparr>cfg_name = name, cfg_host = [], cfg_port = port, cfg_v6only = (\<not> cap_claim_v4 c),
            cfg_claim_v4 = cap_claim_v4 c, cfg_public_v6 = PickIPv6 c, cfg_public_v4 = cap_public_v4 c,
            cfg_cloud = seed, cfg_dev = dev, cfg_capture = False, cfg_peers = peers\<rparr>
      in if dev \<and> cfg_public_v6 cfg = None
         then cfg\<lparr>cfg_public_v6 := parse_ip ''::1'', cfg_host := ''::1'', cfg_v6only := True\<rparr>
         else cfg)"

text \<open>
  A hub that runs: the server, what was printed, the payload of its LAN beacon and the functions
  of its local interface, whose state is the server and whether it was told to stop. Starting
  needs the address that was bound (\<open>None\<close> when \<open>Start\<close> fails).
\<close>

record hub_machine =
  hm_random_ed :: "bytes option"
  hm_random_x :: "bytes option"
  hm_mkdir :: bool
  hm_bound :: "string option"
  hm_now :: instant
  hm_qr :: "string \<Rightarrow> qr_code option"
  hm_js_status :: "hub_status list \<Rightarrow> bytes"

record running_hub =
  rh_server :: server
  rh_dialled :: "invite list"
  rh_printed :: string
  rh_beacon :: string
  rh_api :: "(server \<times> bool) local_api option"

definition hub_api :: "(hub_status list \<Rightarrow> bytes) \<Rightarrow> string \<Rightarrow> string \<Rightarrow> string \<Rightarrow> (server \<times> bool) local_api" where
  "hub_api js name blob short =
     (let ban = ''Hub: '' @ name @ '' (IPv6 Starlink)'' in
      \<lparr>la_status = Some (\<lambda>(s, _). [(''role'', JString ''hub''), (''banner'', JString ban),
           (''hubs'', JOther (js (Status s))), (''invite'', JString blob), (''short'', JString short)]),
       la_invite = Some (\<lambda>_. blob), la_qr = Some (\<lambda>_. blob), la_become = None,
       la_stop = Some (\<lambda>(s, _). (s, True)), la_send = None, la_banner = Some (\<lambda>_. ban)\<rparr>)"

definition runHub ::
  "spoke_env \<Rightarrow> identity_json \<Rightarrow> hub_machine \<Rightarrow> disk \<Rightarrow> string \<Rightarrow> string \<Rightarrow> int \<Rightarrow> bool \<Rightarrow> bool \<Rightarrow> cap
     \<Rightarrow> string list \<Rightarrow> string \<Rightarrow> (cli_error + running_hub) \<times> disk" where
  "runHub E IJ M d home name port dev seed c peers api_addr =
     (case LoadOrCreateIdentity (en_crypto E) IJ (hm_mkdir M) (en_write E) (hm_random_ed M) (hm_random_x M) d home name of
        (Inl e, d') \<Rightarrow> (Inl (CliIdentity e), d')
      | (Inr i, d') \<Rightarrow>
          (let srv = NewServer i (hub_config (hub_name name i) port dev seed c peers) in
           case hm_bound M of
             None \<Rightarrow> (Inl CliStart, d')
           | Some addr \<Rightarrow>
               (case server_start (en_unicode E) (hm_now M) addr srv of
                  (srv', dialled) \<Rightarrow>
                    (let iv = the (srv_inv srv') in
                     case PrintInvite (hm_qr M) iv of
                       (_, Some e) \<Rightarrow> (Inl (CliPrint e), d')
                     | (printed, None) \<Rightarrow>
                         (let blob = (case encode_invite iv of Inl _ \<Rightarrow> [] | Inr b \<Rightarrow> b) in
                          (Inr \<lparr>rh_server = srv', rh_dialled = dialled, rh_printed = printed, rh_beacon = blob,
                               rh_api = (if api_addr = [] then None
                                 else Some (hub_api (hm_js_status M) (hub_name name i) blob (ShortDisplay iv)))\<rparr>,
                           d'))))))"

record hub_flags =
  hf_dev :: bool
  hf_name :: string
  hf_port :: int
  hf_seed :: bool
  hf_peer :: string
  hf_force :: bool
  hf_home :: string
  hf_api :: string

text \<open>\<open>hub\<close> and \<open>become-hub\<close>: probe first, then refuse or run.\<close>

definition cmdHub ::
  "spoke_env \<Rightarrow> identity_json \<Rightarrow> hub_machine \<Rightarrow> os_listen \<Rightarrow> iface list \<Rightarrow> disk \<Rightarrow> hub_flags
     \<Rightarrow> (cli_error + running_hub) \<times> disk" where
  "cmdHub E IJ M listen ifaces d f =
     (let c = Probe listen ifaces \<lparr>po_port = hf_port f, po_dev = hf_dev f, po_observed = None\<rparr> in
      if \<not> cap_can_hub c \<and> \<not> hf_force f \<and> \<not> hf_seed f then (Inl CliRefused, d)
      else runHub E IJ M d (hf_home f) (hf_name f) (hf_port f) (hf_dev f) (hf_seed f) c
        (if hf_peer f \<noteq> [] then split_on CHR '','' (hf_peer f) else []) (hf_api f))"

definition cmdBecomeHub ::
  "spoke_env \<Rightarrow> identity_json \<Rightarrow> hub_machine \<Rightarrow> os_listen \<Rightarrow> iface list \<Rightarrow> disk \<Rightarrow> string \<Rightarrow> string \<Rightarrow> int \<Rightarrow> bool
     \<Rightarrow> (cli_error + running_hub) \<times> disk" where
  "cmdBecomeHub E IJ M listen ifaces d home name port dev =
     (let c = Probe listen ifaces \<lparr>po_port = port, po_dev = dev, po_observed = None\<rparr> in
      if \<not> cap_can_hub c then (Inl CliRefused, d)
      else runHub E IJ M d home name port dev False c [] ''127.0.0.1:7780'')"

subsection \<open>Running a spoke\<close>

record spoke_flags =
  sf_name :: string
  sf_invite :: string
  sf_ipv6 :: string
  sf_port :: nat
  sf_key :: string
  sf_to :: string
  sf_community :: string
  sf_seed :: string
  sf_mdns :: bool
  sf_home :: string

definition manual_key :: "go_unicode \<Rightarrow> string \<Rightarrow> cli_error + bytes" where
  "manual_key U k =
     (if k = [] then Inr []
      else case hex_decode (trim_space U k) of
        Inl _ \<Rightarrow> Inl CliBadKey
      | Inr b \<Rightarrow> (if length b \<noteq> 32 then Inl CliBadKey else Inr b))"

definition flag_invites :: "spoke_flags \<Rightarrow> string list" where
  "flag_invites f =
     (if sf_invite f \<noteq> [] then [sf_invite f] else []) @ (if sf_seed f \<noteq> [] then [sf_seed f] else [])"

text \<open>The community list is loaded without a pinned root key.\<close>

definition flag_community :: "spoke_env \<Rightarrow> community_json \<Rightarrow> disk \<Rightarrow> string \<Rightarrow> cli_error + cached_hub list" where
  "flag_community E CJ d path =
     (if path = [] then Inr []
      else case LoadCommunity (en_crypto E) CJ d path None of
        Inl e \<Rightarrow> Inl (CliCommunity e)
      | Inr g \<Rightarrow> Inr (cf_hubs g))"

definition cmdSpoke ::
  "spoke_env \<Rightarrow> identity_json \<Rightarrow> community_json \<Rightarrow> bool \<Rightarrow> bytes option \<Rightarrow> bytes option \<Rightarrow> disk \<Rightarrow> spoke_flags
     \<Rightarrow> cli_error + spoke" where
  "cmdSpoke E IJ CJ mkdir ed_rnd x_rnd d f =
     (case LoadOrCreateIdentity (en_crypto E) IJ mkdir (en_write E) ed_rnd x_rnd d (sf_home f) (sf_name f) of
        (Inl e, _) \<Rightarrow> Inl (CliIdentity e)
      | (Inr i, d1) \<Rightarrow>
          (let name = (if sf_name f = [] then id_name i else sf_name f);
               c = open_cache (en_cache E) d1 (CachePath (sf_home f));
               q = open_queue (en_queue E) d1 (QueuePath (sf_home f)) 1000
           in case flag_community E CJ d1 (sf_community f) of
                Inl e \<Rightarrow> Inl e
              | Inr comm \<Rightarrow>
                  (case manual_key (en_unicode E) (sf_key f) of
                     Inl e \<Rightarrow> Inl e
                   | Inr key \<Rightarrow>
                       Inr (NewSpoke i
                         \<lparr>sc_name = name, sc_invites = flag_invites f, sc_manual_v6 = sf_ipv6 f,
                          sc_manual_port = word_of_nat (sf_port f), sc_manual_key = key,
                          sc_community = comm, sc_seeds = [], sc_capture = False\<rparr>
                         (Some c) (Some q) d1 E))))"

text \<open>
  The prompt: the peer that lines go to, the last banner, the spoke. A line is answered with
  output on the screen and the outputs of the spoke. \<open>rn\<close>, \<open>ri\<close>, \<open>ts\<close> and \<open>ok\<close> are what a send
  draws from the machine.
\<close>

record prompt =
  pr_peer :: string
  pr_banner :: string
  pr_spoke :: spoke

datatype screen = Line string | SendError spoke_error | Effect spoke_out

definition message_line :: "string \<Rightarrow> string \<Rightarrow> string \<Rightarrow> string" where
  "message_line src n msg = [CHR 0x0D] @ ''<'' @ n @ '' '' @ src @ ''> '' @ msg @ nl @ ''> ''"

fun show_out :: "spoke_out \<Rightarrow> screen" where
  "show_out (Show src n msg) = Line (message_line src n msg)"
| "show_out (Banner b) = Line b"
| "show_out x = Effect x"

fun banner_after :: "string \<Rightarrow> spoke_out list \<Rightarrow> string" where
  "banner_after b [] = b"
| "banner_after b (Banner x # out) = banner_after x out"
| "banner_after b (_ # out) = banner_after b out"

text \<open>An event of the spoke behind the prompt: its status lines set the banner.\<close>

definition prompt_event :: "spoke_env \<Rightarrow> spoke_event \<Rightarrow> prompt \<Rightarrow> prompt \<times> screen list" where
  "prompt_event E ev p =
     (case spoke_handle E ev (pr_spoke p) of
        (s, out) \<Rightarrow> (p\<lparr>pr_spoke := s, pr_banner := banner_after (pr_banner p) out\<rparr>, map show_out out))"

definition prompt_status :: "prompt \<Rightarrow> screen list" where
  "prompt_status p =
     Line (pr_banner p) #
     (case ConnectedHub (pr_spoke p) of
        Some k \<Rightarrow> [Line (''hub '' @ hok_name k @ '' '' @ Fingerprint (hok_ed k))]
      | None \<Rightarrow> [Line (''No hub '' @ string_of [0xe2, 0x80, 0x94] @ '' queued'')])"

definition prompt_send ::
  "spoke_env \<Rightarrow> bytes option \<Rightarrow> bytes option \<Rightarrow> 64 word \<Rightarrow> bool \<Rightarrow> string \<Rightarrow> prompt \<Rightarrow> prompt \<times> screen list" where
  "prompt_send E rn ri ts ok line p =
     (case SendToName E rn ri ts ok (pr_peer p) line (pr_spoke p) of
        (err, s, out) \<Rightarrow>
          (p\<lparr>pr_spoke := s, pr_banner := banner_after (pr_banner p) out\<rparr>,
           map show_out out @ (case err of None \<Rightarrow> [] | Some e \<Rightarrow> [SendError e])))"

definition prompt_line ::
  "spoke_env \<Rightarrow> bytes option \<Rightarrow> bytes option \<Rightarrow> 64 word \<Rightarrow> bool \<Rightarrow> string \<Rightarrow> prompt \<Rightarrow> prompt \<times> screen list" where
  "prompt_line E rn ri ts ok raw p =
     (let U = en_unicode E; line = trim_space U raw in
      if line = [] then (p, [])
      else if line = ''/peers'' then
        (p, map (\<lambda>q. Line (''  '' @ pi_name q @ ''  '' @ Fingerprint (pi_ed q))) (spoke_peers (pr_spoke p)))
      else if line = ''/status'' then (p, prompt_status p)
      else if has_prefix line ''/to '' then
        (let peer = trim_space U (drop (length ''/to '') line) in (p\<lparr>pr_peer := peer\<rparr>, [Line (''to '' @ peer)]))
      else if has_prefix line ''/invite '' then
        (p\<lparr>pr_spoke := AddInvite (trim_space U (drop (length ''/invite '') line)) (pr_spoke p)\<rparr>,
         [Line ''invite queued for next dial''])
      else prompt_send E rn ri ts ok line p)"

text \<open>An invite from the local network: it is added, and its first forty bytes are shown.\<close>

definition lan_invite :: "string \<Rightarrow> prompt \<Rightarrow> prompt \<times> screen list" where
  "lan_invite blob p =
     (p\<lparr>pr_spoke := AddInvite blob (pr_spoke p)\<rparr>,
      [Line (''lan invite: '' @ take (nat (min_int 40 (int (length blob)))) blob @ '' ...'')])"

subsection \<open>Identity and community lists\<close>

definition cmdIdentity ::
  "crypto \<Rightarrow> identity_json \<Rightarrow> bool \<Rightarrow> disk_writer \<Rightarrow> bytes option \<Rightarrow> bytes option \<Rightarrow> disk \<Rightarrow> string \<Rightarrow> string
     \<Rightarrow> (cli_error + string list) \<times> disk" where
  "cmdIdentity C IJ mkdir wr ed_rnd x_rnd d home name =
     (case LoadOrCreateIdentity C IJ mkdir wr ed_rnd x_rnd d home name of
        (Inl e, d') \<Rightarrow> (Inl (CliIdentity e), d')
      | (Inr i, d') \<Rightarrow>
          (Inr [''name '' @ id_name i, ''fp   '' @ Fingerprint (id_ed_pub i), ''ed   '' @ PubHex i,
                ''x   '' @ hex_encode (id_x_pub i)], d'))"

text \<open>\<open>community sign\<close>: \<open>un_list\<close> decodes the JSON array of hubs.\<close>

definition cmdCommunity ::
  "crypto \<Rightarrow> identity_json \<Rightarrow> community_json \<Rightarrow> (bytes \<Rightarrow> cached_hub list option) \<Rightarrow> bool \<Rightarrow> disk_writer
     \<Rightarrow> bytes option \<Rightarrow> bytes option \<Rightarrow> disk \<Rightarrow> string list \<Rightarrow> string \<Rightarrow> string \<Rightarrow> string
     \<Rightarrow> (cli_error + string) \<times> disk" where
  "cmdCommunity C IJ CJ un_list mkdir wr ed_rnd x_rnd d args home inp out =
     (if args = [] then (Inl CliUsage, d)
      else case LoadOrCreateIdentity C IJ mkdir wr ed_rnd x_rnd d (path_join [home, ''community-root'']) ''community-root'' of
        (Inl e, d1) \<Rightarrow> (Inl (CliIdentity e), d1)
      | (Inr i, d1) \<Rightarrow>
          (case d1 inp of
             None \<Rightarrow> (Inl CliRead, d1)
           | Some b \<Rightarrow>
               (case un_list b of
                  None \<Rightarrow> (Inl CliJson, d1)
                | Some hubs \<Rightarrow>
                    (case SignCommunity C CJ (id_ed_priv i) hubs of
                       Inl e \<Rightarrow> (Inl (CliCommunity e), d1)
                     | Inr g \<Rightarrow>
                         (case community_save CJ wr g out d1 of
                            (Some e, d2) \<Rightarrow> (Inl (CliCommunity e), d2)
                          | (None, d2) \<Rightarrow> (Inr (''signed '' @ out @ '' root '' @ PubHex i), d2))))))"

subsection \<open>Lemmas\<close>

lemma server_start_sel:
  assumes "server_start U now addr (NewServer i cfg) = (srv, dialled)" "cfg_name cfg \<noteq> []"
  shows "\<exists>iv. srv_inv srv = Some iv \<and> inv_ipv6 iv = (if cfg_public_v6 cfg \<noteq> None then cfg_public_v6 cfg
      else if cfg_dev cfg then parse_ip ''::1'' else None) \<and>
    inv_ipv4 iv = (if cfg_claim_v4 cfg \<and> cfg_public_v4 cfg \<noteq> None then cfg_public_v4 cfg else None) \<and>
    inv_pub_key iv = copy32 (id_ed_pub i) \<and> inv_cloud_seed iv = cfg_cloud cfg \<and> srv_id srv = i \<and>
    inv_version iv = invite_version"
proof -
  have b: "cfg_public_v6 (bound_port a k) = cfg_public_v6 k" "cfg_claim_v4 (bound_port a k) = cfg_claim_v4 k"
    "cfg_public_v4 (bound_port a k) = cfg_public_v4 k" "cfg_dev (bound_port a k) = cfg_dev k"
    "cfg_cloud (bound_port a k) = cfg_cloud k" for a k
    by (simp_all add: bound_port_def split: option.split prod.split)
  show ?thesis
    using assms by (auto simp: server_start_def buildInvite_def NewServer_def b Let_def)
qed

lemma runHub_Inr:
  assumes "runHub E IJ M d home name port dev seed c peers api = (Inr rh, d')"
  shows "\<exists>iv. srv_inv (rh_server rh) = Some iv \<and> encode_invite iv = Inr (rh_beacon rh) \<and>
    inv_pub_key iv = copy32 (id_ed_pub (srv_id (rh_server rh))) \<and> inv_cloud_seed iv = seed \<and>
    (\<not> dev \<longrightarrow> inv_ipv6 iv = PickIPv6 c) \<and>
    inv_ipv4 iv = (if cap_claim_v4 c \<and> cap_public_v4 c \<noteq> None then cap_public_v4 c else None)"
proof -
  from assms obtain i addr srv dialled printed where
    st: "server_start (en_unicode E) (hm_now M) addr (NewServer i (hub_config (hub_name name i) port dev seed c peers)) = (srv, dialled)"
    and pr: "PrintInvite (hm_qr M) (the (srv_inv srv)) = (printed, None)"
    and rh: "rh_server rh = srv" "rh_beacon rh = (case encode_invite (the (srv_inv srv)) of Inl _ \<Rightarrow> [] | Inr b \<Rightarrow> b)"
    by (auto simp: runHub_def Let_def split: prod.splits sum.splits option.splits)
  let ?cfg = "hub_config (hub_name name i) port dev seed c peers"
  have "cfg_name ?cfg \<noteq> []" by (auto simp: hub_config_def hub_name_def Let_def)
  from server_start_sel [OF st this] obtain iv where iv: "srv_inv srv = Some iv"
    "inv_ipv6 iv = (if cfg_public_v6 ?cfg \<noteq> None then cfg_public_v6 ?cfg else if cfg_dev ?cfg then parse_ip ''::1'' else None)"
    "inv_ipv4 iv = (if cfg_claim_v4 ?cfg \<and> cfg_public_v4 ?cfg \<noteq> None then cfg_public_v4 ?cfg else None)"
    "inv_pub_key iv = copy32 (id_ed_pub i)" "inv_cloud_seed iv = cfg_cloud ?cfg" "srv_id srv = i"
    by blast
  have "\<exists>blob. encode_invite iv = Inr blob"
    using pr by (auto simp: PrintInvite_def iv(1) split: sum.splits option.splits)
  then show ?thesis
    using iv rh by (auto simp: hub_config_def Let_def)
qed

lemma runHub_starts:
  assumes i: "LoadOrCreateIdentity (en_crypto E) IJ (hm_mkdir M) (en_write E) (hm_random_ed M) (hm_random_x M) d home name = (Inr i, d')"
    and key: "copy32 (id_ed_pub i) \<noteq> replicate 32 0" and bound: "hm_bound M \<noteq> None" and qr: "\<And>s. hm_qr M s \<noteq> None"
    and v6: "PickIPv6 c = Some b" "length b = 16" "to4 (Some b) = None" and dev: "\<not> dev"
  shows "\<exists>rh. runHub E IJ M d home name port dev seed c peers api = (Inr rh, d')"
proof -
  let ?cfg = "hub_config (hub_name name i) port dev seed c peers"
  obtain addr where addr: "hm_bound M = Some addr" using bound by blast
  obtain srv dialled where st: "server_start (en_unicode E) (hm_now M) addr (NewServer i ?cfg) = (srv, dialled)" by fastforce
  have "cfg_name ?cfg \<noteq> []" by (auto simp: hub_config_def hub_name_def Let_def)
  from server_start_sel [OF st this] obtain iv where iv: "srv_inv srv = Some iv" "inv_ipv6 iv = Some b"
    "inv_pub_key iv = copy32 (id_ed_pub i)" "inv_version iv = invite_version"
    using v6 dev by (auto simp: hub_config_def Let_def)
  then have "marshal_ok iv" using key v6 by (simp add: marshal_ok_def invite_version_def)
  then obtain blob where blob: "encode_invite iv = Inr blob" using encode_total by blast
  obtain code where code: "hm_qr M blob = Some code" using qr by blast
  show ?thesis by (simp add: runHub_def i addr st iv(1) PrintInvite_def blob code Let_def)
qed

lemma encoded_ok: "encode_invite iv = Inr s \<Longrightarrow> marshal_ok iv"
  using marshal_Inr_iff [of iv True] by (auto simp: encode_invite_def split: sum.splits)

lemma global_not_zero: "isGlobalIPv6 (Some b) \<Longrightarrow> b \<noteq> replicate 16 0"
  by (auto simp: isGlobalIPv6_def is_unspecified_def ip_equal_def ipv6_zero_def split: if_splits)

text \<open>
  \<open>-force\<close> does not help a host without an IPv6 address: unless it is a cloud seed or in a lab,
  the hub gives up when it prints its invite, after its sockets have been opened.
\<close>

theorem force_needs_ipv6:
  assumes "cap_global_v6 (Probe listen ifaces \<lparr>po_port = hf_port f, po_dev = False, po_observed = None\<rparr>) = []"
    and "\<not> hf_dev f" "\<not> hf_seed f"
  shows "isl (fst (cmdHub E IJ M listen ifaces d f))"
proof (rule ccontr)
  let ?c = "Probe listen ifaces \<lparr>po_port = hf_port f, po_dev = False, po_observed = None\<rparr>"
  assume "\<not> isl (fst (cmdHub E IJ M listen ifaces d f))"
  then obtain rh d' where "cmdHub E IJ M listen ifaces d f = (Inr rh, d')"
    by (metis isl_def old.sum.exhaust prod.collapse)
  then obtain peers api where "runHub E IJ M d (hf_home f) (hf_name f) (hf_port f) False False ?c peers api = (Inr rh, d')"
    using assms(2,3) by (auto simp: cmdHub_def Let_def split: if_splits)
  from runHub_Inr [OF this] obtain iv where "encode_invite iv = Inr (rh_beacon rh)"
    "\<not> inv_cloud_seed iv" "inv_ipv6 iv = PickIPv6 ?c" by auto
  then show False
    using encoded_ok [of iv] assms(1) by (simp add: PickIPv6_def marshal_ok_def)
qed

text \<open>A command with its argument left out is sent to the peer as a message: the line is trimmed first.\<close>

theorem bare_command_is_sent:
  "prompt_line E rn ri ts ok ''/to '' p = prompt_send E rn ri ts ok ''/to'' p"
  "prompt_line E rn ri ts ok ''/invite '' p = prompt_send E rn ri ts ok ''/invite'' p"
  by (simp_all add: prompt_line_def trim_space_def is_ascii_def is_space_def has_prefix_def Let_def)

text \<open>Without a pin any key may sign the list: whoever signs it is trusted.\<close>

theorem community_unpinned:
  assumes "sign_correct (en_crypto E)" "length (ed_public (en_crypto E) anyone) = 32"
    and "SignCommunity (en_crypto E) CJ anyone hubs = Inr g" "un_community CJ b = Some g"
    and "d path = Some b" "path \<noteq> []"
  shows "flag_community E CJ d path = Inr (map fill_hub hubs)"
proof -
  have "cf_hubs g = hubs" using assms(3) by (auto simp: SignCommunity_def split: option.splits)
  then show ?thesis
    using verify_signed_community [OF assms(1-3), of None] assms(4-6)
    by (simp add: flag_community_def LoadCommunity_def)
qed

subsection \<open>Properties\<close>

text \<open>
  C20: A hub started by \<open>become-hub\<close> (outside a lab) advertises only what the probe found: its
  invite carries a global unicast IPv6 address of the host, an IPv4 address only when it is an
  own, public address with no carrier-grade NAT in sight, and the hub's key; it is no cloud seed;
  and the text announced on the local network decodes to exactly this invite in normal form.
\<close>

theorem become_hub_advertises:
  assumes "cmdBecomeHub E IJ M listen ifaces d home name port False = (Inr rh, d')"
    and "c = Probe listen ifaces \<lparr>po_port = port, po_dev = False, po_observed = None\<rparr>"
  shows "\<exists>iv. srv_inv (rh_server rh) = Some iv \<and> isGlobalIPv6 (inv_ipv6 iv) \<and> inv_ipv6 iv \<in> set (cap_global_v6 c) \<and>
    (case inv_ipv4 iv of None \<Rightarrow> True
     | Some b \<Rightarrow> Some b \<in> set (cap_local_v4 c) \<and> \<not> isPrivateIPv4 (Some b) \<and> \<not> anyCGNAT (cap_local_v4 c)) \<and>
    \<not> inv_cloud_seed iv \<and> inv_pub_key iv = copy32 (id_ed_pub (srv_id (rh_server rh))) \<and>
    decode_invite U (rh_beacon rh) r = Inr (canon_invite iv)"
proof -
  let ?o = "\<lparr>po_port = port, po_dev = False, po_observed = None\<rparr>"
  from assms have hub: "cap_can_hub (Probe listen ifaces ?o)"
    and run: "runHub E IJ M d home name port False False c [] ''127.0.0.1:7780'' = (Inr rh, d')"
    by (auto simp: cmdBecomeHub_def Let_def split: if_splits)
  from runHub_Inr [OF run] obtain iv where iv: "srv_inv (rh_server rh) = Some iv" "encode_invite iv = Inr (rh_beacon rh)"
    "inv_pub_key iv = copy32 (id_ed_pub (srv_id (rh_server rh)))" "\<not> inv_cloud_seed iv" "inv_ipv6 iv = PickIPv6 c"
    "inv_ipv4 iv = (if cap_claim_v4 c \<and> cap_public_v4 c \<noteq> None then cap_public_v4 c else None)"
    by auto
  have global: "isGlobalIPv6 (inv_ipv6 iv) \<and> inv_ipv6 iv \<in> set (cap_global_v6 c)"
    using pick_global [OF _ hub] by (simp add: iv(5) assms(2))
  have v4: "case inv_ipv4 iv of None \<Rightarrow> True
     | Some b \<Rightarrow> Some b \<in> set (cap_local_v4 c) \<and> \<not> isPrivateIPv4 (Some b) \<and> \<not> anyCGNAT (cap_local_v4 c)"
    using claim_own_ipv4 [of listen ifaces ?o] by (auto simp: iv(6) assms(2))
  have wf: "wf_invite iv" by (simp add: wf_invite_def iv(3) copy32_def)
  obtain b where b: "inv_ipv6 iv = Some b" using global by (cases "inv_ipv6 iv") (auto simp: isGlobalIPv6_def)
  have "marshal_ok iv" by (rule encoded_ok [OF iv(2)])
  then have "to16 (Some b) \<noteq> None" "to4 (Some b) = None" using iv(4) by (simp_all add: marshal_ok_def b)
  then have "to16 (Some b) = Some b" by (auto simp: to16_def to4_def split: if_splits)
  then have "canon_ipv6 (inv_ipv6 iv) \<noteq> None"
    using global_not_zero [of b] global by (simp add: canon_ipv6_def b)
  then have "decode_invite U (rh_beacon rh) r = Inr (canon_invite iv)"
    by (simp add: decode_encode [OF wf iv(2)])
  then show ?thesis using iv global v4 by blast
qed

definition demo_machine :: hub_machine where
  "demo_machine =
     \<lparr>hm_random_ed = Some (replicate 64 9), hm_random_x = Some (replicate 32 9), hm_mkdir = True,
      hm_bound = Some ''[::]:4433'', hm_now = 0, hm_qr = (\<lambda>s. Some \<lparr>qr_size = 0, qr_black = (\<lambda>x y. False)\<rparr>),
      hm_js_status = (\<lambda>h. [])\<rparr>"

lemma demo_pick:
  "PickIPv6 (Probe (\<lambda>n a. None) demo_ifaces \<lparr>po_port = 0, po_dev = False, po_observed = None\<rparr>) =
     Some (0x20 # 1 # replicate 13 0 @ [5])"
  by (simp add: PickIPv6_def Probe_fields demo_walk isGlobalIPv6_16)

theorem become_hub_advertises_witness:
  "\<exists>rh d' iv. cmdBecomeHub demo_spoke_env demo_ident_json demo_machine (\<lambda>n a. None) demo_ifaces (\<lambda>p. None)
       ''h'' ''n'' 0 False = (Inr rh, d') \<and> srv_inv (rh_server rh) = Some iv \<and> isGlobalIPv6 (inv_ipv6 iv)"
proof -
  let ?c = "Probe (\<lambda>n a. None) demo_ifaces \<lparr>po_port = 0, po_dev = False, po_observed = None\<rparr>"
  let ?v6 = "0x20 # 1 # replicate 13 0 @ [5] :: bytes"
  obtain i d' where i: "LoadOrCreateIdentity demo_crypto demo_ident_json True disk_write (Some (replicate 64 9))
      (Some (replicate 32 9)) (\<lambda>p. None) ''h'' ''n'' = (Inr i, d')" and pub: "id_ed_pub i = replicate 32 9"
    by (simp add: LoadOrCreateIdentity_def GenerateIdentity_def identity_save_def disk_write_def demo_crypto_def Let_def)
  have "\<exists>rh. runHub demo_spoke_env demo_ident_json demo_machine (\<lambda>p. None) ''h'' ''n'' 0 False False ?c [] ''127.0.0.1:7780'' = (Inr rh, d')"
    by (rule runHub_starts [where b = ?v6 and i = i])
      (use i in \<open>simp_all add: demo_spoke_env_def demo_machine_def pub replicate_neq demo_pick to4_def v4_in_v6_prefix_def\<close>)
  then obtain rh where "cmdBecomeHub demo_spoke_env demo_ident_json demo_machine (\<lambda>n a. None) demo_ifaces (\<lambda>p. None)
       ''h'' ''n'' 0 False = (Inr rh, d')"
    using demo_probe(2) by (auto simp: cmdBecomeHub_def Let_def)
  with become_hub_advertises [OF this refl] show ?thesis by blast
qed

end
