(* ===== verification/JSON_Scanner.thy ===== *)
theory JSON_Scanner
  imports Go_Strings
begin

section \<open>The scanner of \<open>encoding/json\<close>\<close>

text \<open>
  Every JSON text that the program reads goes through the scanner of \<open>encoding/json\<close>, a
  pushdown automaton that takes one byte at a time: a step function and a stack that says, for
  every open object or array, what it expects next. The model has the automaton's states and
  its answers under Go's names. \<open>scan_trace\<close> runs it and records for each byte the answer and
  the depths of the stack before and after; validity, the parts of an object or array, and the
  compaction of embedded raw text are functions of that record, as they are in Go.
  The theory has no counterpart under \<open>src\<close>: it models what the library does with the texts of
  the program's messages and files.
\<close>

subsection \<open>States and answers\<close>

datatype parse_state = ParseObjectKey | ParseObjectValue | ParseArrayValue

datatype scan_state =
    BeginValue
  | BeginValueOrEmpty
  | BeginStringOrEmpty
  | BeginString
  | EndValue
  | EndTop
  | InString
  | InStringEsc
  | InStringEscU nat
  | NumNeg
  | NumDigits
  | NumZero
  | NumDot
  | NumDot0
  | NumE
  | NumESign
  | NumE0
  | InWord string

datatype scan_op =
    ScanContinue
  | ScanBeginLiteral
  | ScanBeginObject
  | ScanObjectKey
  | ScanObjectValue
  | ScanEndObject
  | ScanBeginArray
  | ScanArrayValue
  | ScanEndArray
  | ScanSkipSpace
  | ScanEnd

type_synonym scanner = "scan_state \<times> parse_state list"

definition max_nesting :: nat where "max_nesting = 10000"

definition json_space :: "char \<Rightarrow> bool" where
  "json_space c \<longleftrightarrow> c = CHR '' '' \<or> c = CHR 0x09 \<or> c = CHR 0x0D \<or> c = CHR 0x0A"

definition json_digit :: "char \<Rightarrow> bool" where
  "json_digit c \<longleftrightarrow> byte_in 48 57 c"

definition hex_digit :: "char \<Rightarrow> bool" where
  "hex_digit c \<longleftrightarrow> hex_value c \<noteq> None"

definition push_state :: "parse_state \<Rightarrow> scan_state \<Rightarrow> scan_op \<Rightarrow> parse_state list \<Rightarrow> (scanner \<times> scan_op) option" where
  "push_state p s v S = (if max_nesting < Suc (length S) then None else Some ((s, p # S), v))"

definition pop_state :: "parse_state list \<Rightarrow> scanner" where
  "pop_state S = (if S = [] then EndTop else EndValue, S)"

text \<open>The state after a value: \<open>stateEndValue\<close>, and \<open>stateEndTop\<close> when nothing is open.\<close>

definition end_value :: "parse_state list \<Rightarrow> char \<Rightarrow> (scanner \<times> scan_op) option" where
  "end_value S c =
     (case S of
        [] \<Rightarrow> (if json_space c then Some ((EndTop, []), ScanEnd) else None)
      | p # S' \<Rightarrow>
          (if json_space c then Some ((EndValue, S), ScanSkipSpace)
           else case p of
             ParseObjectKey \<Rightarrow>
               (if c = CHR '':'' then Some ((BeginValue, ParseObjectValue # S'), ScanObjectKey) else None)
           | ParseObjectValue \<Rightarrow>
               (if c = CHR '','' then Some ((BeginString, ParseObjectKey # S'), ScanObjectValue)
                else if c = CHR ''}'' then Some (pop_state S', ScanEndObject)
                else None)
           | ParseArrayValue \<Rightarrow>
               (if c = CHR '','' then Some ((BeginValue, S), ScanArrayValue)
                else if c = CHR '']'' then Some (pop_state S', ScanEndArray)
                else None)))"

definition begin_string :: "scan_state \<Rightarrow> parse_state list \<Rightarrow> char \<Rightarrow> (scanner \<times> scan_op) option" where
  "begin_string s S c =
     (if json_space c then Some ((s, S), ScanSkipSpace)
      else if c = CHR 0x22 then Some ((InString, S), ScanBeginLiteral)
      else None)"

definition begin_value :: "scan_state \<Rightarrow> parse_state list \<Rightarrow> char \<Rightarrow> (scanner \<times> scan_op) option" where
  "begin_value s S c =
     (if json_space c then Some ((s, S), ScanSkipSpace)
      else if c = CHR ''{'' then push_state ParseObjectKey BeginStringOrEmpty ScanBeginObject S
      else if c = CHR ''['' then push_state ParseArrayValue BeginValueOrEmpty ScanBeginArray S
      else if c = CHR 0x22 then Some ((InString, S), ScanBeginLiteral)
      else if c = CHR ''-'' then Some ((NumNeg, S), ScanBeginLiteral)
      else if c = CHR ''0'' then Some ((NumZero, S), ScanBeginLiteral)
      else if c = CHR ''t'' then Some ((InWord ''rue'', S), ScanBeginLiteral)
      else if c = CHR ''f'' then Some ((InWord ''alse'', S), ScanBeginLiteral)
      else if c = CHR ''n'' then Some ((InWord ''ull'', S), ScanBeginLiteral)
      else if json_digit c then Some ((NumDigits, S), ScanBeginLiteral)
      else None)"

definition after_zero :: "parse_state list \<Rightarrow> char \<Rightarrow> (scanner \<times> scan_op) option" where
  "after_zero S c =
     (if c = CHR ''.'' then Some ((NumDot, S), ScanContinue)
      else if c = CHR ''e'' \<or> c = CHR ''E'' then Some ((NumE, S), ScanContinue)
      else end_value S c)"

definition digit_or :: "scan_state \<Rightarrow> parse_state list \<Rightarrow> char \<Rightarrow> (scanner \<times> scan_op) option
    \<Rightarrow> (scanner \<times> scan_op) option" where
  "digit_or s S c other = (if json_digit c then Some ((s, S), ScanContinue) else other)"

fun scan_step :: "scanner \<Rightarrow> char \<Rightarrow> (scanner \<times> scan_op) option" where
  "scan_step (BeginValue, S) c = begin_value BeginValue S c"
| "scan_step (BeginValueOrEmpty, S) c =
     (if c = CHR '']'' then end_value S c else begin_value BeginValueOrEmpty S c)"
| "scan_step (BeginStringOrEmpty, S) c =
     (if c = CHR ''}'' then end_value (ParseObjectValue # tl S) c else begin_string BeginStringOrEmpty S c)"
| "scan_step (BeginString, S) c = begin_string BeginString S c"
| "scan_step (EndValue, S) c = end_value S c"
| "scan_step (EndTop, S) c = (if json_space c then Some ((EndTop, S), ScanEnd) else None)"
| "scan_step (InString, S) c =
     (if c = CHR 0x22 then Some ((EndValue, S), ScanContinue)
      else if c = CHR 0x5C then Some ((InStringEsc, S), ScanContinue)
      else if of_char c < (32::nat) then None
      else Some ((InString, S), ScanContinue))"
| "scan_step (InStringEsc, S) c =
     (if c \<in> set (CHR 0x5C # CHR 0x22 # ''bfnrt/'') then Some ((InString, S), ScanContinue)
      else if c = CHR ''u'' then Some ((InStringEscU 3, S), ScanContinue)
      else None)"
| "scan_step (InStringEscU k, S) c =
     (if \<not> hex_digit c then None
      else case k of
        0 \<Rightarrow> Some ((InString, S), ScanContinue)
      | Suc k' \<Rightarrow> Some ((InStringEscU k', S), ScanContinue))"
| "scan_step (NumNeg, S) c =
     (if c = CHR ''0'' then Some ((NumZero, S), ScanContinue) else digit_or NumDigits S c None)"
| "scan_step (NumDigits, S) c = digit_or NumDigits S c (after_zero S c)"
| "scan_step (NumZero, S) c = after_zero S c"
| "scan_step (NumDot, S) c = digit_or NumDot0 S c None"
| "scan_step (NumDot0, S) c =
     digit_or NumDot0 S c
       (if c = CHR ''e'' \<or> c = CHR ''E'' then Some ((NumE, S), ScanContinue) else end_value S c)"
| "scan_step (NumE, S) c =
     (if c = CHR ''+'' \<or> c = CHR ''-'' then Some ((NumESign, S), ScanContinue) else digit_or NumE0 S c None)"
| "scan_step (NumESign, S) c = digit_or NumE0 S c None"
| "scan_step (NumE0, S) c = digit_or NumE0 S c (end_value S c)"
| "scan_step (InWord w, S) c =
     (case w of
        [] \<Rightarrow> None
      | d # w' \<Rightarrow>
          (if c \<noteq> d then None
           else Some ((if w' = [] then EndValue else InWord w', S), ScanContinue)))"

text \<open>\<open>eof\<close>: a blank at the end completes a number.\<close>

definition scan_eof :: "scanner \<Rightarrow> bool" where
  "scan_eof st \<longleftrightarrow>
     fst st = EndTop \<or>
     (case scan_step st (CHR '' '') of None \<Rightarrow> False | Some (st', v) \<Rightarrow> fst st' = EndTop)"

subsection \<open>Runs\<close>

record scan_entry =
  se_op :: scan_op
  se_before :: nat
  se_after :: nat
  se_char :: char

fun scan_trace :: "scanner \<Rightarrow> string \<Rightarrow> (scan_entry list \<times> scanner) option" where
  "scan_trace st [] = Some ([], st)"
| "scan_trace st (c # s) =
     (case scan_step st c of
        None \<Rightarrow> None
      | Some (st', v) \<Rightarrow>
          (case scan_trace st' s of
             None \<Rightarrow> None
           | Some (es, st'') \<Rightarrow>
               Some (\<lparr>se_op = v, se_before = length (snd st), se_after = length (snd st'), se_char = c\<rparr> # es,
                     st'')))"

definition scan_text :: "string \<Rightarrow> scan_entry list option" where
  "scan_text s =
     (case scan_trace (BeginValue, []) s of
        None \<Rightarrow> None
      | Some (es, st) \<Rightarrow> (if scan_eof st then Some es else None))"

definition json_valid :: "string \<Rightarrow> bool" where
  "json_valid s \<longleftrightarrow> scan_text s \<noteq> None"

text \<open>
  The parts of the outermost object or array: for an array its elements, for an object keys and
  values in turn, each without the blanks around it.
\<close>

fun split_parts :: "scan_entry list \<Rightarrow> string \<Rightarrow> string list" where
  "split_parts [] cur = []"
| "split_parts (e # es) cur =
     (if se_before e = 0 then split_parts es []
      else if se_op e \<in> {ScanEndObject, ScanEndArray} \<and> se_after e = 0 then (if cur = [] then [] else [cur])
      else if se_before e = 1 \<and> se_op e \<in> {ScanObjectKey, ScanObjectValue, ScanArrayValue}
        then cur # split_parts es []
      else if se_before e = 1 \<and> se_op e = ScanSkipSpace then split_parts es cur
      else split_parts es (cur @ [se_char e]))"

definition json_parts :: "string \<Rightarrow> string list" where
  "json_parts s = (case scan_text s of None \<Rightarrow> [] | Some es \<Rightarrow> split_parts es [])"

fun pair_up :: "'a list \<Rightarrow> ('a \<times> 'a) list" where
  "pair_up (k # v # r) = (k, v) # pair_up r"
| "pair_up _ = []"

text \<open>A text without the blanks at its ends.\<close>

definition strip_blank :: "string \<Rightarrow> string" where
  "strip_blank s = rev (dropWhile json_space (rev (dropWhile json_space s)))"

text \<open>
  \<open>appendCompact\<close> with HTML escaping, which \<open>Marshal\<close> applies to a \<open>RawMessage\<close>: blanks between
  tokens go, three characters and the two line separators become escapes.
\<close>

definition html_char :: "char \<Rightarrow> bool" where
  "html_char c \<longleftrightarrow> c = CHR ''<'' \<or> c = CHR ''>'' \<or> c = CHR ''&''"

definition u00 :: "char \<Rightarrow> string" where
  "u00 c = CHR 0x5C # ''u00'' @ hex_encode [byte_of_char c]"

definition line_sep :: "string \<Rightarrow> bool" where
  "line_sep s \<longleftrightarrow> take 3 s = [CHR 0xE2, CHR 0x80, CHR 0xA8] \<or> take 3 s = [CHR 0xE2, CHR 0x80, CHR 0xA9]"

definition line_sep_esc :: "string \<Rightarrow> string" where
  "line_sep_esc s = CHR 0x5C # ''u202'' @ (if s ! 2 = CHR 0xA8 then ''8'' else ''9'')"

fun compact_from :: "nat \<Rightarrow> scan_entry list \<Rightarrow> string" where
  "compact_from k [] = []"
| "compact_from (Suc k) (e # es) = compact_from k es"
| "compact_from 0 (e # es) =
     (if html_char (se_char e) then u00 (se_char e) @ compact_from 0 es
      else if line_sep (map se_char (e # es))
        then line_sep_esc (map se_char (e # es)) @ compact_from 2 es
      else if se_op e \<in> {ScanSkipSpace, ScanEnd} then compact_from 0 es
      else se_char e # compact_from 0 es)"

definition json_compact :: "string \<Rightarrow> string option" where
  "json_compact s = map_option (compact_from 0) (scan_text s)"

subsection \<open>Running through a concatenation\<close>

lemma scan_trace_append:
  "scan_trace st (a @ b) =
     (case scan_trace st a of
        None \<Rightarrow> None
      | Some (es, st') \<Rightarrow>
          (case scan_trace st' b of None \<Rightarrow> None | Some (fs, st'') \<Rightarrow> Some (es @ fs, st'')))"
  by (induction a arbitrary: st) (auto split: option.splits)

lemma scan_trace_step_eq:
  "scan_step (a, S) c = scan_step (b, S) c \<Longrightarrow> scan_trace (a, S) (c # s) = scan_trace (b, S) (c # s)"
  by (simp split: option.split)

lemma scan_trace_comp:
  "scan_trace st a = Some (es, st') \<Longrightarrow> scan_trace st' b = Some (fs, st'') \<Longrightarrow>
     scan_trace st (a @ b) = Some (es @ fs, st'')"
  by (simp add: scan_trace_append)

lemma scan_trace_cons:
  "scan_step st c = Some (st', v) \<Longrightarrow> scan_trace st' s = Some (es, st'') \<Longrightarrow>
     scan_trace st (c # s) =
       Some (\<lparr>se_op = v, se_before = length (snd st), se_after = length (snd st'), se_char = c\<rparr> # es, st'')"
  by simp

lemma scan_trace_chars: "scan_trace st s = Some (es, st') \<Longrightarrow> map se_char es = s"
  by (induction s arbitrary: st es) (auto split: option.splits)

text \<open>
  Entries that belong to a value which starts at depth \<open>n\<close>: below that depth everything, at
  that depth only the bytes of a literal and the brackets that open or close the value.
\<close>

definition inner_entry :: "nat \<Rightarrow> scan_entry \<Rightarrow> bool" where
  "inner_entry n e \<longleftrightarrow>
     n \<le> se_before e \<and> n \<le> se_after e \<and>
     (se_before e = n \<longrightarrow> se_op e \<in> {ScanContinue, ScanBeginLiteral, ScanBeginObject, ScanBeginArray})"

definition blank_entry :: "nat \<Rightarrow> scan_entry \<Rightarrow> bool" where
  "blank_entry n e \<longleftrightarrow> se_before e = n \<and> se_after e = n \<and> se_op e = ScanSkipSpace \<and> json_space (se_char e)"

lemma inner_entry_Suc: "inner_entry (Suc n) e \<Longrightarrow> inner_entry n e"
  by (auto simp: inner_entry_def)

lemma split_parts_inner:
  "list_all (inner_entry 1) es \<Longrightarrow> split_parts (es @ fs) cur = split_parts fs (cur @ map se_char es)"
  by (induction es arbitrary: cur) (auto simp: inner_entry_def)

lemma split_parts_blank:
  "list_all (blank_entry 1) es \<Longrightarrow> split_parts (es @ fs) cur = split_parts fs cur"
  by (induction es) (auto simp: blank_entry_def)

text \<open>A state in which a value is complete, up to the byte that ends a number.\<close>

definition ended :: "scanner \<Rightarrow> bool" where
  "ended st \<longleftrightarrow> fst st \<in> {EndValue, NumDigits, NumZero} \<or> st = (EndTop, [])"

definition delimiter :: "char \<Rightarrow> bool" where
  "delimiter c \<longleftrightarrow> json_space c \<or> c = CHR '','' \<or> c = CHR '':'' \<or> c = CHR ''}'' \<or> c = CHR '']''"

lemma delimiter_simps [simp]:
  "delimiter CHR '',''" "delimiter CHR '':''" "delimiter CHR ''}''" "delimiter CHR '']''" "delimiter CHR '' ''"
  by (simp_all add: delimiter_def json_space_def)

lemma space_delimiter: "json_space c \<Longrightarrow> delimiter c"
  by (simp add: delimiter_def)

lemma ended_step: "ended (s, S) \<Longrightarrow> S \<noteq> [] \<Longrightarrow> delimiter c \<Longrightarrow> scan_step (s, S) c = end_value S c"
  by (auto simp: ended_def delimiter_def json_space_def digit_or_def after_zero_def json_digit_def byte_in_def)

lemma ended_eof: "ended (s, []) \<Longrightarrow> scan_eof (s, [])"
  by (auto simp: ended_def scan_eof_def digit_or_def after_zero_def json_digit_def byte_in_def
      end_value_def json_space_def)

end
