(* ===== verification/JSON_Strings.thy ===== *)
theory JSON_Strings
  imports JSON_Scanner
begin

section \<open>Strings and bytes as JSON literals\<close>

text \<open>
  How \<open>encoding/json\<close> writes a Go \<open>string\<close> (with HTML escaping, as \<open>Marshal\<close> does) and reads one
  back, and how \<open>encoding/base64\<close> writes a \<open>[]byte\<close>. A Go string may hold any bytes; the encoder
  replaces every byte that is not part of a UTF-8 rune by U+FFFD, so what comes back is the
  string with these bytes replaced: \<open>unquote_quote\<close>. Base 64 is an interpretation of \<open>codec\<close>.
\<close>

subsection \<open>Runes\<close>

lemma rune_width_ascii: "of_char c < (128::nat) \<Longrightarrow> rune_width (c # s) = Some 1"
  by (simp add: Let_def)

lemma rune_width_one: "rune_width (c # s) = Some w \<Longrightarrow> w = 1 \<longleftrightarrow> of_char c < (128::nat)"
  by (auto simp: Let_def split: if_splits list.splits)

lemma rune_width_le: "rune_width s = Some w \<Longrightarrow> 1 \<le> w \<and> w \<le> length s"
  by (cases s) (auto simp: Let_def split: if_splits list.splits)

lemma rune_width_take: "rune_width s = Some w \<Longrightarrow> rune_width (take w s @ t) = Some w"
proof (cases s)
  case (Cons c s')
  assume w: "rune_width s = Some w"
  show ?thesis
  proof (cases s')
    case Nil
    with w Cons show ?thesis by (auto simp: Let_def split: if_splits)
  next
    case (Cons d r)
    with w \<open>s = c # s'\<close> show ?thesis
      by (auto simp: Let_def split: if_splits)
  qed
qed simp

lemma rune_tail_bytes:
  "rune_width (c # s) = Some w \<Longrightarrow> d \<in> set (take (w - 1) s) \<Longrightarrow> byte_in 128 191 d"
  by (cases s)
    (auto simp: Let_def byte_in_def list_all_iff numeral_3_eq_3 numeral_2_eq_2 split: if_splits)

lemma rune_lead_width: "rune_width (c # s) = Some w \<Longrightarrow> c = CHR 0xE2 \<Longrightarrow> w = 3"
  by (cases s) (auto simp: Let_def split: if_splits)

text \<open>\<open>utf8.EncodeRune\<close> for a code point that is no surrogate.\<close>

definition encode_rune :: "nat \<Rightarrow> string" where
  "encode_rune n =
     (if n < 128 then [char_of n]
      else if n < 2048 then [char_of (192 + n div 64), char_of (128 + n mod 64)]
      else if n < 65536
        then [char_of (224 + n div 4096), char_of (128 + n div 64 mod 64), char_of (128 + n mod 64)]
      else [char_of (240 + n div 262144), char_of (128 + n div 4096 mod 64),
            char_of (128 + n div 64 mod 64), char_of (128 + n mod 64)])"

definition valid_utf8 :: "string \<Rightarrow> bool" where
  "valid_utf8 s \<longleftrightarrow> map_runes (\<lambda>c. [c]) s = s"

lemma valid_utf8_ascii: "is_ascii s \<Longrightarrow> valid_utf8 s"
  by (simp add: valid_utf8_def map_runes_ascii)

lemma valid_utf8_Nil [simp]: "valid_utf8 []"
  by (simp add: valid_utf8_def)

subsection \<open>Writing a string\<close>

definition esc_ascii :: "char \<Rightarrow> string" where
  "esc_ascii c =
     (if c = CHR 0x22 \<or> c = CHR 0x5C then [CHR 0x5C, c]
      else if c = CHR 0x08 then CHR 0x5C # ''b''
      else if c = CHR 0x0C then CHR 0x5C # ''f''
      else if c = CHR 0x0A then CHR 0x5C # ''n''
      else if c = CHR 0x0D then CHR 0x5C # ''r''
      else if c = CHR 0x09 then CHR 0x5C # ''t''
      else if of_char c < (32::nat) \<or> html_char c then u00 c
      else [c])"

function quote_runes :: "string \<Rightarrow> string" where
  "quote_runes [] = []"
| "quote_runes (c # s) =
     (case rune_width (c # s) of
        None \<Rightarrow> CHR 0x5C # ''ufffd'' @ quote_runes s
      | Some w \<Rightarrow>
          (if w = 1 then esc_ascii c
           else if line_sep (take w (c # s)) then line_sep_esc (take w (c # s))
           else take w (c # s)) @ quote_runes (drop (w - 1) s))"
  by pat_completeness auto
termination
  by (relation "measure length") auto

definition quote_str :: "string \<Rightarrow> string" where
  "quote_str s = CHR 0x22 # quote_runes s @ [CHR 0x22]"

subsection \<open>Reading a string\<close>

text \<open>\<open>getu4\<close>: the code of an escape \<open>\u\<close> with four hex digits at the front.\<close>

definition getu4 :: "string \<Rightarrow> nat option" where
  "getu4 s =
     (case s of
        b # u # h1 # h2 # h3 # h4 # _ \<Rightarrow>
          (if b = CHR 0x5C \<and> u = CHR ''u'' then
             (case (hex_value h1, hex_value h2, hex_value h3, hex_value h4) of
                (Some a1, Some a2, Some a3, Some a4) \<Rightarrow> Some (((a1 * 16 + a2) * 16 + a3) * 16 + a4)
              | _ \<Rightarrow> None)
           else None)
      | _ \<Rightarrow> None)"

definition surrogate :: "nat \<Rightarrow> bool" where
  "surrogate n \<longleftrightarrow> 0xD800 \<le> n \<and> n < 0xE000"

definition surrogate_pair :: "nat \<Rightarrow> nat option \<Rightarrow> nat option" where
  "surrogate_pair a b =
     (case b of
        None \<Rightarrow> None
      | Some b' \<Rightarrow>
          (if a < 0xDC00 \<and> 0xDC00 \<le> b' \<and> b' < 0xE000
           then Some ((a - 0xD800) * 1024 + (b' - 0xDC00) + 0x10000) else None))"

definition esc_value :: "char \<Rightarrow> char" where
  "esc_value d =
     (if d = CHR ''b'' then CHR 0x08 else if d = CHR ''f'' then CHR 0x0C
      else if d = CHR ''n'' then CHR 0x0A else if d = CHR ''r'' then CHR 0x0D
      else if d = CHR ''t'' then CHR 0x09 else d)"

text \<open>\<open>unquote\<close> on the inside of a literal that the scanner has accepted.\<close>

function unquote_runes :: "string \<Rightarrow> string" where
  "unquote_runes [] = []"
| "unquote_runes (c # s) =
     (if c = CHR 0x5C then
        (case getu4 (c # s) of
           Some n \<Rightarrow>
             (if surrogate n then
                (case surrogate_pair n (getu4 (drop 5 s)) of
                   Some m \<Rightarrow> encode_rune m @ unquote_runes (drop 11 s)
                 | None \<Rightarrow> replacement_char @ unquote_runes (drop 5 s))
              else encode_rune n @ unquote_runes (drop 5 s))
         | None \<Rightarrow> (case s of [] \<Rightarrow> [] | d # r \<Rightarrow> esc_value d # unquote_runes r))
      else
        (case rune_width (c # s) of
           None \<Rightarrow> replacement_char @ unquote_runes s
         | Some w \<Rightarrow> take w (c # s) @ unquote_runes (drop (w - 1) s)))"
  by pat_completeness auto
termination
  by (relation "measure length") auto

definition unquote_str :: "string \<Rightarrow> string" where
  "unquote_str s = unquote_runes (butlast (tl s))"

subsection \<open>What comes back\<close>

declare unquote_runes.simps(2) [simp del] quote_runes.simps(2) [simp del] map_runes.simps(2) [simp del]
declare rune_width.simps(2) [simp del]

lemma hex_encode_one: "hex_encode [b] = [hex_table ! (unat b div 16), hex_table ! (unat b mod 16)]"
  by (simp add: hex_encode_def)

lemma getu4_u00: "getu4 (u00 c @ t) = Some (of_char c)"
proof -
  have u: "unat (byte_of_char c) = of_char c"
    by (simp add: byte_of_char_def unat_of_nat nat_of_char_less_256 [simplified])
  have "of_char c div 16 < (16::nat)" "of_char c mod 16 < (16::nat)"
    using nat_of_char_less_256 [of c] by (simp_all add: less_mult_imp_div_less)
  moreover have "hex_value CHR ''0'' = Some 0" by (simp add: hex_value_def)
  ultimately show ?thesis
    by (simp add: u00_def hex_encode_one u getu4_def hex_value_table)
qed

lemma length_u00: "length (u00 c) = 6"
  by (simp add: u00_def hex_encode_one)

lemma unquote_u00: "of_char c < (128::nat) \<Longrightarrow> unquote_runes (u00 c @ t) = c # unquote_runes t"
proof -
  assume c: "of_char c < (128::nat)"
  obtain s where s: "u00 c = CHR 0x5C # s" "length s = 5"
    using length_u00 [of c] by (auto simp: u00_def)
  show ?thesis
    using c getu4_u00 [of c t] s
    by (simp add: unquote_runes.simps(2) surrogate_def encode_rune_def)
qed

lemma unquote_esc: "d \<noteq> CHR ''u'' \<Longrightarrow> unquote_runes (CHR 0x5C # d # t) = esc_value d # unquote_runes t"
proof -
  assume "d \<noteq> CHR ''u''"
  then have "getu4 (CHR 0x5C # d # t) = None" by (simp add: getu4_def split: list.split)
  then show ?thesis by (simp add: unquote_runes.simps(2))
qed

lemma unquote_esc_ascii:
  assumes "of_char c < (128::nat)"
  shows "unquote_runes (esc_ascii c @ t) = c # unquote_runes t"
proof (cases "c = CHR 0x22 \<or> c = CHR 0x5C \<or> c = CHR 0x08 \<or> c = CHR 0x0C \<or> c = CHR 0x0A \<or> c = CHR 0x0D \<or> c = CHR 0x09")
  case True
  then show ?thesis by (auto simp: esc_ascii_def unquote_esc esc_value_def)
next
  case False
  then show ?thesis
    using assms by (auto simp: esc_ascii_def unquote_u00 unquote_runes.simps(2) [of c] rune_width_ascii)
qed

lemma char_of_codes:
  "char_of (226::nat) = CHR 0xE2" "char_of (128::nat) = CHR 0x80" "char_of (168::nat) = CHR 0xA8"
  "char_of (169::nat) = CHR 0xA9" "char_of (239::nat) = CHR 0xEF" "char_of (191::nat) = CHR 0xBF"
  "char_of (189::nat) = CHR 0xBD"
  by code_simp+

lemma unquote_line_sep: "line_sep r \<Longrightarrow> length r = 3 \<Longrightarrow> unquote_runes (line_sep_esc r @ t) = r @ unquote_runes t"
  by (auto simp: line_sep_def line_sep_esc_def unquote_runes.simps(2) getu4_def hex_value_def surrogate_def
      encode_rune_def char_of_codes)

lemma unquote_rune:
  assumes "rune_width (c # s) = Some w" "w \<noteq> 1"
  shows "unquote_runes (take w (c # s) @ t) = take w (c # s) @ unquote_runes t"
proof -
  have w: "1 \<le> w" "w \<le> Suc (length s)" and c: "c \<noteq> CHR 0x5C"
    using rune_width_le [OF assms(1)] rune_width_one [OF assms(1)] assms(2) by auto
  have r: "rune_width (take w (c # s) @ t) = Some w"
    by (rule rune_width_take [OF assms(1)])
  obtain u where u: "take w (c # s) = c # u" "w = Suc (length u)"
    using w by (intro that [of "take (w - 1) s"]) (cases w, auto)
  with r c show ?thesis by (simp add: unquote_runes.simps(2))
qed

theorem unquote_quote_runes: "unquote_runes (quote_runes s @ t) = map_runes (\<lambda>c. [c]) s @ unquote_runes t"
proof (induction s rule: quote_runes.induct)
  case (2 c s)
  show ?case
  proof (cases "rune_width (c # s)")
    case None
    have "unquote_runes (CHR 0x5C # ''ufffd'' @ u) = replacement_char @ unquote_runes u" for u
      by (simp add: unquote_runes.simps(2) getu4_def hex_value_def surrogate_def encode_rune_def replacement_char_def char_of_codes)
    with None 2(1) show ?thesis by (simp add: quote_runes.simps(2) map_runes.simps(2))
  next
    case (Some w)
    note IH = 2(2) [OF Some]
    consider "w = 1" | "w \<noteq> 1" "line_sep (take w (c # s))" | "w \<noteq> 1" "\<not> line_sep (take w (c # s))" by blast
    then show ?thesis
    proof cases
      case 1
      then show ?thesis
        using Some IH rune_width_one [OF Some]
        by (simp add: quote_runes.simps(2) map_runes.simps(2) unquote_esc_ascii)
    next
      case 2
      then have "c = CHR 0xE2" by (cases w) (auto simp: line_sep_def)
      then have "w = 3" using rune_lead_width [OF Some] by simp
      moreover have "w \<le> Suc (length s)" using rune_width_le [OF Some] by simp
      ultimately have "length (take w (c # s)) = 3" by simp
      with 2 Some IH show ?thesis
        by (simp add: quote_runes.simps(2) map_runes.simps(2) unquote_line_sep)
    next
      case 3
      with Some IH show ?thesis
        by (simp add: quote_runes.simps(2) map_runes.simps(2) unquote_rune)
    qed
  qed
qed simp

lemma unquote_quote: "unquote_str (quote_str s) = map_runes (\<lambda>c. [c]) s"
  using unquote_quote_runes [of s "[]"] by (simp add: unquote_str_def quote_str_def)

lemma unquote_quote_valid: "valid_utf8 s \<Longrightarrow> unquote_str (quote_str s) = s"
  by (simp add: unquote_quote valid_utf8_def)

subsection \<open>What the scanner makes of a string literal\<close>

definition lit_entry :: "nat \<Rightarrow> scan_entry \<Rightarrow> bool" where
  "lit_entry n e \<longleftrightarrow> se_before e = n \<and> se_after e = n \<and> se_op e = ScanContinue"

definition in_string :: "string \<Rightarrow> bool" where
  "in_string a \<longleftrightarrow> (\<forall>S. \<exists>es. scan_trace (InString, S) a = Some (es, (InString, S)) \<and> list_all (lit_entry (length S)) es)"

lemma in_string_Nil [simp]: "in_string []"
  by (simp add: in_string_def)

lemma in_string_append: "in_string a \<Longrightarrow> in_string b \<Longrightarrow> in_string (a @ b)"
  unfolding in_string_def by (metis (no_types, lifting) list_all_append scan_trace_comp)

lemma in_string_char: "32 \<le> (of_char c :: nat) \<Longrightarrow> c \<noteq> CHR 0x22 \<Longrightarrow> c \<noteq> CHR 0x5C \<Longrightarrow> in_string [c]"
  by (auto simp: in_string_def lit_entry_def)

lemma in_string_chars:
  "\<forall>c \<in> set a. 32 \<le> (of_char c :: nat) \<and> c \<noteq> CHR 0x22 \<and> c \<noteq> CHR 0x5C \<Longrightarrow> in_string a"
proof (induction a)
  case (Cons c a)
  then show ?case using in_string_append [of "[c]" a] in_string_char [of c] by simp
qed simp

lemma in_string_esc: "d \<in> set (CHR 0x5C # CHR 0x22 # ''bfnrt/'') \<Longrightarrow> in_string [CHR 0x5C, d]"
  unfolding in_string_def lit_entry_def by simp

lemma in_string_u:
  "hex_digit a \<Longrightarrow> hex_digit b \<Longrightarrow> hex_digit c \<Longrightarrow> hex_digit d \<Longrightarrow> in_string [CHR 0x5C, CHR ''u'', a, b, c, d]"
  by (simp add: in_string_def lit_entry_def numeral_3_eq_3)

lemma hex_digit_table: "n < 16 \<Longrightarrow> hex_digit (hex_table ! n)"
  by (simp add: hex_digit_def hex_value_table)

lemma in_string_u00: "in_string (u00 c)"
proof -
  have "unat (byte_of_char c) div 16 < 16" "unat (byte_of_char c) mod 16 < 16"
    using unat_byte_less [of "byte_of_char c"] by (simp_all add: less_mult_imp_div_less)
  moreover have "hex_digit CHR ''0''" by (simp add: hex_digit_def hex_value_def)
  ultimately show ?thesis by (simp add: u00_def hex_encode_one in_string_u hex_digit_table)
qed

lemma in_string_line_sep_esc: "in_string (line_sep_esc r)"
  by (simp add: line_sep_esc_def in_string_u hex_digit_def hex_value_def)

lemma esc_ascii_cases:
  obtains (esc) d where "esc_ascii c = [CHR 0x5C, d]" "d \<in> set (CHR 0x5C # CHR 0x22 # ''bfnrt/'')"
  | (u) "esc_ascii c = u00 c"
  | (plain) "esc_ascii c = [c]" "32 \<le> (of_char c :: nat)" "c \<noteq> CHR 0x22" "c \<noteq> CHR 0x5C" "\<not> html_char c"
proof (cases "c \<in> {CHR 0x22, CHR 0x5C, CHR 0x08, CHR 0x0C, CHR 0x0A, CHR 0x0D, CHR 0x09}")
  case True
  have "\<exists>d. esc_ascii c = [CHR 0x5C, d] \<and> d \<in> set (CHR 0x5C # CHR 0x22 # ''bfnrt/'')"
    using True by (elim insertE emptyE) (simp_all add: esc_ascii_def)
  then show ?thesis using esc by blast
next
  case False
  then have *: "esc_ascii c = (if of_char c < (32::nat) \<or> html_char c then u00 c else [c])"
    "c \<noteq> CHR 0x22" "c \<noteq> CHR 0x5C"
    by (simp_all add: esc_ascii_def)
  show ?thesis
  proof (cases "of_char c < (32::nat) \<or> html_char c")
    case True
    with * show ?thesis by (intro u) simp
  next
    case False
    with * show ?thesis by (intro plain) simp_all
  qed
qed

lemma in_string_esc_ascii: "in_string (esc_ascii c)"
  by (cases c rule: esc_ascii_cases) (metis in_string_esc, metis in_string_u00, metis in_string_char)

lemma rune_bytes:
  assumes "rune_width (c # s) = Some w" "w \<noteq> 1" "d \<in> set (take w (c # s))"
  shows "128 \<le> (of_char d :: nat)"
proof (cases "d = c")
  case True
  with rune_width_one [OF assms(1)] assms(2) show ?thesis by simp
next
  case False
  with assms(3) have "d \<in> set (take (w - 1) s)" by (cases w) auto
  with rune_tail_bytes [OF assms(1)] show ?thesis by (simp add: byte_in_def)
qed

lemma in_string_quote: "in_string (quote_runes s)"
proof (induction s rule: quote_runes.induct)
  case (2 c s)
  show ?case
  proof (cases "rune_width (c # s)")
    case None
    have "in_string (CHR 0x5C # ''ufffd'')" by (simp add: in_string_u hex_digit_def hex_value_def)
    from in_string_append [OF this 2(1) [OF None]] None show ?thesis by (simp add: quote_runes.simps(2))
  next
    case (Some w)
    have "in_string (take w (c # s))" if "w \<noteq> 1"
      using rune_bytes [OF Some that] by (intro in_string_chars) fastforce
    then have "in_string (if w = 1 then esc_ascii c
        else if line_sep (take w (c # s)) then line_sep_esc (take w (c # s)) else take w (c # s))"
      using in_string_esc_ascii in_string_line_sep_esc by presburger
    from in_string_append [OF this 2(2) [OF Some]] Some show ?thesis by (simp only: quote_runes.simps(2) option.case)
  qed
qed simp

text \<open>Text that compaction leaves alone, wherever it stands.\<close>

definition solid_entry :: "scan_entry \<Rightarrow> bool" where
  "solid_entry e \<longleftrightarrow> se_op e \<notin> {ScanSkipSpace, ScanEnd}"

definition stable :: "string \<Rightarrow> bool" where
  "stable a \<longleftrightarrow> (\<forall>es fs. map se_char es = a \<longrightarrow> list_all solid_entry es \<longrightarrow>
     compact_from 0 (es @ fs) = a @ compact_from 0 fs)"

lemma stable_Nil [simp]: "stable []"
  by (simp add: stable_def)

lemma stable_append: "stable a \<Longrightarrow> stable b \<Longrightarrow> stable (a @ b)"
  unfolding stable_def by (auto simp: map_eq_append_conv)

lemma line_sep_Cons: "line_sep (c # s) \<Longrightarrow> c = CHR 0xE2"
  by (auto simp: line_sep_def)

lemma stable_char: "\<not> html_char c \<Longrightarrow> c \<noteq> CHR 0xE2 \<Longrightarrow> stable [c]"
  by (auto simp: stable_def solid_entry_def map_eq_Cons_conv dest: line_sep_Cons)

lemma stable_chars: "\<forall>c \<in> set a. \<not> html_char c \<and> c \<noteq> CHR 0xE2 \<Longrightarrow> stable a"
proof (induction a)
  case (Cons c a)
  then show ?case using stable_append [of "[c]" a] stable_char [of c] by simp
qed simp

lemma stable_E2:
  assumes "\<not> line_sep [CHR 0xE2, a, b]" "\<not> html_char a" "\<not> html_char b" "a \<noteq> CHR 0xE2" "b \<noteq> CHR 0xE2"
  shows "stable [CHR 0xE2, a, b]"
proof -
  have *: "stable [a, b]" using assms by (intro stable_chars) simp
  have h: "\<not> html_char CHR 0xE2" by (simp add: html_char_def)
  show ?thesis
    unfolding stable_def
  proof (intro allI impI)
    fix es fs assume m: "map se_char es = [CHR 0xE2, a, b]" and sol: "list_all solid_entry es"
    then obtain e es' where e: "es = e # es'" "se_char e = CHR 0xE2" "map se_char es' = [a, b]" by auto
    then have "\<not> line_sep (map se_char (e # es' @ fs))"
      using assms(1) by (simp add: line_sep_def)
    moreover have "compact_from 0 (es' @ fs) = [a, b] @ compact_from 0 fs"
      using * e sol unfolding stable_def by simp
    ultimately show "compact_from 0 (es @ fs) = [CHR 0xE2, a, b] @ compact_from 0 fs"
      using e sol h by (simp add: solid_entry_def)
  qed
qed

lemma hex_table_chars: "n < 16 \<Longrightarrow> \<not> html_char (hex_table ! n) \<and> hex_table ! n \<noteq> CHR 0xE2"
proof -
  have "\<forall>k \<in> set [0..<16]. \<not> html_char (hex_table ! k) \<and> hex_table ! k \<noteq> CHR 0xE2" by code_simp
  then show "n < 16 \<Longrightarrow> ?thesis" by simp
qed

lemma stable_u00: "stable (u00 c)"
proof -
  have "unat (byte_of_char c) div 16 < 16" "unat (byte_of_char c) mod 16 < 16"
    using unat_byte_less [of "byte_of_char c"] by (simp_all add: less_mult_imp_div_less)
  then have "\<forall>d \<in> set (hex_encode [byte_of_char c]). \<not> html_char d \<and> d \<noteq> CHR 0xE2"
    using hex_table_chars by (simp add: hex_encode_one)
  moreover have "\<forall>d \<in> set (CHR 0x5C # ''u00''). \<not> html_char d \<and> d \<noteq> CHR 0xE2" by (simp add: html_char_def)
  ultimately show ?thesis
    unfolding u00_def by (metis append_Cons stable_append stable_chars)
qed

lemma stable_esc_ascii:
  assumes "of_char c < (128::nat)"
  shows "stable (esc_ascii c)"
proof (cases c rule: esc_ascii_cases)
  case (esc d)
  then have "\<forall>x \<in> set [CHR 0x5C, d]. \<not> html_char x \<and> x \<noteq> CHR 0xE2" by (auto simp: html_char_def)
  with esc show ?thesis by (simp only: stable_chars)
next
  case u
  then show ?thesis by (simp only: stable_u00)
next
  case plain
  moreover have "c \<noteq> CHR 0xE2" using assms by auto
  ultimately show ?thesis by (metis stable_char)
qed

lemma stable_rune:
  assumes w: "rune_width (c # s) = Some w" "w \<noteq> 1" "\<not> line_sep (take w (c # s))"
  shows "stable (take w (c # s))"
proof (cases "c = CHR 0xE2")
  case False
  have "\<not> html_char d \<and> d \<noteq> CHR 0xE2" if "d \<in> set (take w (c # s))" for d
  proof (cases "d = c")
    case True
    with rune_bytes [OF w(1,2) that] False show ?thesis by (auto simp: html_char_def)
  next
    case False
    with that have "d \<in> set (take (w - 1) s)" by (cases w) auto
    with rune_tail_bytes [OF w(1)] show ?thesis by (fastforce simp: byte_in_def html_char_def)
  qed
  then show ?thesis by (intro stable_chars) simp
next
  case True
  then have w3: "w = 3" by (rule rune_lead_width [OF w(1)])
  with rune_width_le [OF w(1)] obtain a b r where s: "s = a # b # r"
    by (cases s; cases "tl s") auto
  have "byte_in 128 191 a" "byte_in 128 191 b"
    using rune_tail_bytes [OF w(1)] s w3 by simp_all
  then show ?thesis
    using w(3) True s w3 by (auto simp: byte_in_def html_char_def intro!: stable_E2)
qed

lemma stable_quote: "stable (quote_runes s)"
proof (induction s rule: quote_runes.induct)
  case (2 c s)
  show ?case
  proof (cases "rune_width (c # s)")
    case None
    have "stable (CHR 0x5C # ''ufffd'')" by (intro stable_chars) (simp add: html_char_def)
    from stable_append [OF this 2(1) [OF None]] None show ?thesis by (simp add: quote_runes.simps(2))
  next
    case (Some w)
    have "stable (line_sep_esc r)" for r
      by (intro stable_chars) (auto simp: line_sep_esc_def html_char_def)
    then have "stable (if w = 1 then esc_ascii c
        else if line_sep (take w (c # s)) then line_sep_esc (take w (c # s)) else take w (c # s))"
      using rune_width_one [OF Some] stable_rune [OF Some] stable_esc_ascii by presburger
    from stable_append [OF this 2(2) [OF Some]] Some show ?thesis by (simp only: quote_runes.simps(2) option.case)
  qed
qed simp

end
