(* ===== verification/JSON_Trees.thy ===== *)
theory JSON_Trees
  imports JSON_Strings
begin

section \<open>Printing objects and arrays, and taking them apart\<close>

text \<open>
  \<open>Marshal\<close> writes a struct as an object with its fields in the order of the declaration and
  without blanks, \<open>MarshalIndent\<close> with two blanks of indentation per level. Both are \<open>json_print\<close>
  on a tree whose leaves are literals. The theory proves that the scanner accepts what is
  printed, inside any text, and that \<open>json_parts\<close> gives back exactly the printed parts.
\<close>

subsection \<open>Trees\<close>

datatype json_style = Compact | Indented

datatype jtree =
    JLit string
  | JArr "jtree list"
  | JObj "(string \<times> jtree) list"

fun json_nl :: "json_style \<Rightarrow> nat \<Rightarrow> string" where
  "json_nl Compact d = []"
| "json_nl Indented d = CHR 0x0A # replicate (2 * d) CHR '' ''"

fun json_colon :: "json_style \<Rightarrow> string" where
  "json_colon Compact = '':''"
| "json_colon Indented = '': ''"

definition json_key :: "string \<Rightarrow> string" where
  "json_key k = CHR 0x22 # k @ [CHR 0x22]"

fun bracket :: "char \<Rightarrow> char \<Rightarrow> json_style \<Rightarrow> nat \<Rightarrow> string list \<Rightarrow> string" where
  "bracket b e sty d [] = [b, e]"
| "bracket b e sty d (x # xs) =
     b # json_nl sty (Suc d) @ x @ concat (map (\<lambda>y. CHR '','' # json_nl sty (Suc d) @ y) xs) @
     json_nl sty d @ [e]"

fun json_print :: "json_style \<Rightarrow> nat \<Rightarrow> jtree \<Rightarrow> string" where
  "json_print sty d (JLit s) = s"
| "json_print sty d (JArr ts) = bracket CHR ''['' CHR '']'' sty d (map (json_print sty (Suc d)) ts)"
| "json_print sty d (JObj ms) =
     bracket CHR ''{'' CHR ''}'' sty d
       (map (\<lambda>(k, t). json_key k @ json_colon sty @ json_print sty (Suc d) t) ms)"

subsection \<open>Texts of values\<close>

text \<open>
  \<open>value_text cp n v\<close>: wherever a value is expected, the scanner reads \<open>v\<close> as one value that nests
  at most \<open>n\<close> levels; with \<open>cp\<close> there are no blanks between its tokens.
\<close>

definition entry_ok :: "bool \<Rightarrow> nat \<Rightarrow> scan_entry \<Rightarrow> bool" where
  "entry_ok cp n e \<longleftrightarrow> inner_entry n e \<and> (cp \<longrightarrow> solid_entry e)"

definition value_text :: "bool \<Rightarrow> nat \<Rightarrow> string \<Rightarrow> bool" where
  "value_text cp n v \<longleftrightarrow>
     v \<noteq> [] \<and> \<not> json_space (hd v) \<and> hd v \<noteq> CHR '']'' \<and>
     (\<forall>S. length S + n \<le> max_nesting \<longrightarrow>
       (\<exists>es st. scan_trace (BeginValue, S) v = Some (es, (st, S)) \<and> ended (st, S) \<and>
          list_all (entry_ok cp (length S)) es))"

lemma value_text_mono: "value_text cp n v \<Longrightarrow> n \<le> m \<Longrightarrow> value_text cp m v"
  unfolding value_text_def by (metis (no_types, lifting) add_left_mono le_trans)

lemma value_text_first:
  assumes "v \<noteq> []" "\<not> json_space (hd v)" "hd v \<noteq> CHR '']''"
  shows "scan_trace (BeginValueOrEmpty, S) v = scan_trace (BeginValue, S) v"
proof (cases v)
  case (Cons c w)
  with assms have "scan_step (BeginValueOrEmpty, S) c = scan_step (BeginValue, S) c"
    by (simp add: begin_value_def)
  then show ?thesis unfolding Cons by (rule scan_trace_step_eq)
qed (use assms in simp)

lemma value_text_weaken: "value_text True n v \<Longrightarrow> value_text cp n v"
  unfolding value_text_def
  by (metis (no_types, lifting) entry_ok_def list.pred_mono_strong)

lemma lits_ok: "list_all (lit_entry n) es \<Longrightarrow> list_all (entry_ok cp n) es"
  by (erule list.pred_mono_strong) (simp add: lit_entry_def entry_ok_def inner_entry_def solid_entry_def)

lemma entries_inner: "list_all (entry_ok cp n) es \<Longrightarrow> list_all (inner_entry n) es"
  by (erule list.pred_mono_strong) (simp add: entry_ok_def)

lemma entries_Suc: "list_all (entry_ok cp (Suc n)) es \<Longrightarrow> list_all (entry_ok cp n) es"
  by (erule list.pred_mono_strong) (auto simp: entry_ok_def intro: inner_entry_Suc)

lemma blanks_ok: "list_all (blank_entry (Suc n)) es \<Longrightarrow> cp \<longrightarrow> es = [] \<Longrightarrow> list_all (entry_ok cp n) es"
  by (cases cp, simp) (erule list.pred_mono_strong, simp add: blank_entry_def inner_entry_def entry_ok_def)

text \<open>A string literal, from any of the states that expect one.\<close>

lemma scan_quoted:
  assumes "in_string a"
  shows "\<exists>es. (\<forall>b \<in> {BeginValue, BeginValueOrEmpty, BeginString, BeginStringOrEmpty}.
      scan_trace (b, S) (CHR 0x22 # a @ [CHR 0x22]) = Some (es, (EndValue, S))) \<and>
    list_all (entry_ok cp (length S)) es"
proof -
  from assms obtain es where es: "scan_trace (InString, S) a = Some (es, (InString, S))"
    "list_all (lit_entry (length S)) es"
    unfolding in_string_def by blast
  let ?e = "\<lparr>se_op = ScanContinue, se_before = length S, se_after = length S, se_char = CHR 0x22\<rparr>"
  have "scan_trace (InString, S) (a @ [CHR 0x22]) = Some (es @ [?e], (EndValue, S))"
    using es(1) by (simp add: scan_trace_append)
  then have "\<forall>b \<in> {BeginValue, BeginValueOrEmpty, BeginString, BeginStringOrEmpty}.
      scan_trace (b, S) (CHR 0x22 # a @ [CHR 0x22]) =
        Some (?e\<lparr>se_op := ScanBeginLiteral\<rparr> # es @ [?e], (EndValue, S))"
    by (simp add: begin_value_def begin_string_def json_space_def)
  moreover have "list_all (entry_ok cp (length S)) (?e\<lparr>se_op := ScanBeginLiteral\<rparr> # es @ [?e])"
    using lits_ok [OF es(2)] by (simp add: entry_ok_def inner_entry_def solid_entry_def)
  ultimately show ?thesis by blast
qed

lemma value_text_quoted: "in_string a \<Longrightarrow> value_text cp n (CHR 0x22 # a @ [CHR 0x22])"
  using scan_quoted [of a] by (fastforce simp: value_text_def ended_def json_space_def)

lemma value_text_quote_str [simp]: "value_text cp n (quote_str s)"
  unfolding quote_str_def by (rule value_text_quoted) (rule in_string_quote)

subsection \<open>Blanks\<close>

lemma json_nl_space: "c \<in> set (json_nl sty d) \<Longrightarrow> json_space c"
  by (cases sty) (auto simp: json_space_def)

lemma scan_blanks:
  assumes "\<forall>c \<in> set w. json_space c"
    and "b \<in> {BeginValue, BeginValueOrEmpty, BeginString, BeginStringOrEmpty} \<or> b = EndValue \<and> S \<noteq> []"
  shows "\<exists>es. scan_trace (b, S) w = Some (es, (b, S)) \<and> list_all (blank_entry (length S)) es"
  using assms(1)
proof (induction w)
  case (Cons c w)
  have sp: "json_space c" using Cons by simp
  then have "c \<noteq> CHR '']''" "c \<noteq> CHR ''}''" by (auto simp: json_space_def)
  then have "scan_step (b, S) c = Some ((b, S), ScanSkipSpace)"
    using sp assms(2) by (auto simp: begin_value_def begin_string_def end_value_def neq_Nil_conv)
  moreover obtain es where "scan_trace (b, S) w = Some (es, (b, S))" "list_all (blank_entry (length S)) es"
    using Cons by auto
  ultimately show ?case using sp by (simp add: blank_entry_def [of _ "\<lparr>se_op = _, se_before = _, se_after = _, se_char = _\<rparr>"])
qed simp

lemma scan_blanks_ended:
  assumes "\<forall>c \<in> set w. json_space c" "ended (st, S)" "S \<noteq> []"
  shows "\<exists>es st'. scan_trace (st, S) w = Some (es, (st', S)) \<and> ended (st', S) \<and> list_all (blank_entry (length S)) es"
proof (cases w)
  case Nil
  with assms show ?thesis by simp
next
  case (Cons c w')
  with assms have "scan_step (st, S) c = scan_step (EndValue, S) c"
    by (simp add: ended_step space_delimiter)
  then have "scan_trace (st, S) w = scan_trace (EndValue, S) w" unfolding Cons by (rule scan_trace_step_eq)
  with scan_blanks [OF assms(1), of EndValue S] assms(3) show ?thesis by (auto simp: ended_def)
qed

subsection \<open>Sequences\<close>

definition seq_start :: "bool \<Rightarrow> parse_state list \<Rightarrow> scanner" where
  "seq_start ob S = (if ob then (BeginString, ParseObjectKey # S) else (BeginValue, ParseArrayValue # S))"

definition seq_first :: "bool \<Rightarrow> parse_state list \<Rightarrow> scanner" where
  "seq_first ob S = (if ob then (BeginStringOrEmpty, ParseObjectKey # S) else (BeginValueOrEmpty, ParseArrayValue # S))"

definition seq_state :: "bool \<Rightarrow> parse_state" where
  "seq_state ob = (if ob then ParseObjectValue else ParseArrayValue)"

definition seq_close :: "bool \<Rightarrow> char" where
  "seq_close ob = (if ob then CHR ''}'' else CHR '']'')"

definition seq_open :: "bool \<Rightarrow> char" where
  "seq_open ob = (if ob then CHR ''{'' else CHR ''['')"

text \<open>
  \<open>item_text cp ob n x ps\<close>: the scanner reads \<open>x\<close> as one member of an object, or one element of an
  array, whose parts are \<open>ps\<close>.
\<close>

definition item_text :: "bool \<Rightarrow> bool \<Rightarrow> nat \<Rightarrow> string \<Rightarrow> string list \<Rightarrow> bool" where
  "item_text cp ob n x ps \<longleftrightarrow>
     ps \<noteq> [] \<and> last ps \<noteq> [] \<and>
     (\<forall>S. length S + Suc n \<le> max_nesting \<longrightarrow>
       (\<exists>es st. (\<forall>i \<in> {seq_start ob S, seq_first ob S}. scan_trace i x = Some (es, (st, seq_state ob # S))) \<and>
          ended (st, seq_state ob # S) \<and> list_all (entry_ok cp (length S)) es \<and>
          (S = [] \<longrightarrow> (\<forall>fs. split_parts (es @ fs) [] = butlast ps @ split_parts fs (last ps)))))"

lemma item_textD:
  assumes "item_text cp ob n x ps" "length S + Suc n \<le> max_nesting"
  obtains es st where "scan_trace (seq_start ob S) x = Some (es, (st, seq_state ob # S))"
    "scan_trace (seq_first ob S) x = Some (es, (st, seq_state ob # S))"
    "ended (st, seq_state ob # S)" "list_all (entry_ok cp (length S)) es" "ps \<noteq> []" "last ps \<noteq> []"
    "\<And>fs. S = [] \<Longrightarrow> split_parts (es @ fs) [] = butlast ps @ split_parts fs (last ps)"
proof -
  from assms have "\<exists>es st. (\<forall>i \<in> {seq_start ob S, seq_first ob S}. scan_trace i x = Some (es, (st, seq_state ob # S))) \<and>
      ended (st, seq_state ob # S) \<and> list_all (entry_ok cp (length S)) es \<and>
      (S = [] \<longrightarrow> (\<forall>fs. split_parts (es @ fs) [] = butlast ps @ split_parts fs (last ps)))"
    and "ps \<noteq> []" "last ps \<noteq> []"
    unfolding item_text_def by simp_all
  then show ?thesis using that by (elim exE conjE) simp
qed

lemma item_text_blank:
  assumes "item_text cp ob n x ps" "\<forall>c \<in> set w. json_space c" "cp \<longrightarrow> w = []"
  shows "item_text cp ob n (w @ x) ps"
proof -
  have "\<exists>es st. (\<forall>i \<in> {seq_start ob S, seq_first ob S}. scan_trace i (w @ x) = Some (es, (st, seq_state ob # S))) \<and>
      ended (st, seq_state ob # S) \<and> list_all (entry_ok cp (length S)) es \<and>
      (S = [] \<longrightarrow> (\<forall>fs. split_parts (es @ fs) [] = butlast ps @ split_parts fs (last ps)))"
    if S: "length S + Suc n \<le> max_nesting" for S
  proof -
    from assms(1) S obtain es st where es:
      "\<forall>i \<in> {seq_start ob S, seq_first ob S}. scan_trace i x = Some (es, (st, seq_state ob # S))"
      "ended (st, seq_state ob # S)" "list_all (entry_ok cp (length S)) es"
      "S = [] \<Longrightarrow> \<forall>fs. split_parts (es @ fs) [] = butlast ps @ split_parts fs (last ps)"
      unfolding item_text_def by blast
    have "\<exists>bs. scan_trace i w = Some (bs, i) \<and> list_all (blank_entry (Suc (length S))) bs \<and> map se_char bs = w"
      if "i \<in> {seq_start ob S, seq_first ob S}" for i
      using that scan_blanks [OF assms(2), of "fst i" "snd i"] scan_trace_chars
      by (fastforce simp: seq_start_def seq_first_def split: if_splits)
    then obtain b1 b2 where b: "scan_trace (seq_start ob S) w = Some (b1, seq_start ob S)"
      "scan_trace (seq_first ob S) w = Some (b2, seq_first ob S)"
      "list_all (blank_entry (Suc (length S))) b1" "list_all (blank_entry (Suc (length S))) b2"
      "map se_char b1 = w" "map se_char b2 = w"
      by (metis insertCI)
    have "b1 = b2"
    proof (rule nth_equalityI)
      show len: "length b1 = length b2" using b(5,6) by (metis length_map)
      show "b1 ! k = b2 ! k" if "k < length b1" for k
        using that b(3-6) len by (auto simp: list_all_length blank_entry_def dest: arg_cong [of _ _ "\<lambda>l. l ! k"])
    qed
    then have "\<forall>i \<in> {seq_start ob S, seq_first ob S}. scan_trace i (w @ x) = Some (b1 @ es, (st, seq_state ob # S))"
      using b(1,2) es(1) by (auto intro: scan_trace_comp)
    moreover have "list_all (entry_ok cp (length S)) (b1 @ es)"
      using es(3) blanks_ok [OF b(3), of cp] b(5) assms(3) by auto
    moreover have "S = [] \<longrightarrow> (\<forall>fs. split_parts ((b1 @ es) @ fs) [] = butlast ps @ split_parts fs (last ps))"
      using es(4) b(3) by (auto simp: split_parts_blank)
    ultimately show ?thesis using es(2) by blast
  qed
  then show ?thesis using assms(1) unfolding item_text_def by blast
qed

lemma seq_separator:
  assumes "ended (st, seq_state ob # S)"
  shows "\<exists>v. scan_step (st, seq_state ob # S) CHR '','' = Some (seq_start ob S, v) \<and> v \<in> {ScanObjectValue, ScanArrayValue}"
  using ended_step [OF assms, of "CHR '',''"]
  by (simp add: end_value_def seq_state_def seq_start_def json_space_def)

lemma seq_end_value:
  "\<exists>v. end_value (seq_state ob # S) (seq_close ob) = Some (pop_state S, v) \<and> v \<in> {ScanEndObject, ScanEndArray}"
  by (simp add: end_value_def seq_state_def seq_close_def json_space_def)

lemma length_pop_state [simp]: "snd (pop_state S) = S"
  by (simp add: pop_state_def)

lemma length_seq [simp]:
  "length (snd (seq_start ob S)) = Suc (length S)" "length (snd (seq_first ob S)) = Suc (length S)"
  by (simp_all add: seq_start_def seq_first_def)

lemma seq_tail:
  assumes "list_all2 (item_text cp ob n) xs pss" "ended (st, seq_state ob # S)" "length S + Suc n \<le> max_nesting"
    and "\<forall>c \<in> set w. json_space c" "\<forall>c \<in> set w'. json_space c" "cp \<longrightarrow> w = []" "cp \<longrightarrow> w' = []"
  shows "\<exists>es. scan_trace (st, seq_state ob # S) (concat (map (\<lambda>y. CHR '','' # w @ y) xs) @ w' @ [seq_close ob]) =
      Some (es, pop_state S) \<and> list_all (entry_ok cp (length S)) es \<and>
    (S = [] \<longrightarrow> (\<forall>cur. cur \<noteq> [] \<longrightarrow> split_parts es cur = cur # concat pss))"
  using assms(1,2)
proof (induction arbitrary: st rule: list_all2_induct)
  case Nil
  from scan_blanks_ended [OF assms(5) Nil] obtain bs st' where
    b: "scan_trace (st, seq_state ob # S) w' = Some (bs, (st', seq_state ob # S))"
    "ended (st', seq_state ob # S)" "list_all (blank_entry (Suc (length S))) bs"
    by auto
  obtain v where v: "scan_step (st', seq_state ob # S) (seq_close ob) = Some (pop_state S, v)"
    "v \<in> {ScanEndObject, ScanEndArray}"
    using seq_end_value ended_step [OF b(2)] by (metis delimiter_simps(3,4) list.distinct(1) seq_close_def)
  let ?e = "\<lparr>se_op = v, se_before = Suc (length S), se_after = length S, se_char = seq_close ob\<rparr>"
  have "scan_trace (st', seq_state ob # S) [seq_close ob] = Some ([?e], pop_state S)"
    using v by simp
  from scan_trace_comp [OF b(1) this] have
    "scan_trace (st, seq_state ob # S) (w' @ [seq_close ob]) = Some (bs @ [?e], pop_state S)" .
  moreover have "list_all (entry_ok cp (length S)) (bs @ [?e])"
    using blanks_ok [OF b(3)] scan_trace_chars [OF b(1)] assms(7) v(2)
    by (auto simp: entry_ok_def inner_entry_def solid_entry_def)
  moreover have "S = [] \<longrightarrow> (\<forall>cur. cur \<noteq> [] \<longrightarrow> split_parts (bs @ [?e]) cur = [cur])"
    using b(3) v(2) by (auto simp: split_parts_blank)
  ultimately show ?case by auto
next
  case (Cons x xs ps pss)
  obtain v where v: "scan_step (st, seq_state ob # S) CHR '','' = Some (seq_start ob S, v)"
    "v \<in> {ScanObjectValue, ScanArrayValue}"
    using seq_separator [OF Cons.prems] by blast
  let ?e = "\<lparr>se_op = v, se_before = Suc (length S), se_after = Suc (length S), se_char = CHR '',''\<rparr>"
  have "item_text cp ob n (w @ x) ps" using Cons.hyps(1) assms(4,6) by (rule item_text_blank)
  from item_textD [OF this assms(3)] obtain es1 st1 where
    1: "scan_trace (seq_start ob S) (w @ x) = Some (es1, (st1, seq_state ob # S))"
    "ended (st1, seq_state ob # S)" "list_all (entry_ok cp (length S)) es1" "ps \<noteq> []" "last ps \<noteq> []"
    "S = [] \<Longrightarrow> split_parts (es1 @ fs) [] = butlast ps @ split_parts fs (last ps)" for fs
    by metis
  from Cons.IH [OF 1(2)] obtain es2 where 2:
    "scan_trace (st1, seq_state ob # S) (concat (map (\<lambda>y. CHR '','' # w @ y) xs) @ w' @ [seq_close ob]) = Some (es2, pop_state S)"
    "list_all (entry_ok cp (length S)) es2"
    "S = [] \<Longrightarrow> cur \<noteq> [] \<Longrightarrow> split_parts es2 cur = cur # concat pss" for cur
    by blast
  have "scan_trace (st, seq_state ob # S) (CHR '','' # (w @ x) @ (concat (map (\<lambda>y. CHR '','' # w @ y) xs) @ w' @ [seq_close ob])) =
      Some (?e # es1 @ es2, pop_state S)"
    using scan_trace_cons [OF v(1) scan_trace_comp [OF 1(1) 2(1)]] by (simp only: snd_conv length_seq length_Cons)
  moreover have "list_all (entry_ok cp (length S)) (?e # es1 @ es2)"
    using 1(3) 2(2) v(2) by (auto simp: entry_ok_def inner_entry_def solid_entry_def)
  moreover have "split_parts (?e # es1 @ es2) cur = cur # concat (ps # pss)" if "S = []" "cur \<noteq> []" for cur
  proof -
    have "split_parts (?e # es1 @ es2) cur = cur # split_parts (es1 @ es2) []"
      using v(2) that by auto
    also have "split_parts (es1 @ es2) [] = butlast ps @ last ps # concat pss"
      using 1(5,6) 2(3) that(1) by simp
    finally show ?thesis using 1(4) by simp
  qed
  ultimately show ?case by (simp only: list.map concat.simps append_assoc append_Cons) blast
qed

lemma seq_opening:
  assumes "length S + Suc n \<le> max_nesting"
  shows "\<exists>v. scan_step (BeginValue, S) (seq_open ob) = Some (seq_first ob S, v) \<and> v \<in> {ScanBeginObject, ScanBeginArray}"
  using assms by (simp add: seq_open_def seq_first_def begin_value_def push_state_def json_space_def)

lemma seq_empty_step: "scan_step (seq_first ob S) (seq_close ob) = end_value (seq_state ob # S) (seq_close ob)"
  by (simp add: seq_first_def seq_close_def seq_state_def)

lemma bracket_trace:
  assumes items: "list_all2 (item_text cp ob n) xs pss" and S: "length S + Suc n \<le> max_nesting"
    and cp: "cp \<longrightarrow> sty = Compact"
  shows "\<exists>es. scan_trace (BeginValue, S) (bracket (seq_open ob) (seq_close ob) sty d xs) = Some (es, pop_state S) \<and>
     list_all (entry_ok cp (length S)) es \<and> (S = [] \<longrightarrow> split_parts es [] = concat pss)"
proof -
  obtain v where v: "scan_step (BeginValue, S) (seq_open ob) = Some (seq_first ob S, v)"
    "v \<in> {ScanBeginObject, ScanBeginArray}"
    using seq_opening [OF S] by blast
  let ?e = "\<lparr>se_op = v, se_before = length S, se_after = Suc (length S), se_char = seq_open ob\<rparr>"
  have opn: "scan_trace (BeginValue, S) (seq_open ob # s) = Some (?e # es, st')"
    if "scan_trace (seq_first ob S) s = Some (es, st')" for s es st'
    using v(1) that by simp
  have e: "entry_ok cp (length S) ?e" using v(2) by (auto simp: entry_ok_def inner_entry_def solid_entry_def)
  show ?thesis
  proof (cases xs)
    case Nil
    obtain u where u: "scan_step (seq_first ob S) (seq_close ob) = Some (pop_state S, u)" "u \<in> {ScanEndObject, ScanEndArray}"
      using seq_end_value [of ob S] by (auto simp: seq_empty_step)
    let ?f = "\<lparr>se_op = u, se_before = Suc (length S), se_after = length S, se_char = seq_close ob\<rparr>"
    have "scan_trace (seq_first ob S) [seq_close ob] = Some ([?f], pop_state S)" using u by simp
    from opn [OF this] show ?thesis
      using Nil items e u(2) by (auto simp: entry_ok_def inner_entry_def solid_entry_def)
  next
    case (Cons x xs')
    let ?w = "json_nl sty (Suc d)"
    have w: "\<forall>c \<in> set ?w. json_space c" "\<forall>c \<in> set (json_nl sty d). json_space c"
      using json_nl_space by blast+
    have c: "cp \<longrightarrow> ?w = []" "cp \<longrightarrow> json_nl sty d = []" using cp by simp_all
    from items Cons obtain ps pss' where pss: "pss = ps # pss'" "item_text cp ob n x ps" "list_all2 (item_text cp ob n) xs' pss'"
      by (auto simp: list_all2_Cons1)
    have "item_text cp ob n (?w @ x) ps" using pss(2) w(1) c(1) by (rule item_text_blank)
    from item_textD [OF this S] obtain es1 st1 where
      1: "scan_trace (seq_first ob S) (?w @ x) = Some (es1, (st1, seq_state ob # S))"
      "ended (st1, seq_state ob # S)" "list_all (entry_ok cp (length S)) es1" "ps \<noteq> []" "last ps \<noteq> []"
      "S = [] \<Longrightarrow> split_parts (es1 @ fs) [] = butlast ps @ split_parts fs (last ps)" for fs
      by metis
    from seq_tail [OF pss(3) 1(2) S w c] obtain es2 where 2:
      "scan_trace (st1, seq_state ob # S)
         (concat (map (\<lambda>y. CHR '','' # ?w @ y) xs') @ json_nl sty d @ [seq_close ob]) = Some (es2, pop_state S)"
      "list_all (entry_ok cp (length S)) es2"
      "S = [] \<Longrightarrow> cur \<noteq> [] \<Longrightarrow> split_parts es2 cur = cur # concat pss'" for cur
      by blast
    have "split_parts (?e # es1 @ es2) [] = concat pss" if "S = []"
    proof -
      have "split_parts (?e # es1 @ es2) [] = split_parts (es1 @ es2) []" using that by simp
      also have "\<dots> = butlast ps @ last ps # concat pss'" using 1(5,6) 2(3) that by simp
      finally show ?thesis using 1(4) pss(1) by simp
    qed
    moreover have "list_all (entry_ok cp (length S)) (?e # es1 @ es2)" using e 1(3) 2(2) by simp
    ultimately show ?thesis
      using opn [OF scan_trace_comp [OF 1(1) 2(1)]] unfolding Cons by (simp only: bracket.simps append_assoc) blast
  qed
qed

lemma bracket_value:
  assumes "list_all2 (item_text cp ob n) xs pss" "cp \<longrightarrow> sty = Compact"
  shows "value_text cp (Suc n) (bracket (seq_open ob) (seq_close ob) sty d xs)"
proof -
  have "bracket b e sty d xs = b # tl (bracket b e sty d xs)" for b e by (cases xs) simp_all
  moreover have "\<not> json_space (seq_open ob)" "seq_open ob \<noteq> CHR '']''"
    by (simp_all add: seq_open_def json_space_def)
  moreover have "ended (pop_state S)" for S by (simp add: pop_state_def ended_def)
  moreover have "\<exists>st. pop_state S = (st, S)" for S by (simp add: pop_state_def)
  ultimately show ?thesis
    unfolding value_text_def using bracket_trace [OF assms(1) _ assms(2)] by (metis list.distinct(1) list.sel(1))
qed

lemma bracket_parts:
  assumes "list_all2 (item_text cp ob n) xs pss" "cp \<longrightarrow> sty = Compact" "Suc n \<le> max_nesting"
  shows "json_parts (bracket (seq_open ob) (seq_close ob) sty d xs) = concat pss"
  using bracket_trace [OF assms(1) _ assms(2), of "[]" d] assms(3)
  by (auto simp: json_parts_def scan_text_def pop_state_def scan_eof_def)

lemma value_text_valid: "value_text cp n v \<Longrightarrow> n \<le> max_nesting \<Longrightarrow> json_valid v"
  unfolding value_text_def json_valid_def scan_text_def
  by (auto dest!: spec [of _ "[]"] simp: ended_eof)

subsection \<open>Elements and members\<close>

lemma value_textD:
  assumes "value_text cp n v" "length S + n \<le> max_nesting"
  obtains es st where "scan_trace (BeginValue, S) v = Some (es, (st, S))" "ended (st, S)"
    "list_all (entry_ok cp (length S)) es" "map se_char es = v"
  using assms scan_trace_chars unfolding value_text_def by metis

lemma item_element: "value_text cp n v \<Longrightarrow> item_text cp False n v [v]"
proof -
  assume v: "value_text cp n v"
  then have v0: "v \<noteq> []" "\<not> json_space (hd v)" "hd v \<noteq> CHR '']''" by (auto simp: value_text_def)
  have "\<exists>es st. (\<forall>i \<in> {seq_start False S, seq_first False S}. scan_trace i v = Some (es, (st, seq_state False # S))) \<and>
      ended (st, seq_state False # S) \<and> list_all (entry_ok cp (length S)) es \<and>
      (S = [] \<longrightarrow> (\<forall>fs. split_parts (es @ fs) [] = butlast [v] @ split_parts fs (last [v])))"
    if "length S + Suc n \<le> max_nesting" for S
  proof -
    from that have "length (ParseArrayValue # S) + n \<le> max_nesting" by simp
    from value_textD [OF v this] obtain es st where es:
      "scan_trace (BeginValue, ParseArrayValue # S) v = Some (es, (st, ParseArrayValue # S))"
      "ended (st, ParseArrayValue # S)" "list_all (entry_ok cp (Suc (length S))) es" "map se_char es = v"
      by (metis length_Cons)
    show ?thesis
      using es entries_Suc [OF es(3)] entries_inner [OF es(3)] value_text_first [OF v0]
      by (intro exI [of _ es] exI [of _ st])
        (auto simp: seq_start_def seq_first_def seq_state_def split_parts_inner)
  qed
  then show ?thesis using v0 unfolding item_text_def by simp
qed

definition plain_key :: "string \<Rightarrow> bool" where
  "plain_key k \<longleftrightarrow> list_all (\<lambda>c. byte_in 32 127 c \<and> c \<noteq> CHR 0x22 \<and> c \<noteq> CHR 0x5C \<and> \<not> html_char c) k"

lemma plain_key_string: "plain_key k \<Longrightarrow> in_string k"
  by (rule in_string_chars) (auto simp: plain_key_def list_all_iff byte_in_def)

lemma json_colon_eq: "\<exists>w. json_colon sty = CHR '':'' # w \<and> (\<forall>c \<in> set w. json_space c) \<and> (sty = Compact \<longrightarrow> w = [])"
  by (cases sty) (simp_all add: json_space_def)

lemma split_parts_key:
  assumes "list_all (inner_entry 1) ks" "list_all (blank_entry 1) bs" "list_all (inner_entry 1) es"
  shows "split_parts ((ks @ \<lparr>se_op = ScanObjectKey, se_before = 1, se_after = 1, se_char = c\<rparr> # bs @ es) @ fs) [] =
    map se_char ks # split_parts fs (map se_char es)"
  using assms by (simp add: split_parts_inner split_parts_blank)

lemma item_member:
  assumes k: "plain_key k" and v: "value_text cp n v" and sty: "cp \<longrightarrow> sty = Compact"
  shows "item_text cp True n (json_key k @ json_colon sty @ v) [json_key k, v]"
proof -
  obtain w where w: "json_colon sty = CHR '':'' # w" "\<forall>c \<in> set w. json_space c" "cp \<longrightarrow> w = []"
    using json_colon_eq sty by metis
  have "\<exists>es st. (\<forall>i \<in> {seq_start True S, seq_first True S}.
        scan_trace i (json_key k @ json_colon sty @ v) = Some (es, (st, seq_state True # S))) \<and>
      ended (st, seq_state True # S) \<and> list_all (entry_ok cp (length S)) es \<and>
      (S = [] \<longrightarrow> (\<forall>fs. split_parts (es @ fs) [] = butlast [json_key k, v] @ split_parts fs (last [json_key k, v])))"
    if S: "length S + Suc n \<le> max_nesting" for S
  proof -
    let ?K = "ParseObjectKey # S" and ?V = "ParseObjectValue # S"
    let ?e = "\<lparr>se_op = ScanObjectKey, se_before = Suc (length S), se_after = Suc (length S), se_char = CHR '':''\<rparr>"
    from scan_quoted [OF plain_key_string [OF k], of ?K cp] obtain ks where ks:
      "\<forall>b \<in> {BeginString, BeginStringOrEmpty}. scan_trace (b, ?K) (json_key k) = Some (ks, (EndValue, ?K))"
      "list_all (entry_ok cp (Suc (length S))) ks"
      unfolding json_key_def by auto
    from scan_blanks [OF w(2), of BeginValue ?V] obtain bs where bs:
      "scan_trace (BeginValue, ?V) w = Some (bs, (BeginValue, ?V))" "list_all (blank_entry (Suc (length S))) bs"
      by auto
    from S have "length ?V + n \<le> max_nesting" by simp
    from value_textD [OF v this] obtain es st where es:
      "scan_trace (BeginValue, ?V) v = Some (es, (st, ?V))" "ended (st, ?V)"
      "list_all (entry_ok cp (Suc (length S))) es" "map se_char es = v"
      by (metis length_Cons)
    have "scan_step (EndValue, ?K) CHR '':'' = Some ((BeginValue, ?V), ScanObjectKey)"
      by (simp add: end_value_def json_space_def)
    from scan_trace_cons [OF this scan_trace_comp [OF bs(1) es(1)]]
    have "scan_trace (EndValue, ?K) (json_colon sty @ v) = Some (?e # bs @ es, (st, ?V))" by (simp add: w(1))
    then have "\<forall>b \<in> {BeginString, BeginStringOrEmpty}.
        scan_trace (b, ?K) (json_key k @ json_colon sty @ v) = Some (ks @ ?e # bs @ es, (st, ?V))"
      using ks(1) by (auto intro: scan_trace_comp)
    moreover have "list_all (entry_ok cp (length S)) (ks @ ?e # bs @ es)"
      using entries_Suc [OF ks(2)] entries_Suc [OF es(3)] blanks_ok [OF bs(2), of cp] scan_trace_chars [OF bs(1)] w(3)
      by (auto simp: entry_ok_def [of _ _ ?e] inner_entry_def [of _ ?e] solid_entry_def [of ?e])
    moreover have "split_parts ((ks @ ?e # bs @ es) @ fs) [] = json_key k # split_parts fs v" if "S = []" for fs
      using split_parts_key [OF _ _ entries_inner, of ks bs cp es] entries_inner [OF ks(2)] bs(2) es(3,4)
        scan_trace_chars ks(1) that by fastforce
    ultimately show ?thesis
      using es(2) unfolding seq_start_def seq_first_def seq_state_def if_True by auto
  qed
  moreover have "v \<noteq> []" using v by (simp add: value_text_def)
  ultimately show ?thesis unfolding item_text_def by simp
qed

subsection \<open>Trees are values\<close>

fun tree_ok :: "bool \<Rightarrow> nat \<Rightarrow> jtree \<Rightarrow> bool" where
  "tree_ok cp n (JLit v) = value_text cp n v"
| "tree_ok cp 0 (JArr ts) = False"
| "tree_ok cp 0 (JObj ms) = False"
| "tree_ok cp (Suc n) (JArr ts) = list_all (tree_ok cp n) ts"
| "tree_ok cp (Suc n) (JObj ms) = list_all (\<lambda>(k, t). plain_key k \<and> tree_ok cp n t) ms"

lemma brackets:
  "bracket CHR ''['' CHR '']'' = bracket (seq_open False) (seq_close False)"
  "bracket CHR ''{'' CHR ''}'' = bracket (seq_open True) (seq_close True)"
  by (simp_all add: seq_open_def seq_close_def)

lemma element_items:
  "list_all (\<lambda>t. value_text cp n (f t)) ts \<Longrightarrow> list_all2 (item_text cp False n) (map f ts) (map (\<lambda>t. [f t]) ts)"
  by (induction ts) (simp_all add: item_element)

lemma member_items:
  "list_all (\<lambda>(k, t). plain_key k \<and> value_text cp n (f t)) ms \<Longrightarrow> cp \<longrightarrow> sty = Compact \<Longrightarrow>
   list_all2 (item_text cp True n) (map (\<lambda>(k, t). json_key k @ json_colon sty @ f t) ms)
     (map (\<lambda>(k, t). [json_key k, f t]) ms)"
  by (induction ms) (auto intro!: item_member simp del: json_colon.simps)

theorem print_value:
  "tree_ok cp n t \<Longrightarrow> cp \<longrightarrow> sty = Compact \<Longrightarrow> value_text cp n (json_print sty d t)"
proof (induction cp n t arbitrary: d rule: tree_ok.induct)
  case (4 cp n ts)
  then have "list_all (\<lambda>t. value_text cp n (json_print sty (Suc d) t)) ts"
    by (auto simp: list_all_iff)
  from bracket_value [OF element_items [OF this]] 4 show ?case by (simp add: brackets)
next
  case (5 cp n ms)
  then have "list_all (\<lambda>(k, t). plain_key k \<and> value_text cp n (json_print sty (Suc d) t)) ms"
    by (fastforce simp: list_all_iff)
  from bracket_value [OF member_items [OF this]] 5 show ?case by (simp add: brackets)
qed auto

lemma array_parts:
  assumes "tree_ok cp (Suc n) (JArr ts)" "cp \<longrightarrow> sty = Compact" "Suc n \<le> max_nesting"
  shows "json_parts (json_print sty d (JArr ts)) = map (json_print sty (Suc d)) ts"
proof -
  have "list_all (\<lambda>t. value_text cp n (json_print sty (Suc d) t)) ts"
    using assms print_value by (auto simp: list_all_iff)
  from bracket_parts [OF element_items [OF this] assms(2,3)] show ?thesis
    by (simp add: brackets comp_def flip: map_concat)
qed

lemma object_parts:
  assumes "tree_ok cp (Suc n) (JObj ms)" "cp \<longrightarrow> sty = Compact" "Suc n \<le> max_nesting"
  shows "pair_up (json_parts (json_print sty d (JObj ms))) = map (\<lambda>(k, t). (json_key k, json_print sty (Suc d) t)) ms"
proof -
  have "list_all (\<lambda>(k, t). plain_key k \<and> value_text cp n (json_print sty (Suc d) t)) ms"
    using assms print_value by (fastforce simp: list_all_iff)
  from bracket_parts [OF member_items [OF this assms(2)] assms(2,3)]
  have "json_parts (json_print sty d (JObj ms)) = concat (map (\<lambda>(k, t). [json_key k, json_print sty (Suc d) t]) ms)"
    by (simp add: brackets)
  moreover have "pair_up (concat (map (\<lambda>(k, t). [json_key k, json_print sty (Suc d) t]) xs)) =
      map (\<lambda>(k, t). (json_key k, json_print sty (Suc d) t)) xs" for xs
    by (induction xs) auto
  ultimately show ?thesis by simp
qed

end
