(* ===== verification/Base64.thy ===== *)
theory Base64
  imports Text_Encodings
begin

section \<open>Standard base 64 (\<open>encoding/base64\<close>)\<close>

text \<open>
  How \<open>encoding/json\<close> carries a \<open>[]byte\<close>: \<open>base64.StdEncoding\<close>, padded, with line breaks
  ignored and the unused bits of the last digit not looked at when decoding.
\<close>

definition b64_alphabet :: string where
  "b64_alphabet = ''ABCDEFGHIJKLMNOPQRSTUVWXYZabcdefghijklmnopqrstuvwxyz0123456789+/''"

definition b64_char :: "byte \<Rightarrow> char" where
  "b64_char q = b64_alphabet ! unat (q AND 0x3F)"

definition b64_value :: "char \<Rightarrow> byte option" where
  "b64_value c = map_option word_of_nat (index_of c b64_alphabet)"

definition sextets :: "byte \<Rightarrow> byte \<Rightarrow> byte \<Rightarrow> byte list" where
  "sextets a b c =
     [drop_bit 2 a,
      (push_bit 4 a AND 0x3F) OR drop_bit 4 b,
      (push_bit 2 b AND 0x3F) OR drop_bit 6 c,
      c AND 0x3F]"

fun b64_encode :: "bytes \<Rightarrow> string" where
  "b64_encode [] = []"
| "b64_encode [a] = map b64_char (take 2 (sextets a 0 0)) @ ''==''"
| "b64_encode [a, b] = map b64_char (take 3 (sextets a b 0)) @ ''=''"
| "b64_encode (a # b # c # r) = map b64_char (sextets a b c) @ b64_encode r"

definition unsext0 :: "byte \<Rightarrow> byte \<Rightarrow> byte" where
  "unsext0 p q = push_bit 2 p OR drop_bit 4 q"

definition unsext1 :: "byte \<Rightarrow> byte \<Rightarrow> byte" where
  "unsext1 q r = push_bit 4 q OR drop_bit 2 r"

definition unsext2 :: "byte \<Rightarrow> byte \<Rightarrow> byte" where
  "unsext2 r s = push_bit 6 r OR s"

fun b64_groups :: "string \<Rightarrow> bytes option" where
  "b64_groups [] = Some []"
| "b64_groups (c0 # c1 # c2 # c3 # s) =
     (case (b64_value c0, b64_value c1) of
        (Some p, Some q) \<Rightarrow>
          (case b64_value c2 of
             None \<Rightarrow>
               (if c2 = CHR ''='' \<and> c3 = CHR ''='' \<and> s = [] then Some [unsext0 p q] else None)
           | Some r \<Rightarrow>
               (case b64_value c3 of
                  None \<Rightarrow>
                    (if c3 = CHR ''='' \<and> s = [] then Some [unsext0 p q, unsext1 q r] else None)
                | Some t \<Rightarrow>
                    (case b64_groups s of
                       None \<Rightarrow> None
                     | Some bs \<Rightarrow> Some (unsext0 p q # unsext1 q r # unsext2 r t # bs))))
      | _ \<Rightarrow> None)"
| "b64_groups _ = None"

datatype b64_error = BadBase64

definition b64_decode :: "string \<Rightarrow> b64_error + bytes" where
  "b64_decode s =
     (case b64_groups (strip_newlines s) of None \<Rightarrow> Inl BadBase64 | Some bs \<Rightarrow> Inr bs)"

subsection \<open>Round trip\<close>

lemma unat_and_63: "unat (q AND 0x3F :: byte) < 64"
proof -
  have "q AND 0x3F \<le> (0x3F :: byte)" by (rule word_and_le1)
  then have "unat (q AND 0x3F) \<le> unat (0x3F :: byte)" by (rule word_le_nat_alt [THEN iffD1])
  then show ?thesis by simp
qed

lemma b64_alphabet_facts: "length b64_alphabet = 64" "distinct b64_alphabet"
  by (simp_all add: b64_alphabet_def)

lemma b64_value_char: "b64_value (b64_char q) = Some (q AND 0x3F)"
  by (simp add: b64_value_def b64_char_def index_of_nth b64_alphabet_facts unat_and_63)

lemma b64_value_pad: "b64_value (CHR ''='') = None"
  by code_simp

lemma b64_char_in: "b64_char q \<in> set b64_alphabet"
  by (simp add: b64_char_def b64_alphabet_facts unat_and_63)

lemma b64_alphabet_no_newline: "c \<in> set b64_alphabet \<Longrightarrow> c \<noteq> CHR 0x0D \<and> c \<noteq> CHR 0x0A"
  by (auto simp: b64_alphabet_def)

lemma b64_encode_chars: "c \<in> set (b64_encode bs) \<Longrightarrow> c \<in> set b64_alphabet \<or> c = CHR ''=''"
  by (induction bs rule: b64_encode.induct) (auto simp: sextets_def b64_char_in)

lemma strip_newlines_b64: "strip_newlines (b64_encode bs) = b64_encode bs"
  unfolding strip_newlines_def
proof (intro filter_True ballI)
  fix c assume "c \<in> set (b64_encode bs)"
  with b64_encode_chars consider "c \<in> set b64_alphabet" | "c = CHR ''=''" by blast
  then show "c \<noteq> CHR 0x0D \<and> c \<noteq> CHR 0x0A" by cases (use b64_alphabet_no_newline in simp_all)
qed

lemma unsext_sextets:
  "unsext0 (drop_bit 2 a AND 0x3F) (((push_bit 4 a AND 0x3F) OR drop_bit 4 b) AND 0x3F) = a"
  "unsext1 (((push_bit 4 a AND 0x3F) OR drop_bit 4 b) AND 0x3F) (((push_bit 2 b AND 0x3F) OR drop_bit 6 c) AND 0x3F) = b"
  "unsext2 (((push_bit 2 b AND 0x3F) OR drop_bit 6 c) AND 0x3F) (c AND 0x3F AND 0x3F) = c"
  unfolding unsext0_def unsext1_def unsext2_def
  by (rule byte_eqI; simp add: byte_bits; simp add: numeral_2_eq_2 numeral_3_eq_3)+

lemma b64_groups_encode: "b64_groups (b64_encode bs) = Some bs"
proof (induction bs rule: b64_encode.induct)
  case (2 a)
  show ?case using unsext_sextets(1) [of a 0] by (simp add: sextets_def b64_value_char b64_value_pad)
next
  case (3 a b)
  show ?case using unsext_sextets(1) [of a b] unsext_sextets(2) [of a b 0]
    by (simp add: sextets_def b64_value_char b64_value_pad)
next
  case (4 a b c r)
  then show ?case using unsext_sextets(1) [of a b] unsext_sextets(2) [of a b c] unsext_sextets(3) [of b c]
    by (simp add: sextets_def b64_value_char)
qed simp

lemma b64_decode_encode: "b64_decode (b64_encode bs) = Inr bs"
  by (simp add: b64_decode_def strip_newlines_b64 b64_groups_encode)

interpretation b64: codec b64_encode b64_decode "\<lambda>_. True"
  by unfold_locales (rule b64_decode_encode)

lemma length_b64_encode [len_simps]: "length (b64_encode bs) = 4 * ((length bs + 2) div 3)"
proof (induction bs rule: b64_encode.induct)
  case (4 a b c r)
  have "(5 + n) div 3 = Suc (Suc (Suc n) div (3::nat))" for n by presburger
  with 4 show ?case by (simp add: sextets_def)
qed (simp_all add: sextets_def)

end
