(* ===== verification/JSON_Decode.thy ===== *)
theory JSON_Decode
  imports JSON_Trees Base64
begin

section \<open>Values into Go types (\<open>Unmarshal\<close>) and out of them\<close>

text \<open>
  A decoder takes the text of one value, without blanks around it, and the value that the Go
  variable holds; it gives the variable's new value and whether it had no complaint. As in
  \<open>encoding/json\<close> a complaint about one value does not stop the decoding of the others,
  \<open>null\<close> leaves everything but a slice as it is, the member names of an object match the fields
  of a struct without regard to case, and a name that occurs twice is decoded twice into the same
  field. An array is decoded into the elements a slice already has; what lies in the slice's
  memory beyond its length is taken as zero.
\<close>

type_synonym 'a decoder = "string \<Rightarrow> 'a \<Rightarrow> 'a \<times> bool"

subsection \<open>Literals\<close>

definition starts :: "char \<Rightarrow> string \<Rightarrow> bool" where
  "starts c s = (case s of [] \<Rightarrow> False | d # _ \<Rightarrow> d = c)"

definition dec_str :: "string decoder" where
  "dec_str raw old =
     (if starts CHR 0x22 raw then (unquote_str raw, True) else (old, starts CHR ''n'' raw))"

definition dec_bool :: "bool decoder" where
  "dec_bool raw old =
     (if starts CHR ''t'' raw then (True, True)
      else if starts CHR ''f'' raw then (False, True)
      else (old, starts CHR ''n'' raw))"

definition all_digits :: "string \<Rightarrow> bool" where
  "all_digits s \<longleftrightarrow> s \<noteq> [] \<and> list_all json_digit s"

text \<open>\<open>strconv.ParseInt\<close> and \<open>ParseUint\<close> in base 10.\<close>

definition parse_int64 :: "string \<Rightarrow> int option" where
  "parse_int64 s =
     (if starts CHR ''-'' s
      then (if all_digits (tl s) \<and> undecimal (tl s) \<le> 2 ^ 63 then Some (- int (undecimal (tl s))) else None)
      else (if all_digits s \<and> undecimal s < 2 ^ 63 then Some (int (undecimal s)) else None))"

definition dec_int64 :: "int decoder" where
  "dec_int64 raw old =
     (if starts CHR ''n'' raw then (old, True)
      else case parse_int64 raw of None \<Rightarrow> (old, False) | Some i \<Rightarrow> (i, True))"

definition dec_uint :: "string \<Rightarrow> 'a::len word \<Rightarrow> 'a word \<times> bool" where
  "dec_uint raw old =
     (if starts CHR ''n'' raw then (old, True)
      else if all_digits raw \<and> undecimal raw < 2 ^ LENGTH('a) then (word_of_nat (undecimal raw), True)
      else (old, False))"

definition dec_sint :: "string \<Rightarrow> 64 word \<Rightarrow> 64 word \<times> bool" where
  "dec_sint raw old = (case dec_int64 raw (sint old) of (i, ok) \<Rightarrow> (word_of_int i, ok))"

subsection \<open>Slices and structs\<close>

definition dec_slice :: "'a decoder \<Rightarrow> 'a \<Rightarrow> 'a list decoder" where
  "dec_slice d zero raw old =
     (if starts CHR ''['' raw then
        (let rs = json_parts raw;
             res = map2 d rs (take (length rs) (old @ replicate (length rs) zero))
         in (map fst res, list_all snd res))
      else if starts CHR ''n'' raw then ([], True)
      else (old, False))"

definition dec_bytes :: "bytes decoder" where
  "dec_bytes raw old =
     (if starts CHR 0x22 raw then
        (case b64_decode (unquote_str raw) of Inl e \<Rightarrow> (old, False) | Inr b \<Rightarrow> (b, True))
      else dec_slice dec_uint 0 raw old)"

text \<open>\<open>json.RawMessage\<close> keeps the text as it stands.\<close>

definition dec_raw :: "bytes decoder" where
  "dec_raw raw old = (bytes_of raw, True)"

text \<open>
  \<open>foldName\<close>: two runes outside ASCII, the Kelvin sign and the long s, fold to ASCII letters.
\<close>

fun fold_key :: "string \<Rightarrow> string" where
  "fold_key [] = []"
| "fold_key [a] = [upper_char a]"
| "fold_key [a, b] =
     (if a = CHR 0xC5 \<and> b = CHR 0xBF then ''S'' else [upper_char a, upper_char b])"
| "fold_key (a # b # c # s) =
     (if a = CHR 0xE2 \<and> b = CHR 0x84 \<and> c = CHR 0xAA then CHR ''K'' # fold_key s
      else if a = CHR 0xC5 \<and> b = CHR 0xBF then CHR ''S'' # fold_key (c # s)
      else upper_char a # fold_key (b # c # s))"

declare fold_key.simps [simp del]

type_synonym members = "(string \<times> string) list"

definition object_members :: "string \<Rightarrow> members" where
  "object_members raw = map (\<lambda>(k, v). (unquote_str k, v)) (pair_up (json_parts raw))"

definition field_texts :: "string \<Rightarrow> members \<Rightarrow> string list" where
  "field_texts name ms = map snd (filter (\<lambda>(k, v). fold_key k = fold_key name) ms)"

definition dec_all :: "'a decoder \<Rightarrow> string list \<Rightarrow> 'a \<Rightarrow> 'a \<times> bool" where
  "dec_all d vs old = foldl (\<lambda>(x, ok) v. case d v x of (y, ok') \<Rightarrow> (y, ok \<and> ok')) (old, True) vs"

definition field :: "'a decoder \<Rightarrow> string \<Rightarrow> members \<Rightarrow> 'a \<Rightarrow> 'a \<times> bool" where
  "field d name ms old = dec_all d (field_texts name ms) old"

definition dec_struct :: "(members \<Rightarrow> 'a \<Rightarrow> 'a \<times> bool) \<Rightarrow> 'a decoder" where
  "dec_struct f raw old =
     (if starts CHR ''{'' raw then f (object_members raw) old else (old, starts CHR ''n'' raw))"

text \<open>
  \<open>Unmarshal\<close>: a text that is not valid changes nothing. The first component is what the
  variable holds when the caller ignores the error.
\<close>

definition json_unmarshal :: "'a decoder \<Rightarrow> 'a \<Rightarrow> bytes \<Rightarrow> 'a \<times> bool" where
  "json_unmarshal d zero b =
     (if json_valid (string_of b) then d (strip_blank (string_of b)) zero else (zero, False))"

definition json_unmarshal_ok :: "'a decoder \<Rightarrow> 'a \<Rightarrow> bytes \<Rightarrow> 'a option" where
  "json_unmarshal_ok d zero b = (case json_unmarshal d zero b of (x, ok) \<Rightarrow> if ok then Some x else None)"

subsection \<open>Encoders\<close>

text \<open>
  An empty byte slice is written \<open>null\<close>, as Go does for a nil slice; the few empty slices that
  are not nil would be written as an empty string, which reads back as the same bytes.
\<close>

definition enc_str :: "string \<Rightarrow> jtree" where
  "enc_str s = JLit (quote_str s)"

definition enc_bytes :: "bytes \<Rightarrow> jtree" where
  "enc_bytes b = JLit (if b = [] then ''null'' else json_key (b64_encode b))"

definition enc_int :: "int \<Rightarrow> jtree" where
  "enc_int i = JLit (decimal_int i)"

definition enc_bool :: "bool \<Rightarrow> jtree" where
  "enc_bool b = JLit (if b then ''true'' else ''false'')"

definition enc_slice :: "('a \<Rightarrow> jtree) \<Rightarrow> 'a list \<Rightarrow> jtree" where
  "enc_slice f xs = (if xs = [] then JLit ''null'' else JArr (map f xs))"

text \<open>A member that \<open>omitempty\<close> drops.\<close>

definition opt_member :: "bool \<Rightarrow> string \<Rightarrow> jtree \<Rightarrow> (string \<times> jtree) list" where
  "opt_member present k t = (if present then [(k, t)] else [])"

definition json_marshal :: "jtree \<Rightarrow> bytes" where
  "json_marshal t = bytes_of (json_print Compact 0 t)"

definition json_marshal_indent :: "jtree \<Rightarrow> bytes" where
  "json_marshal_indent t = bytes_of (json_print Indented 0 t)"

subsection \<open>Literals are values\<close>

lemma scan_digits:
  "list_all json_digit s \<Longrightarrow> \<exists>es. scan_trace (NumDigits, S) s = Some (es, (NumDigits, S)) \<and> list_all (lit_entry (length S)) es"
proof (induction s)
  case (Cons c s)
  then obtain es where es: "scan_trace (NumDigits, S) s = Some (es, (NumDigits, S))" "list_all (lit_entry (length S)) es"
    by auto
  from Cons.prems have "scan_step (NumDigits, S) c = Some ((NumDigits, S), ScanContinue)" by (simp add: digit_or_def)
  from scan_trace_cons [OF this es(1)] es(2) show ?case
    by (simp add: lit_entry_def [of _ "\<lparr>se_op = _, se_before = _, se_after = _, se_char = _\<rparr>"])
qed simp

lemma decimal_head: "0 < n \<Longrightarrow> \<exists>c s. decimal n = c # s \<and> json_digit c \<and> c \<noteq> CHR ''0'' \<and> list_all json_digit s"
proof (induction n rule: decimal.induct)
  case (1 n)
  have dig: "json_digit (char_of (48 + m))" if "m < 10" for m :: nat
    using that by (simp add: json_digit_def byte_in_def)
  show ?case
  proof (cases "n < 10")
    case True
    have "char_of (48 + n) \<noteq> CHR ''0''"
    proof
      assume "char_of (48 + n) = CHR ''0''"
      then have "of_char (char_of (48 + n) :: char) = (of_char CHR ''0'' :: nat)" by (rule arg_cong)
      with True 1(2) show False by simp
    qed
    with True dig show ?thesis by (simp add: decimal.simps [of n])
  next
    case False
    then have "0 < n div 10" by (simp add: div_greater_zero_iff)
    with 1(1) [OF False] obtain c s where "decimal (n div 10) = c # s" "json_digit c" "c \<noteq> CHR ''0''" "list_all json_digit s" by auto
    with False dig [of "n mod 10"] show ?thesis by (simp add: decimal.simps [of n])
  qed
qed

lemma decimal_zero: "decimal 0 = ''0''"
  by code_simp

lemma all_digits_decimal: "all_digits (decimal n)"
  using decimal_head [of n] by (cases "n = 0") (auto simp: all_digits_def decimal_zero json_digit_def byte_in_def)

lemma lit_value:
  assumes "scan_step (BeginValue, S) c = Some ((b, S), ScanBeginLiteral)"
    and "scan_trace (b, S) s = Some (es, (st, S))" "list_all (lit_entry (length S)) es" "ended (st, S)"
  shows "\<exists>es st. scan_trace (BeginValue, S) (c # s) = Some (es, (st, S)) \<and> ended (st, S) \<and>
    list_all (entry_ok cp (length S)) es"
  using scan_trace_cons [OF assms(1,2)] lits_ok [OF assms(3), of cp] assms(4)
  by (auto simp: entry_ok_def [of _ _ "\<lparr>se_op = _, se_before = _, se_after = _, se_char = _\<rparr>"] inner_entry_def solid_entry_def)

lemma value_text_pos: "0 < n \<Longrightarrow> value_text cp m (decimal n)"
proof -
  assume "0 < n"
  then obtain c s where d: "decimal n = c # s" "json_digit c" "c \<noteq> CHR ''0''" "list_all json_digit s"
    using decimal_head by blast
  have neq: "c \<noteq> CHR ''{''" "c \<noteq> CHR ''[''" "c \<noteq> CHR 0x22" "c \<noteq> CHR ''-''" "c \<noteq> CHR ''t''" "c \<noteq> CHR ''f''"
    "c \<noteq> CHR ''n''" "c \<noteq> CHR '']''" "\<not> json_space c"
    using d(2) by (auto simp: json_digit_def byte_in_def json_space_def)
  have "\<exists>es st. scan_trace (BeginValue, S) (c # s) = Some (es, (st, S)) \<and> ended (st, S) \<and>
      list_all (entry_ok cp (length S)) es" for S
  proof -
    have "scan_step (BeginValue, S) c = Some ((NumDigits, S), ScanBeginLiteral)"
      using neq d(2,3) by (simp add: begin_value_def)
    moreover obtain es where "scan_trace (NumDigits, S) s = Some (es, (NumDigits, S))" "list_all (lit_entry (length S)) es"
      using scan_digits [OF d(4)] by blast
    ultimately show ?thesis by (rule lit_value) (simp add: ended_def)
  qed
  then show ?thesis using d(1) neq by (simp add: value_text_def)
qed

lemma value_text_zero: "value_text cp m ''0''"
  by (auto simp: value_text_def json_space_def begin_value_def ended_def entry_ok_def inner_entry_def solid_entry_def)

lemma value_text_decimal: "value_text cp m (decimal n)"
  using value_text_pos [of n] value_text_zero by (cases "n = 0") (simp_all add: decimal_zero)

lemma value_text_neg: "0 < n \<Longrightarrow> value_text cp m (CHR ''-'' # decimal n)"
proof -
  assume "0 < n"
  then obtain c s where d: "decimal n = c # s" "json_digit c" "c \<noteq> CHR ''0''" "list_all json_digit s"
    using decimal_head by blast
  have "\<exists>es st. scan_trace (BeginValue, S) (CHR ''-'' # c # s) = Some (es, (st, S)) \<and> ended (st, S) \<and>
      list_all (entry_ok cp (length S)) es" for S
  proof -
    obtain es where es: "scan_trace (NumDigits, S) s = Some (es, (NumDigits, S))" "list_all (lit_entry (length S)) es"
      using scan_digits [OF d(4)] by blast
    have "scan_step (NumNeg, S) c = Some ((NumDigits, S), ScanContinue)"
      using d(2,3) by (simp add: digit_or_def)
    from scan_trace_cons [OF this es(1)]
    have "scan_trace (NumNeg, S) (c # s) =
        Some (\<lparr>se_op = ScanContinue, se_before = length S, se_after = length S, se_char = c\<rparr> # es, (NumDigits, S))"
      by (simp only: snd_conv)
    note tr = this
    have "scan_step (BeginValue, S) CHR ''-'' = Some ((NumNeg, S), ScanBeginLiteral)"
      by (simp add: begin_value_def json_space_def)
    from lit_value [OF this tr, of cp] show ?thesis
      using es(2) by (simp add: ended_def lit_entry_def [of _ "\<lparr>se_op = _, se_before = _, se_after = _, se_char = _\<rparr>"])
  qed
  then show ?thesis using d(1) by (simp add: value_text_def json_space_def)
qed

lemma value_text_word: "w \<in> {''null'', ''true'', ''false''} \<Longrightarrow> value_text cp m w"
  by (auto simp: value_text_def json_space_def begin_value_def ended_def entry_ok_def inner_entry_def solid_entry_def json_digit_def byte_in_def)

lemma value_text_key: "plain_key k \<Longrightarrow> value_text cp m (json_key k)"
  unfolding json_key_def by (rule value_text_quoted) (rule plain_key_string)

lemma plain_b64: "plain_key (b64_encode b)"
proof -
  have "list_all (\<lambda>c. byte_in 32 127 c \<and> c \<noteq> CHR 0x22 \<and> c \<noteq> CHR 0x5C \<and> \<not> html_char c) (CHR ''='' # b64_alphabet)"
    by code_simp
  then show ?thesis
    using b64_encode_chars [of _ b] by (auto simp: plain_key_def list_all_iff)
qed

lemma tree_ok_lits [simp]:
  "tree_ok cp n (enc_str s)" "tree_ok cp n (enc_bytes b)" "tree_ok cp n (enc_int i)" "tree_ok cp n (enc_bool x)"
  by (auto simp: enc_str_def enc_bytes_def enc_int_def enc_bool_def decimal_int_def value_text_key plain_b64
      value_text_decimal value_text_neg value_text_word)

subsection \<open>Decoding what was encoded\<close>

lemma starts_simps [simp]:
  "\<not> starts c []" "starts c (d # s) \<longleftrightarrow> d = c"
  by (simp_all add: starts_def)

lemma unquote_plain: "plain_key k \<Longrightarrow> unquote_str (json_key k) = k"
proof -
  assume "plain_key k"
  then have "unquote_runes k = k"
  proof (induction k)
    case (Cons c k)
    then have "of_char c < (128::nat)" "c \<noteq> CHR 0x5C" "plain_key k"
      by (auto simp: plain_key_def byte_in_def)
    with Cons show ?case by (simp add: unquote_runes.simps(2) rune_width_ascii)
  qed simp
  then show ?thesis by (simp add: unquote_str_def json_key_def)
qed

lemma dec_enc_str: "dec_str (json_print sty d (enc_str s)) old = (map_runes (\<lambda>c. [c]) s, True)"
  by (simp add: dec_str_def enc_str_def quote_str_def flip: unquote_quote)

lemma dec_enc_str_valid [simp]: "valid_utf8 s \<Longrightarrow> dec_str (json_print sty d (enc_str s)) old = (s, True)"
  by (simp add: dec_enc_str valid_utf8_def)

lemma dec_enc_bytes [simp]: "dec_bytes (json_print sty d (enc_bytes b)) old = (b, True)"
  using unquote_plain [OF plain_b64, of b]
  by (auto simp: dec_bytes_def enc_bytes_def dec_slice_def b64.dec_enc) (simp_all add: json_key_def)

lemma json_digit_not: "json_digit c \<Longrightarrow> c \<noteq> CHR ''n'' \<and> c \<noteq> CHR ''-''"
  by (auto simp: json_digit_def byte_in_def)

lemma all_digits_starts: "all_digits s \<Longrightarrow> \<not> starts CHR ''n'' s \<and> \<not> starts CHR ''-'' s"
  by (cases s) (auto simp: all_digits_def dest: json_digit_not)

lemma parse_decimal_int:
  assumes "- (2 ^ 63) \<le> i" "i < 2 ^ 63"
  shows "parse_int64 (decimal_int i) = Some i"
proof (cases "i < 0")
  case True
  with assms have "nat (- i) \<le> 2 ^ 63" by (simp add: nat_le_iff)
  with True show ?thesis
    by (simp add: parse_int64_def decimal_int_def all_digits_decimal undecimal_decimal del: undecimal.simps)
next
  case False
  with assms have "nat i < 2 ^ 63" by (simp add: nat_less_iff)
  with False show ?thesis
    using all_digits_starts [OF all_digits_decimal]
    by (simp add: parse_int64_def decimal_int_def all_digits_decimal undecimal_decimal del: undecimal.simps)
qed

lemma decimal_int_not_null: "\<not> starts CHR ''n'' (decimal_int i)"
  using all_digits_starts [OF all_digits_decimal] by (simp add: decimal_int_def)

lemma dec_enc_int [simp]:
  "- (2 ^ 63) \<le> i \<Longrightarrow> i < 2 ^ 63 \<Longrightarrow> dec_int64 (json_print sty d (enc_int i)) old = (i, True)"
  by (simp add: dec_int64_def enc_int_def decimal_int_not_null parse_decimal_int)

lemma dec_enc_sint [simp]: "dec_sint (json_print sty d (enc_int (sint w))) old = (w, True)"
proof -
  have "- (2 ^ 63) \<le> sint w" "sint w < 2 ^ 63"
    using sint_range_size [of w] by (simp_all add: word_size)
  then show ?thesis by (simp add: dec_sint_def)
qed

lemma dec_enc_uint [simp]: "dec_uint (json_print sty d (enc_int (uint w))) old = (w, True)"
proof -
  have "decimal_int (uint w) = decimal (unat w)" by (simp add: decimal_int_def)
  then show ?thesis
    using all_digits_starts [OF all_digits_decimal, of "unat w"]
    by (simp add: dec_uint_def enc_int_def all_digits_decimal undecimal_decimal unsigned_less del: undecimal.simps)
qed

lemma dec_enc_bool [simp]: "dec_bool (json_print sty d (enc_bool b)) old = (b, True)"
  by (simp add: dec_bool_def enc_bool_def)

lemma starts_bracket [simp]: "starts c (bracket b e sty d xs) \<longleftrightarrow> c = b"
  by (cases xs) auto

lemma dec_enc_slice:
  assumes "list_all (\<lambda>x. tree_ok cp n (f x)) xs" "cp \<longrightarrow> sty = Compact" "Suc n \<le> max_nesting"
    and dec: "\<And>x. x \<in> set xs \<Longrightarrow> dec (json_print sty (Suc d) (f x)) z = (r x, True)"
  shows "dec_slice dec z (json_print sty d (enc_slice f xs)) [] = (map r xs, True)"
proof (cases xs)
  case Nil
  then show ?thesis by (simp add: enc_slice_def dec_slice_def)
next
  case Cons
  have "tree_ok cp (Suc n) (JArr (map f xs))" using assms(1) by (simp add: list_all_iff)
  from array_parts [OF this assms(2,3), of d]
  have parts: "json_parts (json_print sty d (JArr (map f xs))) = map (\<lambda>x. json_print sty (Suc d) (f x)) xs"
    by (simp add: comp_def)
  have m: "map2 dec (map (\<lambda>x. json_print sty (Suc d) (f x)) ys) (replicate (length ys) z) = map (\<lambda>x. (r x, True)) ys"
    if "set ys \<subseteq> set xs" for ys
    using that by (induction ys) (simp_all add: dec)
  have os: "take (length xs) ([] @ replicate (length xs) z) = replicate (length xs) z" by simp
  have st: "starts CHR ''['' (json_print sty d (JArr (map f xs)))" by simp
  have "dec_slice dec z (json_print sty d (JArr (map f xs))) [] = (map fst (map (\<lambda>x. (r x, True)) xs), list_all snd (map (\<lambda>x. (r x, True)) xs))"
    using m [OF subset_refl] by (simp only: dec_slice_def st if_True Let_def parts length_map os)
  then show ?thesis using Cons by (simp add: enc_slice_def list_all_iff comp_def del: json_print.simps)
qed

lemma tree_ok_slice: "list_all (\<lambda>x. tree_ok cp n (f x)) xs \<Longrightarrow> tree_ok cp (Suc n) (enc_slice f xs)"
  by (auto simp: enc_slice_def list_all_iff value_text_word)

lemma members_print:
  assumes "tree_ok cp (Suc n) (JObj ms)" "cp \<longrightarrow> sty = Compact" "Suc n \<le> max_nesting"
  shows "object_members (json_print sty d (JObj ms)) = map (\<lambda>(k, t). (k, json_print sty (Suc d) t)) ms"
proof -
  have "\<forall>(k, t) \<in> set ms. plain_key k" using assms(1) by (auto simp: list_all_iff)
  then show ?thesis
    unfolding object_members_def object_parts [OF assms] map_map
    by (intro map_cong) (auto simp: unquote_plain)
qed

lemma dec_struct_print:
  assumes "tree_ok cp (Suc n) (JObj ms)" "cp \<longrightarrow> sty = Compact" "Suc n \<le> max_nesting"
  shows "dec_struct f (json_print sty d (JObj ms)) old = f (map (\<lambda>(k, t). (k, json_print sty (Suc d) t)) ms) old"
  using members_print [OF assms, of d] by (simp add: dec_struct_def)

text \<open>Looking a field up among the members that were printed.\<close>

lemma field_texts_append [simp]: "field_texts name (a @ b) = field_texts name a @ field_texts name b"
  by (simp add: field_texts_def)

lemma field_texts_Nil [simp]: "field_texts name [] = []"
  by (simp add: field_texts_def)

lemma field_texts_Cons [simp]:
  "field_texts name ((k, v) # ms) = (if fold_key k = fold_key name then v # field_texts name ms else field_texts name ms)"
  by (simp add: field_texts_def)

lemma dec_all_simps [simp]:
  "dec_all d [] old = (old, True)" "dec_all d [v] old = d v old"
  by (simp_all add: dec_all_def split: prod.split)

lemma field_texts_if [simp]:
  "field_texts name (if p then [(k, v)] else []) = (if p \<and> fold_key k = fold_key name then [v] else [])"
  by simp

lemma dec_all_opt [simp]:
  "d v old = (x, True) \<Longrightarrow> (\<not> p \<Longrightarrow> x = old) \<Longrightarrow> dec_all d (if p then [v] else []) old = (x, True)"
  by simp

lemma map_opt_member [simp]: "map g (opt_member p k t) = (if p then [g (k, t)] else [])"
  by (simp add: opt_member_def)

lemma list_all_opt_member [simp]: "list_all P (opt_member p k t) \<longleftrightarrow> (p \<longrightarrow> P (k, t))"
  by (simp add: opt_member_def)

subsection \<open>Whole texts\<close>

text \<open>The words that are still to come never hold a blank.\<close>

fun blank_free :: "scan_state \<Rightarrow> bool" where
  "blank_free (InWord w) \<longleftrightarrow> list_all (\<lambda>c. \<not> json_space c) w"
| "blank_free _ \<longleftrightarrow> True"

lemma blank_free_end: "end_value S c = Some (st', v) \<Longrightarrow> blank_free (fst st')"
  by (auto simp: end_value_def pop_state_def split: list.splits if_splits parse_state.splits)

lemma blank_free_begin: "begin_value b S c = Some (st', v) \<Longrightarrow> blank_free b \<Longrightarrow> blank_free (fst st')"
  by (auto simp: begin_value_def push_state_def json_space_def split: if_splits)

lemma blank_free_step: "scan_step (b, S) c = Some (st', v) \<Longrightarrow> blank_free b \<Longrightarrow> blank_free (fst st')"
  by (cases b)
    (auto simp: begin_string_def digit_or_def after_zero_def blank_free_end
      split: if_splits nat.splits list.splits intro: blank_free_end blank_free_begin)

lemma blank_free_trace: "scan_trace (b, S) s = Some (es, st') \<Longrightarrow> blank_free b \<Longrightarrow> blank_free (fst st')"
proof (induction s arbitrary: b S es)
  case (Cons c s)
  from Cons.prems(1) obtain b1 S1 v es1 where "scan_step (b, S) c = Some ((b1, S1), v)" "scan_trace (b1, S1) s = Some (es1, st')"
    by (auto simp del: scan_step.simps split: option.splits)
  with Cons.IH [of b1 S1 es1] blank_free_step [of b S c "(b1, S1)" v] Cons.prems(2) show ?case by simp
qed auto

lemma scan_step_space:
  assumes s: "scan_step (b, S) c = Some (st', v)" and c: "json_space c" and bf: "blank_free b"
  shows "(v = ScanSkipSpace \<or> v = ScanEnd) \<and> snd st' = S \<or> fst st' = InString"
proof -
  have n: "\<not> json_digit c" "\<not> hex_digit c" "c \<noteq> CHR '']''" "c \<noteq> CHR ''}''" "c \<noteq> CHR ''.''" "c \<noteq> CHR ''e''" "c \<noteq> CHR ''E''"
    "c \<noteq> CHR ''0''" "c \<noteq> CHR ''u''" "c \<noteq> CHR ''+''" "c \<noteq> CHR ''-''" "c \<noteq> CHR 0x22" "c \<noteq> CHR 0x5C"
    "c \<notin> set (CHR 0x5C # CHR 0x22 # ''bfnrt/'')"
    using c by (auto simp: json_space_def json_digit_def byte_in_def hex_digit_def hex_value_def)
  have e: "end_value S c = Some (st', v) \<Longrightarrow> (v = ScanSkipSpace \<or> v = ScanEnd) \<and> snd st' = S"
    using c by (auto simp: end_value_def split: list.splits)
  have r: "begin_value x S c = Some ((x, S), ScanSkipSpace)" "begin_string x S c = Some ((x, S), ScanSkipSpace)"
    "digit_or x S c d = d" "after_zero S c = end_value S c" for x d
    using c n by (simp_all add: begin_value_def begin_string_def digit_or_def after_zero_def)
  have i: "scan_step (InWord w, S) c = None" if "blank_free (InWord w)" for w
    using that c by (cases w) auto
  show ?thesis
  proof (cases b)
    case (InWord x)
    with s bf i [of x] show ?thesis by (simp del: scan_step.simps)
  next
    case InString
    with s n show ?thesis by (auto split: if_splits)
  next
    case InStringEsc
    with s n show ?thesis by (simp del: set_simps)
  qed (insert s n r e c, simp_all split: if_splits, auto)
qed

lemma value_text_last:
  assumes "value_text cp n v" "n \<le> max_nesting"
  shows "\<not> json_space (last v)"
proof
  assume sp: "json_space (last v)"
  have "v \<noteq> []" using assms(1) by (simp add: value_text_def)
  then obtain u where u: "v = u @ [last v]" by (metis append_butlast_last_id)
  from assms(2) have "length [] + n \<le> max_nesting" by simp
  from value_textD [OF assms(1) this] obtain es st where es:
    "scan_trace (BeginValue, []) v = Some (es, (st, []))" "ended (st, [])" "list_all (entry_ok cp 0) es"
    by (metis list.size(3))
  from es(1) obtain es1 st1 w where 1: "scan_trace (BeginValue, []) u = Some (es1, st1)"
    "scan_step st1 (last v) = Some ((st, []), w)"
    "es = es1 @ [\<lparr>se_op = w, se_before = length (snd st1), se_after = 0, se_char = last v\<rparr>]"
    by (subst (asm) u) (auto simp: scan_trace_append simp del: scan_step.simps split: option.splits)
  obtain b S where st1: "st1 = (b, S)" by fastforce
  have "blank_free b" using blank_free_trace [OF 1(1)] st1 by simp
  from scan_step_space [OF 1(2) [unfolded st1] sp this] es(2) have "w = ScanSkipSpace \<or> w = ScanEnd" "snd st1 = []"
    by (auto simp: ended_def st1)
  with 1(3) es(3) show False by (auto simp: entry_ok_def inner_entry_def)
qed

lemma strip_blank_value: "value_text cp n v \<Longrightarrow> n \<le> max_nesting \<Longrightarrow> strip_blank v = v"
proof -
  assume v: "value_text cp n v" "n \<le> max_nesting"
  then have "v \<noteq> []" "\<not> json_space (hd v)" "\<not> json_space (last v)"
    using value_text_last [OF v] by (auto simp: value_text_def)
  then have "dropWhile json_space v = v" "dropWhile json_space (rev v) = rev v"
    by (cases v; simp) (cases v rule: rev_cases; use \<open>\<not> json_space (last v)\<close> in simp)
  then show ?thesis by (simp add: strip_blank_def)
qed

lemma unmarshal_text:
  "value_text cp n (string_of b) \<Longrightarrow> n \<le> max_nesting \<Longrightarrow> json_unmarshal dec z b = dec (string_of b) z"
  by (simp add: json_unmarshal_def value_text_valid strip_blank_value)

lemma unmarshal_print:
  assumes "tree_ok cp n t" "cp \<longrightarrow> sty = Compact" "n \<le> max_nesting"
  shows "json_unmarshal dec z (bytes_of (json_print sty 0 t)) = dec (json_print sty 0 t) z"
  using unmarshal_text [of cp n "bytes_of (json_print sty 0 t)"] print_value [OF assms(1,2), of 0] assms(3) by simp

subsection \<open>Compaction\<close>

lemma compact_value:
  assumes "value_text True n v" "stable v" "n \<le> max_nesting"
  shows "json_compact v = Some v"
proof -
  from assms(3) have "length [] + n \<le> max_nesting" by simp
  from value_textD [OF assms(1) this] obtain es st where es:
    "scan_trace (BeginValue, []) v = Some (es, (st, []))" "ended (st, [])" "list_all (entry_ok True 0) es" "map se_char es = v"
    by (metis list.size(3))
  have "list_all solid_entry es"
    using es(3) by (rule list.pred_mono_strong) (simp add: entry_ok_def)
  then have "compact_from 0 (es @ []) = v @ compact_from 0 []"
    using assms(2) es(4) unfolding stable_def by blast
  then show ?thesis
    using es(1,2) by (simp add: json_compact_def scan_text_def ended_eof)
qed

fun tree_stable :: "jtree \<Rightarrow> bool" where
  "tree_stable (JLit v) = stable v"
| "tree_stable (JArr ts) = list_all tree_stable ts"
| "tree_stable (JObj ms) = list_all (\<lambda>(k, t). plain_key k \<and> tree_stable t) ms"

lemma stable_plain: "list_all (\<lambda>c. of_char c < (128::nat) \<and> \<not> html_char c) a \<Longrightarrow> stable a"
  by (rule stable_chars) (auto simp: list_all_iff)

lemma stable_key: "plain_key k \<Longrightarrow> stable (json_key k)"
proof -
  assume k: "plain_key k"
  have "of_char c < (128::nat) \<and> \<not> html_char c" if "c \<in> set k" for c
    using k that unfolding plain_key_def list_all_iff byte_in_def by fastforce
  moreover have "of_char CHR 0x22 < (128::nat)" "\<not> html_char CHR 0x22" by (simp_all add: html_char_def)
  ultimately show ?thesis by (intro stable_plain) (simp add: json_key_def list_all_iff)
qed

lemma stable_comma: "list_all stable xs \<Longrightarrow> stable (concat (map (\<lambda>y. CHR '','' # y) xs))"
proof (induction xs)
  case (Cons x xs)
  have "stable [CHR '','']" by (simp add: stable_char html_char_def)
  with Cons have "stable ([CHR '',''] @ x @ concat (map (\<lambda>y. CHR '','' # y) xs))"
    by (intro stable_append) simp_all
  then show ?case by simp
qed simp

lemma stable_bracket:
  assumes "stable [b]" "stable [e]" "list_all stable xs"
  shows "stable (bracket b e Compact d xs)"
proof (cases xs)
  case Nil
  then show ?thesis using stable_append [OF assms(1,2)] by simp
next
  case (Cons x xs')
  then have "stable ([b] @ x @ concat (map (\<lambda>y. CHR '','' # y) xs') @ [e])"
    using assms by (intro stable_append stable_comma) simp_all
  with Cons show ?thesis by simp
qed

lemma stable_print: "tree_stable t \<Longrightarrow> stable (json_print Compact d t)"
proof (induction t arbitrary: d rule: tree_stable.induct)
  case (2 ts)
  then show ?case
    by (auto simp: list_all_iff html_char_def intro!: stable_bracket stable_char)
next
  case (3 ms)
  have "stable (json_key k @ [CHR '':''] @ json_print Compact (Suc d) t)" if "(k, t) \<in> set ms" for k t
    using that 3 by (intro stable_append stable_key) (fastforce simp: list_all_iff stable_char html_char_def)+
  then show ?case
    by (auto simp: list_all_iff html_char_def intro!: stable_bracket stable_char)
qed simp

lemma stable_decimal: "stable (decimal n)"
  using decimal_digits [of _ n]
  by (intro stable_plain) (fastforce simp: list_all_iff html_char_def)

lemma tree_stable_lits [simp]:
  "tree_stable (enc_str s)" "tree_stable (enc_bytes b)" "tree_stable (enc_int i)" "tree_stable (enc_bool x)"
proof -
  have q: "stable [CHR 0x22]" "stable [CHR ''-'']" by (simp_all add: stable_char html_char_def)
  then have "stable ([CHR 0x22] @ quote_runes s @ [CHR 0x22])" by (intro stable_append stable_quote)
  then show "tree_stable (enc_str s)" by (simp add: enc_str_def quote_str_def)
  show "tree_stable (enc_bytes b)"
    using stable_key [OF plain_b64] by (auto simp: enc_bytes_def html_char_def intro!: stable_plain)
  show "tree_stable (enc_int i)"
    using stable_append [OF q(2) stable_decimal] stable_decimal by (simp add: enc_int_def decimal_int_def)
  show "tree_stable (enc_bool x)"
    by (auto simp: enc_bool_def html_char_def intro!: stable_plain)
qed

lemma tree_stable_slice: "list_all (\<lambda>x. tree_stable (f x)) xs \<Longrightarrow> tree_stable (enc_slice f xs)"
  by (auto simp: enc_slice_def list_all_iff html_char_def intro!: stable_plain)

end
