(* ===== verification/Wire_JSON.thy ===== *)
theory Wire_JSON
  imports Handshake JSON_Decode
begin

section \<open>The JSON texts of the wire protocol (the tags of \<open>hub/wire.go\<close> and \<open>hub/envelope.go\<close>)\<close>

text \<open>
  Every struct that travels between hubs and spokes, with the member names, order and
  \<open>omitempty\<close> of its tags: its tree for \<open>Marshal\<close> and its decoder for \<open>Unmarshal\<close>. Together they
  are \<open>go_json\<close>, the concrete \<open>json_lib\<close> of the program. The theorems discharge what the other
  theories ask of a \<open>json_lib\<close>: messages and bodies read back as what was written, provided the
  strings are valid UTF-8, and what happens when one is not.
\<close>

lemma fold_names [simp]:
  "fold_key ''type'' = ''TYPE''" "fold_key ''body'' = ''BODY''" "fold_key ''role'' = ''ROLE''"
  "fold_key ''ed25519'' = ''ED25519''" "fold_key ''x25519'' = ''X25519''" "fold_key ''name'' = ''NAME''"
  "fold_key ''ts'' = ''TS''" "fold_key ''cloud_seed'' = ''CLOUD_SEED''" "fold_key ''listen_ipv6'' = ''LISTEN_IPV6''"
  "fold_key ''listen_ipv4'' = ''LISTEN_IPV4''" "fold_key ''listen_port'' = ''LISTEN_PORT''" "fold_key ''sig'' = ''SIG''"
  "fold_key ''observed_ip'' = ''OBSERVED_IP''" "fold_key ''pubkeys'' = ''PUBKEYS''" "fold_key ''hub'' = ''HUB''"
  "fold_key ''entries'' = ''ENTRIES''" "fold_key ''seq'' = ''SEQ''" "fold_key ''bloom'' = ''BLOOM''"
  "fold_key ''pub'' = ''PUB''" "fold_key ''t'' = ''T''" "fold_key ''id'' = ''ID''" "fold_key ''from'' = ''FROM''"
  "fold_key ''to'' = ''TO''" "fold_key ''ciphertext'' = ''CIPHERTEXT''" "fold_key ''text'' = ''TEXT''"
  "fold_key ''items'' = ''ITEMS''" "fold_key ''env'' = ''ENV''" "fold_key ''ed25519_private'' = ''ED25519_PRIVATE''"
  "fold_key ''ed25519_public'' = ''ED25519_PUBLIC''" "fold_key ''x25519_private'' = ''X25519_PRIVATE''"
  "fold_key ''x25519_public'' = ''X25519_PUBLIC''"
  by code_simp+

lemma plain_names [simp]:
  "plain_key ''type''" "plain_key ''body''" "plain_key ''role''" "plain_key ''ed25519''" "plain_key ''x25519''"
  "plain_key ''name''" "plain_key ''ts''" "plain_key ''cloud_seed''" "plain_key ''listen_ipv6''"
  "plain_key ''listen_ipv4''" "plain_key ''listen_port''" "plain_key ''sig''" "plain_key ''observed_ip''"
  "plain_key ''pubkeys''" "plain_key ''hub''" "plain_key ''entries''" "plain_key ''seq''" "plain_key ''bloom''"
  "plain_key ''pub''" "plain_key ''t''" "plain_key ''id''" "plain_key ''from''" "plain_key ''to''"
  "plain_key ''ciphertext''" "plain_key ''text''" "plain_key ''items''" "plain_key ''env''"
  "plain_key ''ed25519_private''" "plain_key ''ed25519_public''" "plain_key ''x25519_private''" "plain_key ''x25519_public''"
  by code_simp+

subsection \<open>Message\<close>

definition message_tree :: "string \<Rightarrow> message \<Rightarrow> jtree" where
  "message_tree body m = JObj [(''type'', enc_str (msg_type m)), (''body'', JLit body)]"

definition enc_message :: "message \<Rightarrow> bytes option" where
  "enc_message m =
     map_option (\<lambda>body. json_marshal (message_tree body m))
       (if msg_body m = [] then Some ''null'' else json_compact (string_of (msg_body m)))"

definition dec_message :: "members \<Rightarrow> message \<Rightarrow> message \<times> bool" where
  "dec_message ms old =
     (let (t, ok1) = field dec_str ''type'' ms (msg_type old);
          (b, ok2) = field dec_raw ''body'' ms (msg_body old)
      in (\<lparr>msg_type = t, msg_body = b\<rparr>, ok1 \<and> ok2))"

definition zero_message :: message where "zero_message = \<lparr>msg_type = [], msg_body = []\<rparr>"

subsection \<open>Hello and HelloOK\<close>

definition hello_tree :: "hello \<Rightarrow> jtree" where
  "hello_tree h = JObj
     ([(''role'', enc_str (hel_role h)), (''ed25519'', enc_bytes (hel_ed h)), (''x25519'', enc_bytes (hel_x h))] @
      opt_member (hel_name h \<noteq> []) ''name'' (enc_str (hel_name h)) @
      [(''ts'', enc_int (sint (hel_ts h)))] @
      opt_member (hel_cloud h) ''cloud_seed'' (enc_bool (hel_cloud h)) @
      opt_member (hel_v6 h \<noteq> []) ''listen_ipv6'' (enc_str (hel_v6 h)) @
      opt_member (hel_v4 h \<noteq> []) ''listen_ipv4'' (enc_str (hel_v4 h)) @
      opt_member (hel_port h \<noteq> 0) ''listen_port'' (enc_int (uint (hel_port h))) @
      [(''sig'', enc_bytes (hel_sig h))])"

definition dec_hello :: "members \<Rightarrow> hello \<Rightarrow> hello \<times> bool" where
  "dec_hello ms old =
     (let (role, k1) = field dec_str ''role'' ms (hel_role old);
          (ed, k2) = field dec_bytes ''ed25519'' ms (hel_ed old);
          (x, k3) = field dec_bytes ''x25519'' ms (hel_x old);
          (name, k4) = field dec_str ''name'' ms (hel_name old);
          (ts, k5) = field dec_sint ''ts'' ms (hel_ts old);
          (cloud, k6) = field dec_bool ''cloud_seed'' ms (hel_cloud old);
          (v6, k7) = field dec_str ''listen_ipv6'' ms (hel_v6 old);
          (v4, k8) = field dec_str ''listen_ipv4'' ms (hel_v4 old);
          (port, k9) = field dec_uint ''listen_port'' ms (hel_port old);
          (sig, k10) = field dec_bytes ''sig'' ms (hel_sig old)
      in (\<lparr>hel_role = role, hel_ed = ed, hel_x = x, hel_name = name, hel_ts = ts, hel_cloud = cloud, hel_v6 = v6,
           hel_v4 = v4, hel_port = port, hel_sig = sig\<rparr>,
          k1 \<and> k2 \<and> k3 \<and> k4 \<and> k5 \<and> k6 \<and> k7 \<and> k8 \<and> k9 \<and> k10))"

definition zero_hello :: hello where
  "zero_hello = \<lparr>hel_role = [], hel_ed = [], hel_x = [], hel_name = [], hel_ts = 0, hel_cloud = False, hel_v6 = [],
     hel_v4 = [], hel_port = 0, hel_sig = []\<rparr>"

definition hello_ok_tree :: "hello_ok \<Rightarrow> jtree" where
  "hello_ok_tree h = JObj
     ([(''ed25519'', enc_bytes (hok_ed h)), (''x25519'', enc_bytes (hok_x h))] @
      opt_member (hok_name h \<noteq> []) ''name'' (enc_str (hok_name h)) @
      opt_member (hok_observed h \<noteq> []) ''observed_ip'' (enc_str (hok_observed h)) @
      [(''ts'', enc_int (sint (hok_ts h))), (''sig'', enc_bytes (hok_sig h))] @
      opt_member (hok_cloud h) ''cloud_seed'' (enc_bool (hok_cloud h)))"

definition dec_hello_ok :: "members \<Rightarrow> hello_ok \<Rightarrow> hello_ok \<times> bool" where
  "dec_hello_ok ms old =
     (let (ed, k1) = field dec_bytes ''ed25519'' ms (hok_ed old);
          (x, k2) = field dec_bytes ''x25519'' ms (hok_x old);
          (name, k3) = field dec_str ''name'' ms (hok_name old);
          (observed, k4) = field dec_str ''observed_ip'' ms (hok_observed old);
          (ts, k5) = field dec_sint ''ts'' ms (hok_ts old);
          (sig, k6) = field dec_bytes ''sig'' ms (hok_sig old);
          (cloud, k7) = field dec_bool ''cloud_seed'' ms (hok_cloud old)
      in (\<lparr>hok_ed = ed, hok_x = x, hok_name = name, hok_observed = observed, hok_ts = ts, hok_sig = sig,
           hok_cloud = cloud\<rparr>,
          k1 \<and> k2 \<and> k3 \<and> k4 \<and> k5 \<and> k6 \<and> k7))"

definition zero_hello_ok :: hello_ok where
  "zero_hello_ok = \<lparr>hok_ed = [], hok_x = [], hok_name = [], hok_observed = [], hok_ts = 0, hok_sig = [],
     hok_cloud = False\<rparr>"

subsection \<open>Presence, gossip, ping, envelope\<close>

definition presence_tree :: "presence \<Rightarrow> jtree" where
  "presence_tree p = JObj
     ([(''pubkeys'', enc_slice enc_bytes (pre_pubs p))] @
      opt_member (pre_x p \<noteq> []) ''x25519'' (enc_bytes (pre_x p)) @
      opt_member (pre_name p \<noteq> []) ''name'' (enc_str (pre_name p)))"

definition dec_presence :: "members \<Rightarrow> presence \<Rightarrow> presence \<times> bool" where
  "dec_presence ms old =
     (let (pubs, k1) = field (dec_slice dec_bytes []) ''pubkeys'' ms (pre_pubs old);
          (x, k2) = field dec_bytes ''x25519'' ms (pre_x old);
          (name, k3) = field dec_str ''name'' ms (pre_name old)
      in (\<lparr>pre_pubs = pubs, pre_x = x, pre_name = name\<rparr>, k1 \<and> k2 \<and> k3))"

definition zero_presence :: presence where "zero_presence = \<lparr>pre_pubs = [], pre_x = [], pre_name = []\<rparr>"

definition gossip_entry_tree :: "gossip_entry \<Rightarrow> jtree" where
  "gossip_entry_tree g = JObj
     ([(''pub'', enc_bytes (ge_pub g))] @
      opt_member (ge_x g \<noteq> []) ''x25519'' (enc_bytes (ge_x g)) @
      opt_member (ge_name g \<noteq> []) ''name'' (enc_str (ge_name g)))"

definition dec_gossip_entry :: "members \<Rightarrow> gossip_entry \<Rightarrow> gossip_entry \<times> bool" where
  "dec_gossip_entry ms old =
     (let (pub, k1) = field dec_bytes ''pub'' ms (ge_pub old);
          (x, k2) = field dec_bytes ''x25519'' ms (ge_x old);
          (name, k3) = field dec_str ''name'' ms (ge_name old)
      in (\<lparr>ge_pub = pub, ge_x = x, ge_name = name\<rparr>, k1 \<and> k2 \<and> k3))"

definition zero_gossip_entry :: gossip_entry where "zero_gossip_entry = \<lparr>ge_pub = [], ge_x = [], ge_name = []\<rparr>"

definition gossip_tree :: "presence_gossip \<Rightarrow> jtree" where
  "gossip_tree g = JObj
     ([(''hub'', enc_bytes (pg_hub g)), (''entries'', enc_slice gossip_entry_tree (pg_entries g)),
       (''seq'', enc_int (uint (pg_seq g)))] @
      opt_member (pg_bloom g \<noteq> []) ''bloom'' (enc_bytes (pg_bloom g)) @
      opt_member (pg_sig g \<noteq> []) ''sig'' (enc_bytes (pg_sig g)))"

definition dec_gossip :: "members \<Rightarrow> presence_gossip \<Rightarrow> presence_gossip \<times> bool" where
  "dec_gossip ms old =
     (let (hub, k1) = field dec_bytes ''hub'' ms (pg_hub old);
          (entries, k2) = field (dec_slice (dec_struct dec_gossip_entry) zero_gossip_entry) ''entries'' ms (pg_entries old);
          (seq, k3) = field dec_uint ''seq'' ms (pg_seq old);
          (bloom, k4) = field dec_bytes ''bloom'' ms (pg_bloom old);
          (sig, k5) = field dec_bytes ''sig'' ms (pg_sig old)
      in (\<lparr>pg_hub = hub, pg_entries = entries, pg_seq = seq, pg_bloom = bloom, pg_sig = sig\<rparr>,
          k1 \<and> k2 \<and> k3 \<and> k4 \<and> k5))"

definition zero_gossip :: presence_gossip where
  "zero_gossip = \<lparr>pg_hub = [], pg_entries = [], pg_seq = 0, pg_bloom = [], pg_sig = []\<rparr>"

definition ping_tree :: "int \<Rightarrow> jtree" where
  "ping_tree t = JObj [(''t'', enc_int t)]"

definition dec_ping :: "members \<Rightarrow> int \<Rightarrow> int \<times> bool" where
  "dec_ping ms old = field dec_int64 ''t'' ms old"

definition envelope_tree :: "envelope \<Rightarrow> jtree" where
  "envelope_tree e = JObj
     [(''id'', enc_str (env_id e)), (''from'', enc_bytes (env_from e)), (''to'', enc_bytes (env_to e)),
      (''ts'', enc_int (sint (env_ts e))), (''type'', enc_str (env_type e)), (''sig'', enc_bytes (env_sig e)),
      (''ciphertext'', enc_bytes (env_ciphertext e))]"

definition dec_envelope :: "members \<Rightarrow> envelope \<Rightarrow> envelope \<times> bool" where
  "dec_envelope ms old =
     (let (i, k1) = field dec_str ''id'' ms (env_id old);
          (frm, k2) = field dec_bytes ''from'' ms (env_from old);
          (to, k3) = field dec_bytes ''to'' ms (env_to old);
          (ts, k4) = field dec_sint ''ts'' ms (env_ts old);
          (typ, k5) = field dec_str ''type'' ms (env_type old);
          (sig, k6) = field dec_bytes ''sig'' ms (env_sig old);
          (ct, k7) = field dec_bytes ''ciphertext'' ms (env_ciphertext old)
      in (\<lparr>env_id = i, env_from = frm, env_to = to, env_ts = ts, env_type = typ, env_sig = sig,
           env_ciphertext = ct\<rparr>,
          k1 \<and> k2 \<and> k3 \<and> k4 \<and> k5 \<and> k6 \<and> k7))"

definition zero_envelope :: envelope where
  "zero_envelope = \<lparr>env_id = [], env_from = [], env_to = [], env_ts = 0, env_type = [], env_sig = [],
     env_ciphertext = []\<rparr>"

subsection \<open>The library as the program uses it\<close>

definition go_json :: json_lib where
  "go_json =
     \<lparr>js_message = enc_message,
      un_message = json_unmarshal_ok (dec_struct dec_message) zero_message,
      js_hello = (\<lambda>h. json_marshal (hello_tree h)),
      un_hello = json_unmarshal_ok (dec_struct dec_hello) zero_hello,
      js_hello_ok = (\<lambda>h. json_marshal (hello_ok_tree h)),
      un_hello_ok = json_unmarshal_ok (dec_struct dec_hello_ok) zero_hello_ok,
      js_envelope = (\<lambda>e. json_marshal (envelope_tree e)),
      un_envelope = json_unmarshal_ok (dec_struct dec_envelope) zero_envelope,
      js_presence = (\<lambda>p. json_marshal (presence_tree p)),
      un_presence = json_unmarshal_ok (dec_struct dec_presence) zero_presence,
      js_gossip = (\<lambda>g. json_marshal (gossip_tree g)),
      un_gossip = json_unmarshal_ok (dec_struct dec_gossip) zero_gossip,
      js_ping = (\<lambda>t. json_marshal (ping_tree t)),
      un_ping = (\<lambda>b. fst (json_unmarshal (dec_struct dec_ping) 0 b))\<rparr>"

lemma go_json_sel [simp]:
  "js_message go_json = enc_message"
  "un_message go_json = json_unmarshal_ok (dec_struct dec_message) zero_message"
  "js_hello go_json h = json_marshal (hello_tree h)"
  "un_hello go_json = json_unmarshal_ok (dec_struct dec_hello) zero_hello"
  "js_hello_ok go_json k = json_marshal (hello_ok_tree k)"
  "un_hello_ok go_json = json_unmarshal_ok (dec_struct dec_hello_ok) zero_hello_ok"
  "js_envelope go_json e = json_marshal (envelope_tree e)"
  "un_envelope go_json = json_unmarshal_ok (dec_struct dec_envelope) zero_envelope"
  "js_presence go_json p = json_marshal (presence_tree p)"
  "un_presence go_json = json_unmarshal_ok (dec_struct dec_presence) zero_presence"
  "js_gossip go_json g = json_marshal (gossip_tree g)"
  "un_gossip go_json = json_unmarshal_ok (dec_struct dec_gossip) zero_gossip"
  "js_ping go_json t = json_marshal (ping_tree t)"
  "un_ping go_json b = fst (json_unmarshal (dec_struct dec_ping) 0 b)"
  by (simp_all add: go_json_def)

subsection \<open>Round trips\<close>

text \<open>Trees of structs: printable in a message, and left alone by compaction.\<close>

definition wire_tree :: "jtree \<Rightarrow> bool" where
  "wire_tree t \<longleftrightarrow> tree_ok True 3 t \<and> tree_stable t"

lemma numeral_3: "(3::nat) = Suc (Suc (Suc 0))" by simp

lemma entries_ok:
  "tree_ok cp (Suc n) (gossip_entry_tree g)" "tree_stable (gossip_entry_tree g)"
  by (simp_all add: gossip_entry_tree_def)

lemma slices_ok:
  "tree_ok cp (Suc n) (enc_slice enc_bytes bs)" "tree_stable (enc_slice enc_bytes bs)"
  "tree_ok cp (Suc (Suc n)) (enc_slice gossip_entry_tree gs)" "tree_stable (enc_slice gossip_entry_tree gs)"
  by (rule tree_ok_slice tree_stable_slice; simp add: list_all_iff entries_ok)+

lemma wire_trees [simp]:
  "wire_tree (hello_tree h)" "wire_tree (hello_ok_tree k)" "wire_tree (presence_tree p)" "wire_tree (gossip_tree g)"
  "wire_tree (ping_tree t)" "wire_tree (envelope_tree e)"
  by (simp_all add: wire_tree_def hello_tree_def hello_ok_tree_def presence_tree_def gossip_tree_def ping_tree_def
      envelope_tree_def numeral_3 slices_ok)

lemma unmarshal_tree_marshal:
  assumes "tree_ok True n (JObj ms)" "n \<le> max_nesting"
  shows "json_unmarshal (dec_struct f) z (json_marshal (JObj ms)) = f (map (\<lambda>(k, t). (k, json_print Compact 1 t)) ms) z"
proof -
  obtain m where n: "n = Suc m" using assms(1) by (cases n) auto
  have "json_unmarshal (dec_struct f) z (json_marshal (JObj ms)) = dec_struct f (json_print Compact 0 (JObj ms)) z"
    unfolding json_marshal_def by (rule unmarshal_print [OF assms(1) _ assms(2)]) simp
  also have "\<dots> = f (map (\<lambda>(k, t). (k, json_print Compact (Suc 0) t)) ms) z"
    by (rule dec_struct_print [OF assms(1) [unfolded n] _ assms(2) [unfolded n]]) simp
  finally show ?thesis by simp
qed

lemma wire_valid: "wire_tree (JObj ms) \<Longrightarrow> tree_ok True 3 (JObj ms)"
  by (simp add: wire_tree_def)

lemma three_max: "3 \<le> max_nesting" "Suc (Suc (Suc 0)) \<le> max_nesting" "Suc (Suc 0) \<le> max_nesting" "Suc 0 \<le> max_nesting"
  by (simp_all add: max_nesting_def)

lemma unmarshal_wire:
  "wire_tree (JObj ms) \<Longrightarrow>
     json_unmarshal (dec_struct f) z (json_marshal (JObj ms)) = f (map (\<lambda>(k, t). (k, json_print Compact 1 t)) ms) z"
  by (rule unmarshal_tree_marshal [OF wire_valid three_max(1)])

text \<open>Every body type reads back; strings come back with their invalid bytes replaced.\<close>

abbreviation repair :: "string \<Rightarrow> string" where
  "repair \<equiv> map_runes (\<lambda>c. [c])"

lemma un_js_hello:
  "un_hello go_json (js_hello go_json h) =
     Some (h\<lparr>hel_role := repair (hel_role h), hel_name := repair (hel_name h), hel_v6 := repair (hel_v6 h),
             hel_v4 := repair (hel_v4 h)\<rparr>)"
proof -
  have "json_unmarshal (dec_struct dec_hello) zero_hello (json_marshal (hello_tree h)) =
      (h\<lparr>hel_role := repair (hel_role h), hel_name := repair (hel_name h), hel_v6 := repair (hel_v6 h),
         hel_v4 := repair (hel_v4 h)\<rparr>, True)"
    using unmarshal_wire [OF wire_trees(1) [unfolded hello_tree_def], of dec_hello zero_hello h]
    by (simp add: hello_tree_def dec_hello_def zero_hello_def field_def dec_enc_str)
  then show ?thesis by (simp add: json_unmarshal_ok_def)
qed

lemma un_js_hello_ok:
  "un_hello_ok go_json (js_hello_ok go_json h) =
     Some (h\<lparr>hok_name := repair (hok_name h), hok_observed := repair (hok_observed h)\<rparr>)"
proof -
  have "json_unmarshal (dec_struct dec_hello_ok) zero_hello_ok (json_marshal (hello_ok_tree h)) =
      (h\<lparr>hok_name := repair (hok_name h), hok_observed := repair (hok_observed h)\<rparr>, True)"
    using unmarshal_wire [OF wire_trees(2) [unfolded hello_ok_tree_def], of dec_hello_ok zero_hello_ok h]
    by (simp add: hello_ok_tree_def dec_hello_ok_def zero_hello_ok_def field_def dec_enc_str)
  then show ?thesis by (simp add: json_unmarshal_ok_def)
qed

lemma un_js_envelope:
  "un_envelope go_json (js_envelope go_json e) =
     Some (e\<lparr>env_id := repair (env_id e), env_type := repair (env_type e)\<rparr>)"
proof -
  have "json_unmarshal (dec_struct dec_envelope) zero_envelope (json_marshal (envelope_tree e)) =
      (e\<lparr>env_id := repair (env_id e), env_type := repair (env_type e)\<rparr>, True)"
    using unmarshal_wire [OF wire_trees(6) [unfolded envelope_tree_def], of dec_envelope zero_envelope e]
    by (simp add: envelope_tree_def dec_envelope_def zero_envelope_def field_def dec_enc_str)
  then show ?thesis by (simp add: json_unmarshal_ok_def)
qed

lemma dec_pubs:
  "dec_slice dec_bytes [] (json_print Compact d (enc_slice enc_bytes bs)) [] = (bs, True)"
  using dec_enc_slice [of True 1 enc_bytes bs Compact dec_bytes d "[]" "\<lambda>x. x"]
  by (simp add: list_all_iff three_max)

lemma un_js_presence:
  "un_presence go_json (js_presence go_json p) = Some (p\<lparr>pre_name := repair (pre_name p)\<rparr>)"
proof -
  have "json_unmarshal (dec_struct dec_presence) zero_presence (json_marshal (presence_tree p)) =
      (p\<lparr>pre_name := repair (pre_name p)\<rparr>, True)"
    using unmarshal_wire [OF wire_trees(3) [unfolded presence_tree_def], of dec_presence zero_presence p]
    by (simp add: presence_tree_def dec_presence_def zero_presence_def field_def dec_enc_str dec_pubs)
  then show ?thesis by (simp add: json_unmarshal_ok_def)
qed

lemma dec_entry:
  "dec_struct dec_gossip_entry (json_print Compact d (gossip_entry_tree g)) zero_gossip_entry =
     (g\<lparr>ge_name := repair (ge_name g)\<rparr>, True)"
  using dec_struct_print [OF entries_ok(1) [of True 0 g, unfolded gossip_entry_tree_def], of Compact dec_gossip_entry d zero_gossip_entry]
  by (simp add: gossip_entry_tree_def dec_gossip_entry_def zero_gossip_entry_def field_def dec_enc_str three_max
      del: json_print.simps)

lemma dec_entries:
  "dec_slice (dec_struct dec_gossip_entry) zero_gossip_entry (json_print Compact d (enc_slice gossip_entry_tree gs)) [] =
     (map (\<lambda>g. g\<lparr>ge_name := repair (ge_name g)\<rparr>) gs, True)"
  by (rule dec_enc_slice [of True "Suc 0"]) (simp_all add: list_all_iff entries_ok three_max dec_entry)

lemma un_js_gossip:
  "un_gossip go_json (js_gossip go_json g) =
     Some (g\<lparr>pg_entries := map (\<lambda>x. x\<lparr>ge_name := repair (ge_name x)\<rparr>) (pg_entries g)\<rparr>)"
proof -
  have "json_unmarshal (dec_struct dec_gossip) zero_gossip (json_marshal (gossip_tree g)) =
      (g\<lparr>pg_entries := map (\<lambda>x. x\<lparr>ge_name := repair (ge_name x)\<rparr>) (pg_entries g)\<rparr>, True)"
    using unmarshal_wire [OF wire_trees(4) [unfolded gossip_tree_def], of dec_gossip zero_gossip g]
    by (simp add: gossip_tree_def dec_gossip_def zero_gossip_def field_def dec_entries)
  then show ?thesis by (simp add: json_unmarshal_ok_def)
qed

lemma un_js_ping:
  "- (2 ^ 63) \<le> t \<Longrightarrow> t < 2 ^ 63 \<Longrightarrow> un_ping go_json (js_ping go_json t) = t"
  using unmarshal_wire [OF wire_trees(5) [unfolded ping_tree_def], of dec_ping 0 t]
  by (simp add: ping_tree_def dec_ping_def field_def)

lemmas wire_roundtrips = un_js_hello un_js_hello_ok un_js_envelope un_js_presence un_js_gossip un_js_ping

subsection \<open>Messages\<close>

lemma value_text_wire: "wire_tree t \<Longrightarrow> value_text True 3 (json_print Compact d t)"
  by (simp add: wire_tree_def print_value)

lemma compact_wire:
  "wire_tree t \<Longrightarrow> json_compact (json_print Compact d t) = Some (json_print Compact d t)"
  by (rule compact_value [OF value_text_wire _ three_max(1)]) (simp_all add: wire_tree_def stable_print)

lemma marshal_not_Nil: "wire_tree t \<Longrightarrow> json_marshal t \<noteq> []"
  using value_text_wire [of t 0] by (simp add: json_marshal_def value_text_def)

lemma enc_message_wire:
  "wire_tree t \<Longrightarrow> enc_message (msgOf ty (json_marshal t)) = Some (json_marshal (message_tree (json_print Compact 0 t) (msgOf ty (json_marshal t))))"
  by (simp add: enc_message_def marshal_not_Nil) (simp add: json_marshal_def compact_wire)

lemma un_message_wire:
  assumes "wire_tree t"
  shows "un_message go_json (json_marshal (message_tree (json_print Compact 0 t) (msgOf ty (json_marshal t)))) =
    Some (msgOf (repair ty) (json_marshal t))"
proof -
  have "tree_ok True 4 (message_tree (json_print Compact 0 t) (msgOf ty (json_marshal t)))"
    using value_text_wire [OF assms] by (simp add: message_tree_def eval_nat_numeral)
  from unmarshal_tree_marshal [OF this [unfolded message_tree_def], of dec_message zero_message]
  have "json_unmarshal (dec_struct dec_message) zero_message (json_marshal (message_tree (json_print Compact 0 t) (msgOf ty (json_marshal t)))) =
      (msgOf (repair ty) (json_marshal t), True)"
    by (simp add: message_tree_def dec_message_def zero_message_def field_def dec_enc_str dec_raw_def json_marshal_def
        max_nesting_def msgOf_def)
  then show ?thesis by (simp add: json_unmarshal_ok_def)
qed

theorem json_message_wire: "wire_tree t \<Longrightarrow> valid_utf8 ty \<Longrightarrow> json_message_ok go_json (msgOf ty (json_marshal t))"
  using un_message_wire [of t ty]
  by (simp add: json_message_ok_def enc_message_wire valid_utf8_def)
    (simp add: json_marshal_def message_tree_def)

subsection \<open>Streams of messages\<close>

text \<open>
  The packets that travel, with the types under which the code sends them; \<open>read_packet\<close> decodes a
  message the way the handlers do, by its type.
\<close>

datatype packet =
    HelloPacket bool hello
  | HelloOKPacket bool hello_ok
  | PresencePacket presence
  | GossipPacket presence_gossip
  | EnvelopePacket envelope
  | PingPacket bool int

fun packet_message :: "packet \<Rightarrow> message" where
  "packet_message (HelloPacket peer h) = msgOf (if peer then TypePeerHello else TypeHello) (js_hello go_json h)"
| "packet_message (HelloOKPacket peer h) = msgOf (if peer then TypePeerOK else TypeHelloOK) (js_hello_ok go_json h)"
| "packet_message (PresencePacket p) = msgOf TypePresence (js_presence go_json p)"
| "packet_message (GossipPacket g) = msgOf TypePresenceGossip (js_gossip go_json g)"
| "packet_message (EnvelopePacket e) = msgOf TypeEnvelope (js_envelope go_json e)"
| "packet_message (PingPacket pong t) = msgOf (if pong then TypePong else TypePing) (js_ping go_json t)"

definition read_packet :: "message \<Rightarrow> packet option" where
  "read_packet m =
     (let t = msg_type m; b = msg_body m in
      if t = TypeHello \<or> t = TypePeerHello then map_option (HelloPacket (t = TypePeerHello)) (un_hello go_json b)
      else if t = TypeHelloOK \<or> t = TypePeerOK then map_option (HelloOKPacket (t = TypePeerOK)) (un_hello_ok go_json b)
      else if t = TypePresence then map_option PresencePacket (un_presence go_json b)
      else if t = TypePresenceGossip then map_option GossipPacket (un_gossip go_json b)
      else if t = TypeEnvelope then map_option EnvelopePacket (un_envelope go_json b)
      else if t = TypePing \<or> t = TypePong then Some (PingPacket (t = TypePong) (un_ping go_json b))
      else None)"

text \<open>The strings of a packet are UTF-8, the clock reading of a ping is an \<open>int64\<close>.\<close>

fun packet_ok :: "packet \<Rightarrow> bool" where
  "packet_ok (HelloPacket _ h) \<longleftrightarrow>
     valid_utf8 (hel_role h) \<and> valid_utf8 (hel_name h) \<and> valid_utf8 (hel_v6 h) \<and> valid_utf8 (hel_v4 h)"
| "packet_ok (HelloOKPacket _ h) \<longleftrightarrow> valid_utf8 (hok_name h) \<and> valid_utf8 (hok_observed h)"
| "packet_ok (PresencePacket p) \<longleftrightarrow> valid_utf8 (pre_name p)"
| "packet_ok (GossipPacket g) \<longleftrightarrow> list_all (\<lambda>e. valid_utf8 (ge_name e)) (pg_entries g)"
| "packet_ok (EnvelopePacket e) \<longleftrightarrow> valid_utf8 (env_id e) \<and> valid_utf8 (env_type e)"
| "packet_ok (PingPacket _ t) \<longleftrightarrow> - (2 ^ 63) \<le> t \<and> t < 2 ^ 63"

lemma valid_types [simp]:
  "valid_utf8 TypeHello" "valid_utf8 TypeHelloOK" "valid_utf8 TypePeerHello" "valid_utf8 TypePeerOK"
  "valid_utf8 TypeEnvelope" "valid_utf8 TypePresence" "valid_utf8 TypePresenceGossip" "valid_utf8 TypePing"
  "valid_utf8 TypePong"
  by (rule valid_utf8_ascii, simp add: is_ascii_def type_consts)+

lemma packet_message_ok: "json_message_ok go_json (packet_message p)"
  by (cases p) (simp_all add: json_message_wire)

lemma read_packet_message: "packet_ok p \<Longrightarrow> read_packet (packet_message p) = Some p"
proof (cases p)
  case (GossipPacket g)
  assume "packet_ok p"
  then have "map (\<lambda>x. x\<lparr>ge_name := repair (ge_name x)\<rparr>) (pg_entries g) = pg_entries g"
    using GossipPacket by (intro map_idI) (auto simp: list_all_iff valid_utf8_def)
  then show ?thesis
    using GossipPacket un_js_gossip [of g] by (simp add: read_packet_def type_consts del: go_json_sel)
qed (auto simp: read_packet_def type_consts wire_roundtrips [unfolded valid_utf8_def] valid_utf8_def simp del: go_json_sel)

text \<open>
  C6: What travels between hubs and spokes arrives: packets of at most 1 MiB of JSON, marshalled,
  wrapped and framed one after the other, come out of \<open>ReadFrame\<close> in the same order, the reader
  then stands exactly at the bytes that follow, and every packet whose strings are UTF-8 decodes
  to the value that was sent.
\<close>

theorem wire_stream_roundtrip:
  assumes "list_all (\<lambda>p. packet_ok p \<and> length (the (js_message go_json (packet_message p))) \<le> MaxFrame) ps"
  shows "\<exists>ms. read_frames (length ps) go_json
      (fst (foldl (\<lambda>(w, e) p. write_frame go_json buffer_write w (packet_message p)) ([], None) ps) @ r) = (ms, None) \<and>
    map read_packet ms = map Some ps"
proof -
  have "\<forall>m \<in> set (map packet_message ps). json_message_ok go_json m \<and> length (the (js_message go_json m)) \<le> MaxFrame"
    using assms by (simp only: list_all_iff set_map ball_simps packet_message_ok simp_thms) blast
  from frame_stream_roundtrip [OF this, of r]
  have "read_frames (length ps) go_json
      (fst (foldl (\<lambda>(w, e) p. write_frame go_json buffer_write w (packet_message p)) ([], None) ps) @ r) =
      (map packet_message ps, None)"
    by (simp add: foldl_map case_prod_unfold)
  moreover have "map read_packet (map packet_message ps) = map Some ps"
    using assms by (simp add: list_all_iff read_packet_message del: go_json_sel)
  ultimately show ?thesis by blast
qed

lemma repair_longer: "length s \<le> length (repair s) \<and> (length (repair s) = length s \<longrightarrow> repair s = s)"
proof (induction s rule: quote_runes.induct)
  case (2 c s)
  show ?case
  proof (cases "rune_width (c # s)")
    case None
    with 2(1) show ?thesis by (simp add: map_runes.simps(2) replacement_char_def)
  next
    case (Some w)
    have w: "1 \<le> w" "w \<le> Suc (length s)" using rune_width_le [OF Some] by simp_all
    have rep: "repair (c # s) = take w (c # s) @ repair (drop (w - 1) s)"
      using Some by (simp add: map_runes.simps(2))
    have cut: "c # s = take w (c # s) @ drop (w - 1) s"
      using w by (cases w) simp_all
    then have "length (c # s) = length (take w (c # s)) + length (drop (w - 1) s)" by (metis length_append)
    with 2(2) [OF Some] rep cut show ?thesis by (metis add_left_imp_eq add_left_mono length_append)
  qed
qed simp

lemma valid_utf8_length: "valid_utf8 s \<longleftrightarrow> length (repair s) = length s"
  using repair_longer [of s] by (auto simp: valid_utf8_def)

text \<open>
  A hello is signed over the raw bytes of its strings but travels as JSON, which can only carry UTF-8:
  key and signature arrive as they were, the signed bytes only when every string is valid UTF-8.
\<close>

lemma hello_signature_travels:
  "\<exists>h'. un_hello go_json (js_hello go_json (hello_sign C priv h)) = Some h' \<and>
     hel_ed h' = hel_ed h \<and> hel_sig h' = ed_sign C priv (helloSignedBytes h) \<and>
     (helloSignedBytes h' = helloSignedBytes h \<longleftrightarrow>
        valid_utf8 (hel_role h) \<and> valid_utf8 (hel_name h) \<and> valid_utf8 (hel_v6 h) \<and> valid_utf8 (hel_v4 h))"
proof -
  let ?h = "hello_sign C priv h"
  let ?h' = "?h\<lparr>hel_role := repair (hel_role h), hel_name := repair (hel_name h), hel_v6 := repair (hel_v6 h),
      hel_v4 := repair (hel_v4 h)\<rparr>"
  have un: "un_hello go_json (js_hello go_json ?h) = Some ?h'"
    unfolding un_js_hello by (simp add: hello_sign_def)
  have "length (helloSignedBytes ?h') = length (helloSignedBytes h) \<longrightarrow>
      valid_utf8 (hel_role h) \<and> valid_utf8 (hel_name h) \<and> valid_utf8 (hel_v6 h) \<and> valid_utf8 (hel_v4 h)"
    using repair_longer [of "hel_role h"] repair_longer [of "hel_name h"] repair_longer [of "hel_v6 h"]
      repair_longer [of "hel_v4 h"]
    by (auto simp: helloSignedBytes_def valid_utf8_length hello_sign_def)
  moreover have "helloSignedBytes ?h' = helloSignedBytes h"
    if "valid_utf8 (hel_role h)" "valid_utf8 (hel_name h)" "valid_utf8 (hel_v6 h)" "valid_utf8 (hel_v4 h)"
    using that by (simp add: helloSignedBytes_def valid_utf8_def hello_sign_def)
  moreover have "hel_ed ?h' = hel_ed h" "hel_sig ?h' = ed_sign C priv (helloSignedBytes h)"
    by (simp_all add: hello_sign_def)
  ultimately show ?thesis using un by (metis (no_types, lifting))
qed

subsection \<open>Sizes\<close>

lemma length_esc_ascii: "length (esc_ascii c) \<le> 6"
  by (simp add: esc_ascii_def length_u00)

lemma length_quote_runes: "length (quote_runes s) \<le> 6 * length s"
proof (induction s rule: quote_runes.induct)
  case (2 c s)
  show ?case
  proof (cases "rune_width (c # s)")
    case None
    with 2(1) show ?thesis by (simp add: quote_runes.simps(2))
  next
    case (Some w)
    have w: "1 \<le> w" "w \<le> Suc (length s)" using rune_width_le [OF Some] by simp_all
    have "length (if w = 1 then esc_ascii c else if line_sep (take w (c # s)) then line_sep_esc (take w (c # s))
        else take w (c # s)) \<le> 6 * w"
      using w length_esc_ascii [of c] by (auto simp: line_sep_esc_def)
    with 2(2) [OF Some] Some w show ?thesis
      by (simp add: quote_runes.simps(2) split del: if_split)
  qed
qed simp

lemma length_quote_str: "length (quote_str s) \<le> 6 * length s + 2"
  using length_quote_runes [of s] by (simp add: quote_str_def)

lemma length_enc_bytes: "length (json_print sty d (enc_bytes b)) \<le> 4 * ((length b + 2) div 3) + 4"
  by (simp add: enc_bytes_def json_key_def length_b64_encode)

lemma length_decimal: "n < 10 ^ k \<Longrightarrow> 0 < k \<Longrightarrow> length (decimal n) \<le> k"
proof (induction k arbitrary: n)
  case (Suc k)
  show ?case
  proof (cases "n < 10")
    case True
    then show ?thesis by (simp add: decimal.simps [of n])
  next
    case False
    then have k: "0 < k" using Suc.prems by (cases k) auto
    have "n div 10 < 10 ^ k" using Suc.prems by (simp add: less_mult_imp_div_less mult.commute)
    with Suc.IH [OF _ k] False show ?thesis by (simp add: decimal.simps [of n])
  qed
qed simp

lemma length_sint: "length (json_print sty d (enc_int (sint (w :: 64 word)))) \<le> 20"
proof -
  have r: "- (2 ^ 63) \<le> sint w" "sint w < 2 ^ 63"
    using sint_range_size [of w] by (simp_all add: word_size)
  then have "nat (- sint w) < 10 ^ 19" "nat (sint w) < 10 ^ 19" by (simp_all add: nat_less_iff)
  then have "length (decimal (nat (- sint w))) \<le> 19" "length (decimal (nat (sint w))) \<le> 19"
    using length_decimal [of _ 19] by simp_all
  then show ?thesis by (simp add: enc_int_def decimal_int_def)
qed

lemma ge_enc_bytes: "4 * ((length b + 2) div 3) \<le> length (json_print sty d (enc_bytes b))" if "b \<noteq> []"
  using that by (simp add: enc_bytes_def json_key_def length_b64_encode)

text \<open>
  The size of a sealed envelope on the wire, but for at most 1200 bytes: the base64 of the addressee's key
  and that of the ciphertext.
\<close>

definition sealed_bulk :: "bytes \<Rightarrow> bytes \<Rightarrow> nat" where
  "sealed_bulk ed plain = 4 * ((length ed + 2) div 3) + 4 * ((length plain + 42) div 3)"

lemma sealed_size:
  assumes "seal C (Some n) (Some i) ts a x ed ty plain = Inr e" "box_correct C" "x = x_public C xp"
    and "length n = nonce_size" "length i \<le> 16" "length ty \<le> 64" "length (id_ed_pub a) \<le> 32"
    and "\<And>p m. length (ed_sign C p m) = 64"
  shows "sealed_bulk ed plain \<le> length (the (js_message go_json (msgOf TypeEnvelope (js_envelope go_json e))))"
    "length (the (js_message go_json (msgOf TypeEnvelope (js_envelope go_json e)))) \<le> sealed_bulk ed plain + 1200"
    "length plain \<le> max_plaintext"
proof -
  have e: "e = env_sign C (id_ed_priv a) \<lparr>env_id = hex_encode i, env_from = id_ed_pub a, env_to = ed, env_ts = ts,
      env_type = ty, env_sig = [], env_ciphertext = n @ box_seal C plain n x (id_x_priv a)\<rparr>"
    and pl: "length plain \<le> max_plaintext"
    using assms(1) by (auto simp: seal_def Let_def split: if_splits)
  have "length (box_seal C plain n x (id_x_priv a)) = length plain + 16"
    using assms(2,3) by (simp add: box_correct_def)
  then have ct: "length (env_ciphertext e) = length plain + 40" using assms(4) by (simp add: e env_sign_def nonce_size_def)
  have sel: "length (env_id e) \<le> 32" "env_from e = id_ed_pub a" "env_to e = ed" "env_type e = ty" "length (env_sig e) = 64"
    using assms(5,8) by (simp_all add: e env_sign_def length_hex_encode)
  note l = length_quote_str [of "env_id e"] length_quote_str [of "env_type e"]
    length_enc_bytes [of Compact "Suc 0" "env_from e"] length_enc_bytes [of Compact "Suc 0" ed]
    length_enc_bytes [of Compact "Suc 0" "env_sig e"] length_enc_bytes [of Compact "Suc 0" "env_ciphertext e"]
    length_sint [of Compact "Suc 0" "env_ts e"]
  have g: "4 * ((length ed + 2) div 3) \<le> length (json_print Compact (Suc 0) (enc_bytes ed))"
    using ge_enc_bytes [of ed Compact "Suc 0"] by (cases "ed = []") simp_all
  have h: "4 * ((length plain + 42) div 3) \<le> length (json_print Compact (Suc 0) (enc_bytes (env_ciphertext e)))"
    using ge_enc_bytes [of "env_ciphertext e" Compact "Suc 0"] ct by (cases "env_ciphertext e = []") (simp_all add: add.commute)
  have from_le: "4 * ((length (id_ed_pub a) + 2) div 3) \<le> 4 * ((32 + 2) div 3)"
    using assms(7) by (intro mult_le_mono div_le_mono) simp_all
  have "length (json_print Compact 0 (envelope_tree e)) \<le> sealed_bulk ed plain + 1100"
    using l sel from_le assms(6) ct by (simp add: envelope_tree_def json_key_def enc_str_def sealed_bulk_def)
  moreover have "sealed_bulk ed plain \<le> length (json_print Compact 0 (envelope_tree e))"
    using g h sel by (simp add: envelope_tree_def json_key_def enc_str_def sealed_bulk_def)
  moreover have "length (the (js_message go_json (msgOf TypeEnvelope (js_envelope go_json e)))) \<le>
      length (json_print Compact 0 (envelope_tree e)) + 100 \<and>
      length (json_print Compact 0 (envelope_tree e)) \<le> length (the (js_message go_json (msgOf TypeEnvelope (js_envelope go_json e))))"
    using length_quote_str [of TypeEnvelope]
    by (simp add: enc_message_wire) (simp add: json_marshal_def message_tree_def json_key_def enc_str_def TypeEnvelope_def)
  ultimately show "sealed_bulk ed plain \<le> length (the (js_message go_json (msgOf TypeEnvelope (js_envelope go_json e))))"
    "length (the (js_message go_json (msgOf TypeEnvelope (js_envelope go_json e)))) \<le> sealed_bulk ed plain + 1200"
    by linarith+
  show "length plain \<le> max_plaintext" by (rule pl)
qed

lemma bulk_normal: "length ed \<le> 32 \<Longrightarrow> length plain \<le> max_plaintext \<Longrightarrow> sealed_bulk ed plain + 1200 \<le> 65536"
proof -
  assume a: "length ed \<le> 32" "length plain \<le> max_plaintext"
  have "4 * ((length ed + 2) div 3) \<le> 4 * ((32 + 2) div 3)" using a(1) by (intro mult_le_mono div_le_mono) simp_all
  moreover have "4 * ((length plain + 42) div 3) \<le> 4 * ((32768 + 42) div 3)"
    using a(2) by (intro mult_le_mono div_le_mono) (simp_all add: max_plaintext_def)
  ultimately show ?thesis by (simp add: sealed_bulk_def)
qed

lemma sealed_fits:
  assumes "seal C (Some n) (Some i) ts a x ed ty plain = Inr e" "box_correct C" "x = x_public C xp"
    and "length n = nonce_size" "length i \<le> 16" "length ed \<le> 32" "length ty \<le> 64" "length (id_ed_pub a) \<le> 32"
    and "\<And>p m. length (ed_sign C p m) = 64"
  shows "length (the (js_message go_json (msgOf TypeEnvelope (js_envelope go_json e)))) \<le> 65536"
  using sealed_size [OF assms(1-5,7-9)] bulk_normal [OF assms(6), of plain] by linarith

text \<open>
  C28: How large a sealed message is on the wire: what \<open>Seal\<close> makes for an addressee key \<open>ed\<close> takes
  the base64 of the key and of the ciphertext and at most 1200 bytes more, for a sender key of at most 32
  bytes and a type of at most 64 (the program's is \<open>chat\<close>). So to an Ed25519 key, of 32 bytes, every
  message fits into a frame, in less than 64 KiB. But nothing checks the length of an addressee's key, which
  a spoke may have from gossip: a key so long that key and ciphertext exceed 1 MiB in base64 makes an envelope
  that \<open>WriteFrame\<close> refuses.
\<close>

theorem sealed_fits_frame:
  assumes "seal C (Some n) (Some i) ts a x ed ty plain = Inr e" "box_correct C" "x = x_public C xp"
    and "length n = nonce_size" "length i \<le> 16" "length ty \<le> 64" "length (id_ed_pub a) \<le> 32"
    and "\<And>p m. length (ed_sign C p m) = 64"
  shows "\<exists>b. js_message go_json (msgOf TypeEnvelope (js_envelope go_json e)) = Some b \<and>
    sealed_bulk ed plain \<le> length b \<and> length b \<le> sealed_bulk ed plain + 1200 \<and>
    (length ed \<le> 32 \<longrightarrow> length b \<le> 65536 \<and>
      snd (write_frame go_json wr w (msgOf TypeEnvelope (js_envelope go_json e))) \<noteq> Some FrameTooLarge) \<and>
    (1048576 < sealed_bulk ed plain \<longrightarrow>
      write_frame go_json wr w (msgOf TypeEnvelope (js_envelope go_json e)) = (w, Some FrameTooLarge))"
proof -
  let ?m = "msgOf TypeEnvelope (js_envelope go_json e)"
  obtain b where b: "js_message go_json ?m = Some b"
    using packet_message_ok [of "EnvelopePacket e"] by (auto simp: json_message_ok_def split: option.splits)
  note size = sealed_size [OF assms, unfolded b option.sel]
  have small: "length b \<le> 65536" if "length ed \<le> 32" using bulk_normal [OF that size(3)] size(2) by linarith
  have fits: "snd (write_frame go_json wr w ?m) \<noteq> Some FrameTooLarge" if "length b \<le> 65536"
    using b that by (auto simp: write_frame_def MaxFrame_def simp del: go_json_sel split: prod.split bool.split)
  have large: "write_frame go_json wr w ?m = (w, Some FrameTooLarge)" if "1048576 < length b"
    using b that by (simp add: write_frame_def MaxFrame_def del: go_json_sel)
  show ?thesis using b size(1,2) small fits large by (intro exI [of _ b]) auto
qed

definition demo_crypto64 :: crypto where
  "demo_crypto64 = demo_crypto
     \<lparr>ed_sign := (\<lambda>p m. take 64 (drop 32 p @ replicate 64 0)), ed_verify := (\<lambda>pub m s. s = take 64 (pub @ replicate 64 0))\<rparr>"

lemma demo_crypto64_ok: "sign_correct demo_crypto64" "box_correct demo_crypto64" "length (ed_sign demo_crypto64 p m) = 64"
  "wf_identity demo_crypto64 (demo_identity k)" "x_public demo_crypto64 = id"
  by (simp_all add: sign_correct_def box_correct_def demo_crypto64_def demo_crypto_def wf_identity_def demo_identity_def)

text \<open>A full message to a normal key fits, an empty one to a key of 800000 bytes does not.\<close>

theorem sealed_fits_frame_witness:
  "(\<exists>e. seal demo_crypto64 (Some (replicate 24 9)) (Some (replicate 16 1)) 5 (demo_identity 1) (replicate 32 2) (replicate 32 2)
      ''chat'' (replicate 32768 0) = Inr e \<and>
      snd (write_frame go_json buffer_write [] (msgOf TypeEnvelope (js_envelope go_json e))) \<noteq> Some FrameTooLarge) \<and>
   (\<exists>e. seal demo_crypto64 (Some (replicate 24 9)) (Some (replicate 16 1)) 5 (demo_identity 1) (replicate 32 2) (replicate 800000 2)
      ''chat'' [] = Inr e \<and>
      write_frame go_json buffer_write [] (msgOf TypeEnvelope (js_envelope go_json e)) = ([], Some FrameTooLarge))"
proof -
  note t = sealed_fits_frame [where C = demo_crypto64 and n = "replicate 24 9" and i = "replicate 16 1" and ts = 5 and a = "demo_identity 1"
      and x = "replicate 32 2" and xp = "replicate 32 2" and ty = "''chat''" and wr = buffer_write and w = "[]",
      OF _ demo_crypto64_ok(2) _ _ _ _ _ demo_crypto64_ok(3)]
  obtain e where e: "seal demo_crypto64 (Some (replicate 24 9)) (Some (replicate 16 1)) 5 (demo_identity 1) (replicate 32 2)
      (replicate 32 2) ''chat'' (replicate 32768 0) = Inr e"
    by (simp add: seal_def max_plaintext_def Let_def)
  have "snd (write_frame go_json buffer_write [] (msgOf TypeEnvelope (js_envelope go_json e))) \<noteq> Some FrameTooLarge"
    using t [OF e] by (auto simp add: demo_crypto64_ok nonce_size_def demo_identity_def simp del: go_json_sel)
  with e have fits: "\<exists>e. seal demo_crypto64 (Some (replicate 24 9)) (Some (replicate 16 1)) 5 (demo_identity 1) (replicate 32 2) (replicate 32 2)
      ''chat'' (replicate 32768 0) = Inr e \<and>
      snd (write_frame go_json buffer_write [] (msgOf TypeEnvelope (js_envelope go_json e))) \<noteq> Some FrameTooLarge" by blast
  obtain e where e: "seal demo_crypto64 (Some (replicate 24 9)) (Some (replicate 16 1)) 5 (demo_identity 1) (replicate 32 2)
      (replicate 800000 2) ''chat'' [] = Inr e"
    by (simp add: seal_def Let_def)
  have "write_frame go_json buffer_write [] (msgOf TypeEnvelope (js_envelope go_json e)) = ([], Some FrameTooLarge)"
    using t [OF e] by (auto simp add: demo_crypto64_ok nonce_size_def demo_identity_def sealed_bulk_def simp del: go_json_sel)
  with e fits show ?thesis by blast
qed

theorem wire_stream_roundtrip_witness:
  "\<exists>ms. read_frames 2 go_json
      (fst (foldl (\<lambda>(w, e) p. write_frame go_json buffer_write w (packet_message p)) ([], None)
        [PingPacket False 7, PresencePacket \<lparr>pre_pubs = [[1, 2]], pre_x = [], pre_name = ''ala''\<rparr>]) @ [9]) = (ms, None) \<and>
    map read_packet ms = map Some [PingPacket False 7, PresencePacket \<lparr>pre_pubs = [[1, 2]], pre_x = [], pre_name = ''ala''\<rparr>]"
proof -
  let ?ps = "[PingPacket False 7, PresencePacket \<lparr>pre_pubs = [[1, 2]], pre_x = [], pre_name = ''ala''\<rparr>]"
  have "\<exists>b. js_message go_json (packet_message p) = Some b \<and> length b < 300" if "p \<in> set ?ps" for p
    using that length_quote_str [of "''ala''"] length_quote_str [of TypePing] length_quote_str [of TypePresence]
      length_decimal [of 7 1]
    by (auto simp: enc_message_wire)
      (simp_all add: json_marshal_def message_tree_def ping_tree_def presence_tree_def json_key_def enc_str_def enc_int_def
        decimal_int_def enc_slice_def enc_bytes_def opt_member_def TypePing_def TypePresence_def sextets_def)
  then have "list_all (\<lambda>p. packet_ok p \<and> length (the (js_message go_json (packet_message p))) \<le> MaxFrame) ?ps"
    by (fastforce simp: MaxFrame_def valid_utf8_ascii is_ascii_def simp del: go_json_sel packet_message.simps)
  from wire_stream_roundtrip [OF this, of "[9]"] show ?thesis by (simp add: eval_nat_numeral del: go_json_sel packet_message.simps)
qed

end
