(* ===== verification/Store_JSON.thy ===== *)
theory Store_JSON
  imports Wire_JSON Spoke_Behaviour Community
begin

section \<open>The JSON texts of files (\<open>hub/queue.go\<close>, \<open>hub/identity.go\<close>, \<open>hub/community.go\<close>)\<close>

text \<open>
  The identity file and the offline queue are written with \<open>MarshalIndent\<close> and read with
  \<open>Unmarshal\<close>; the signed text of a community list is the compact \<open>Marshal\<close> of an array. This
  theory gives the records \<open>identity_json\<close>, \<open>queue_json\<close> and the function \<open>js_wire\<close> their concrete
  values and proves that what is saved is what is loaded.
\<close>

subsection \<open>Hex strings (\<open>hexBytes\<close> of \<open>hub/hex.go\<close>)\<close>

definition enc_hex :: "bytes \<Rightarrow> jtree" where
  "enc_hex b = enc_str (hex_encode b)"

text \<open>\<open>null\<close> leaves the intermediate string empty, which decodes to no bytes.\<close>

definition dec_hex :: "bytes decoder" where
  "dec_hex raw old =
     (case dec_str raw [] of
        (s, ok) \<Rightarrow>
          (if \<not> ok then (old, False)
           else case hex_decode s of Inl e \<Rightarrow> (old, False) | Inr b \<Rightarrow> (b, True)))"

lemma hex_ascii: "is_ascii (hex_encode b)"
proof -
  have "list_all (\<lambda>c. of_char c < (128::nat)) hex_table" by code_simp
  then have "of_char (hex_table ! n) < (128::nat)" if "n < 16" for n
    using that by (simp add: list_all_length hex_table_def)
  moreover have "unat x div 16 < 16" "unat x mod 16 < 16" for x :: byte
    using unat_byte_less [of x] by (simp_all add: less_mult_imp_div_less)
  ultimately show ?thesis
    by (induction b) (simp_all add: hex_encode_def is_ascii_def)
qed

lemma valid_hex [simp]: "valid_utf8 (hex_encode b)"
  by (rule valid_utf8_ascii) (rule hex_ascii)

lemma dec_enc_hex [simp]: "dec_hex (json_print sty d (enc_hex b)) old = (b, True)"
  by (simp add: dec_hex_def enc_hex_def hexc.dec_enc)

lemma tree_ok_hex [simp]: "tree_ok cp n (enc_hex b)"
  by (simp add: enc_hex_def)

subsection \<open>The identity file\<close>

definition identity_tree :: "identity_file \<Rightarrow> jtree" where
  "identity_tree f = JObj
     ([(''ed25519_private'', enc_hex (if_ed_priv f)), (''ed25519_public'', enc_hex (if_ed_pub f)),
       (''x25519_private'', enc_hex (if_x_priv f)), (''x25519_public'', enc_hex (if_x_pub f))] @
      opt_member (if_name f \<noteq> []) ''name'' (enc_str (if_name f)))"

definition dec_identity :: "members \<Rightarrow> identity_file \<Rightarrow> identity_file \<times> bool" where
  "dec_identity ms old =
     (let (ep, k1) = field dec_hex ''ed25519_private'' ms (if_ed_priv old);
          (eq, k2) = field dec_hex ''ed25519_public'' ms (if_ed_pub old);
          (xp, k3) = field dec_hex ''x25519_private'' ms (if_x_priv old);
          (xq, k4) = field dec_hex ''x25519_public'' ms (if_x_pub old);
          (name, k5) = field dec_str ''name'' ms (if_name old)
      in (\<lparr>if_ed_priv = ep, if_ed_pub = eq, if_x_priv = xp, if_x_pub = xq, if_name = name\<rparr>,
          k1 \<and> k2 \<and> k3 \<and> k4 \<and> k5))"

definition zero_identity_file :: identity_file where
  "zero_identity_file = \<lparr>if_ed_priv = [], if_ed_pub = [], if_x_priv = [], if_x_pub = [], if_name = []\<rparr>"

definition go_identity_json :: identity_json where
  "go_identity_json =
     \<lparr>js_ident = (\<lambda>f. json_marshal_indent (identity_tree f)),
      un_ident = json_unmarshal_ok (dec_struct dec_identity) zero_identity_file\<rparr>"

lemma unmarshal_indent:
  assumes "tree_ok False (Suc n) (JObj ms)" "Suc n \<le> max_nesting"
  shows "json_unmarshal (dec_struct f) z (json_marshal_indent (JObj ms)) = f (map (\<lambda>(k, t). (k, json_print Indented 1 t)) ms) z"
proof -
  have "json_unmarshal (dec_struct f) z (json_marshal_indent (JObj ms)) = dec_struct f (json_print Indented 0 (JObj ms)) z"
    unfolding json_marshal_indent_def by (rule unmarshal_print [OF assms(1) _ assms(2)]) simp
  also have "\<dots> = f (map (\<lambda>(k, t). (k, json_print Indented (Suc 0) t)) ms) z"
    by (rule dec_struct_print [OF assms(1) _ assms(2)]) simp
  finally show ?thesis by simp
qed

lemma identity_back:
  "un_ident go_identity_json (js_ident go_identity_json f) = Some (f\<lparr>if_name := repair (if_name f)\<rparr>)"
proof -
  have "tree_ok False (Suc 0) (identity_tree f)" by (simp add: identity_tree_def)
  from unmarshal_indent [OF this [unfolded identity_tree_def] three_max(4), of dec_identity zero_identity_file]
  have "json_unmarshal (dec_struct dec_identity) zero_identity_file (json_marshal_indent (identity_tree f)) =
      (f\<lparr>if_name := repair (if_name f)\<rparr>, True)"
    by (simp add: identity_tree_def dec_identity_def zero_identity_file_def field_def dec_enc_str)
  then show ?thesis by (simp add: go_identity_json_def json_unmarshal_ok_def)
qed

lemma ident_json_go: "valid_utf8 (id_name i) \<Longrightarrow> ident_json_ok go_identity_json i"
  by (simp add: ident_json_ok_def identity_back file_of_def valid_utf8_def)

subsection \<open>The queue file\<close>

text \<open>A pointer is nil, or what it points to; decoding into a nil pointer makes a new zero value.\<close>

definition enc_ptr :: "('a \<Rightarrow> jtree) \<Rightarrow> 'a option \<Rightarrow> jtree" where
  "enc_ptr f x = (case x of None \<Rightarrow> JLit ''null'' | Some y \<Rightarrow> f y)"

definition dec_ptr :: "'a decoder \<Rightarrow> 'a \<Rightarrow> 'a option decoder" where
  "dec_ptr d zero raw old =
     (if starts CHR ''n'' raw then (None, True)
      else case d raw (case old of None \<Rightarrow> zero | Some x \<Rightarrow> x) of (y, ok) \<Rightarrow> (Some y, ok))"

definition queued_tree :: "envelope option \<Rightarrow> jtree" where
  "queued_tree x = JObj [(''env'', enc_ptr envelope_tree x)]"

definition dec_queued :: "members \<Rightarrow> envelope option \<Rightarrow> envelope option \<times> bool" where
  "dec_queued ms old = field (dec_ptr (dec_struct dec_envelope) zero_envelope) ''env'' ms old"

definition items_tree :: "envelope option list \<Rightarrow> jtree" where
  "items_tree xs = JObj [(''items'', enc_slice queued_tree xs)]"

definition dec_items :: "members \<Rightarrow> envelope option list \<Rightarrow> envelope option list \<times> bool" where
  "dec_items ms old = field (dec_slice (dec_struct dec_queued) None) ''items'' ms old"

definition go_queue_json :: queue_json where
  "go_queue_json =
     \<lparr>js_items = (\<lambda>xs. json_marshal_indent (items_tree xs)),
      un_items = (\<lambda>b. fst (json_unmarshal (dec_struct dec_items) [] b))\<rparr>"

definition repair_env :: "envelope \<Rightarrow> envelope" where
  "repair_env e = e\<lparr>env_id := repair (env_id e), env_type := repair (env_type e)\<rparr>"

lemma envelope_members:
  "dec_struct dec_envelope (json_print sty d (envelope_tree e)) zero_envelope = (repair_env e, True)"
proof -
  have "tree_ok False (Suc 0) (envelope_tree e)" by (simp add: envelope_tree_def)
  from dec_struct_print [OF this [unfolded envelope_tree_def], of sty dec_envelope d zero_envelope] three_max(4)
  show ?thesis
    by (simp add: envelope_tree_def dec_envelope_def zero_envelope_def field_def dec_enc_str repair_env_def
        del: json_print.simps)
qed

lemma envelope_tree_ok: "tree_ok cp (Suc n) (envelope_tree e)"
  by (simp add: envelope_tree_def)

lemma ptr_tree_ok: "tree_ok cp (Suc n) (enc_ptr envelope_tree x)"
  by (cases x) (simp_all add: enc_ptr_def envelope_tree_ok value_text_word)

lemma dec_ptr_back:
  "dec_ptr (dec_struct dec_envelope) zero_envelope (json_print sty d (enc_ptr envelope_tree x)) None =
     (map_option repair_env x, True)"
proof (cases x)
  case None
  then show ?thesis by (simp add: dec_ptr_def enc_ptr_def)
next
  case (Some e)
  have "\<not> starts CHR ''n'' (json_print sty d (envelope_tree e))"
    by (simp add: envelope_tree_def)
  then show ?thesis using Some by (simp add: dec_ptr_def enc_ptr_def envelope_members)
qed

lemma queued_tree_ok: "tree_ok cp (Suc (Suc n)) (queued_tree x)"
  by (simp add: queued_tree_def ptr_tree_ok)

lemma queued_back:
  "dec_struct dec_queued (json_print sty d (queued_tree x)) None = (map_option repair_env x, True)"
proof -
  have "tree_ok False (Suc (Suc 0)) (queued_tree x)" by (rule queued_tree_ok)
  from dec_struct_print [OF this [unfolded queued_tree_def], of sty dec_queued d None] three_max(3)
  show ?thesis
    by (simp add: queued_tree_def dec_queued_def field_def dec_ptr_back del: json_print.simps)
qed

lemma items_back:
  "un_items go_queue_json (js_items go_queue_json xs) = map (map_option repair_env) xs"
proof -
  have l: "list_all (\<lambda>x. tree_ok False (Suc (Suc 0)) (queued_tree x)) xs"
    by (simp add: list_all_iff queued_tree_ok)
  have "tree_ok False (Suc (Suc (Suc (Suc 0)))) (items_tree xs)"
    using tree_ok_slice [OF l] by (simp add: items_tree_def)
  from unmarshal_indent [OF this [unfolded items_tree_def], of dec_items "[]"]
  have "json_unmarshal (dec_struct dec_items) [] (json_marshal_indent (items_tree xs)) =
      dec_slice (dec_struct dec_queued) None (json_print Indented (Suc 0) (enc_slice queued_tree xs)) []"
    by (simp add: items_tree_def dec_items_def field_def max_nesting_def)
  also have "\<dots> = (map (map_option repair_env) xs, True)"
    by (rule dec_enc_slice [OF l]) (simp_all add: three_max queued_back)
  finally show ?thesis by (simp add: go_queue_json_def)
qed

definition env_text_ok :: "envelope \<Rightarrow> bool" where
  "env_text_ok e \<longleftrightarrow> valid_utf8 (env_id e) \<and> valid_utf8 (env_type e)"

lemma repair_env_id: "env_text_ok e \<Longrightarrow> repair_env e = e"
  by (simp add: env_text_ok_def repair_env_def valid_utf8_def)

lemma items_back_ok:
  "list_all (\<lambda>x. case x of None \<Rightarrow> True | Some e \<Rightarrow> env_text_ok e) xs \<Longrightarrow>
     un_items go_queue_json (js_items go_queue_json xs) = xs"
  unfolding items_back
proof (rule map_idI)
  fix x assume "list_all (\<lambda>x. case x of None \<Rightarrow> True | Some e \<Rightarrow> env_text_ok e) xs" "x \<in> set xs"
  then show "map_option repair_env x = x"
    by (cases x) (auto simp: list_all_iff repair_env_id)
qed

text \<open>What a spoke seals has printable texts, so its queue file reads back.\<close>

lemma sealed_text_ok: "seal C rn ri ts a x ed EnvChat plain = Inr e \<Longrightarrow> env_text_ok e"
  by (auto simp: seal_def Let_def env_sign_def env_text_ok_def EnvChat_def is_ascii_def valid_utf8_ascii
      split: if_splits option.splits)

subsection \<open>The chat box\<close>

definition chat_tree :: "chat_box \<Rightarrow> jtree" where
  "chat_tree b = JObj
     ([(''text'', enc_str (cb_text b))] @
      opt_member (cb_name b \<noteq> []) ''name'' (enc_str (cb_name b)) @
      opt_member (cb_x b \<noteq> []) ''x25519'' (enc_bytes (cb_x b)))"

definition dec_chat :: "members \<Rightarrow> chat_box \<Rightarrow> chat_box \<times> bool" where
  "dec_chat ms old =
     (let (t, k1) = field dec_str ''text'' ms (cb_text old);
          (name, k2) = field dec_str ''name'' ms (cb_name old);
          (x, k3) = field dec_bytes ''x25519'' ms (cb_x old)
      in (\<lparr>cb_text = t, cb_name = name, cb_x = x\<rparr>, k1 \<and> k2 \<and> k3))"

definition zero_chat :: chat_box where "zero_chat = \<lparr>cb_text = [], cb_name = [], cb_x = []\<rparr>"

definition go_js_chat :: "chat_box \<Rightarrow> bytes" where
  "go_js_chat b = json_marshal (chat_tree b)"

definition go_un_chat :: "bytes \<Rightarrow> chat_box option" where
  "go_un_chat = json_unmarshal_ok (dec_struct dec_chat) zero_chat"

definition go_un_gossip_part :: "bytes \<Rightarrow> presence_gossip" where
  "go_un_gossip_part b = fst (json_unmarshal (dec_struct dec_gossip) zero_gossip b)"

lemma chat_back:
  "go_un_chat (go_js_chat b) = Some (b\<lparr>cb_text := repair (cb_text b), cb_name := repair (cb_name b)\<rparr>)"
proof -
  have "wire_tree (chat_tree b)" by (simp add: wire_tree_def chat_tree_def numeral_3)
  from unmarshal_wire [OF this [unfolded chat_tree_def], of dec_chat zero_chat]
  have "json_unmarshal (dec_struct dec_chat) zero_chat (json_marshal (chat_tree b)) =
      (b\<lparr>cb_text := repair (cb_text b), cb_name := repair (cb_name b)\<rparr>, True)"
    by (simp add: chat_tree_def dec_chat_def zero_chat_def field_def dec_enc_str)
  then show ?thesis by (simp add: go_un_chat_def go_js_chat_def json_unmarshal_ok_def)
qed

text \<open>The environment of a spoke with the program's own JSON; that of the cache file is in \<open>Hub_Files\<close>.\<close>

definition go_env :: "spoke_env \<Rightarrow> bool" where
  "go_env E \<longleftrightarrow> en_json E = go_json \<and> en_queue E = go_queue_json \<and> js_chat E = go_js_chat \<and>
     un_chat E = go_un_chat \<and> un_gossip_part E = go_un_gossip_part"

subsection \<open>The signed text of a community list\<close>

definition wire_hub_tree :: "wire_hub \<Rightarrow> jtree" where
  "wire_hub_tree w = JObj
     (opt_member (wh_name w \<noteq> []) ''name'' (enc_str (wh_name w)) @
      [(''ed25519'', enc_str (wh_ed w))] @
      opt_member (wh_x w \<noteq> []) ''x25519'' (enc_str (wh_x w)) @
      opt_member (wh_v6 w \<noteq> []) ''ipv6'' (enc_str (wh_v6 w)) @
      opt_member (wh_v4 w \<noteq> []) ''ipv4'' (enc_str (wh_v4 w)) @
      [(''port'', enc_int (uint (wh_port w)))] @
      opt_member (wh_cloud w) ''cloud_seed'' (enc_bool (wh_cloud w)))"

text \<open>\<open>canonicalHubs\<close> marshals a slice that is never nil, and no error is possible.\<close>

definition go_js_wire :: "wire_hub list \<Rightarrow> bytes option" where
  "go_js_wire ws = Some (json_marshal (JArr (map wire_hub_tree ws)))"

text \<open>Reading the signed text back, which the program never does, shows what it determines.\<close>

definition dec_wire_hub :: "members \<Rightarrow> wire_hub \<Rightarrow> wire_hub \<times> bool" where
  "dec_wire_hub ms old =
     (let (name, k1) = field dec_str ''name'' ms (wh_name old);
          (ed, k2) = field dec_str ''ed25519'' ms (wh_ed old);
          (x, k3) = field dec_str ''x25519'' ms (wh_x old);
          (v6, k4) = field dec_str ''ipv6'' ms (wh_v6 old);
          (v4, k5) = field dec_str ''ipv4'' ms (wh_v4 old);
          (port, k6) = field dec_uint ''port'' ms (wh_port old);
          (cloud, k7) = field dec_bool ''cloud_seed'' ms (wh_cloud old)
      in (\<lparr>wh_name = name, wh_ed = ed, wh_x = x, wh_v6 = v6, wh_v4 = v4, wh_port = port, wh_cloud = cloud\<rparr>,
          k1 \<and> k2 \<and> k3 \<and> k4 \<and> k5 \<and> k6 \<and> k7))"

definition zero_wire_hub :: wire_hub where
  "zero_wire_hub = \<lparr>wh_name = [], wh_ed = [], wh_x = [], wh_v6 = [], wh_v4 = [], wh_port = 0, wh_cloud = False\<rparr>"

definition repair_wire :: "wire_hub \<Rightarrow> wire_hub" where
  "repair_wire w = w\<lparr>wh_name := repair (wh_name w), wh_ed := repair (wh_ed w), wh_x := repair (wh_x w),
     wh_v6 := repair (wh_v6 w), wh_v4 := repair (wh_v4 w)\<rparr>"

lemma hub_names [simp]:
  "fold_key ''ipv6'' = ''IPV6''" "fold_key ''ipv4'' = ''IPV4''" "fold_key ''port'' = ''PORT''"
  "plain_key ''ipv6''" "plain_key ''ipv4''" "plain_key ''port''"
  by code_simp+

lemma wire_hub_ok: "tree_ok cp (Suc n) (wire_hub_tree w)"
  by (simp add: wire_hub_tree_def)

lemma wire_hub_back:
  "dec_struct dec_wire_hub (json_print Compact d (wire_hub_tree w)) zero_wire_hub = (repair_wire w, True)"
proof -
  have "tree_ok True (Suc 0) (wire_hub_tree w)" by (rule wire_hub_ok)
  note p = dec_struct_print [OF this [unfolded wire_hub_tree_def] _ three_max(4), of Compact dec_wire_hub d zero_wire_hub]
  show ?thesis
    unfolding wire_hub_tree_def
    by (subst p) (simp_all add: dec_wire_hub_def zero_wire_hub_def field_def dec_enc_str repair_wire_def)
qed

lemma wire_list_back:
  "json_unmarshal (dec_slice (dec_struct dec_wire_hub) zero_wire_hub) [] (the (go_js_wire ws)) = (map repair_wire ws, True)"
proof -
  have l: "list_all (\<lambda>w. tree_ok True (Suc 0) (wire_hub_tree w)) ws" by (simp add: list_all_iff wire_hub_ok)
  then have t: "tree_ok True (Suc (Suc 0)) (JArr (map wire_hub_tree ws))" by (simp add: list_all_iff)
  have "json_unmarshal (dec_slice (dec_struct dec_wire_hub) zero_wire_hub) [] (the (go_js_wire ws)) =
      dec_slice (dec_struct dec_wire_hub) zero_wire_hub (json_print Compact 0 (JArr (map wire_hub_tree ws))) []"
    unfolding go_js_wire_def json_marshal_def option.sel
    by (rule unmarshal_print [OF t _ three_max(3)]) simp
  also have "\<dots> = (map repair_wire ws, True)"
  proof (cases "ws = []")
    case True
    have "tree_ok True (Suc 0) (JArr [])" by simp
    from array_parts [OF this _ three_max(4), of Compact 0] True show ?thesis by (simp add: dec_slice_def)
  next
    case False
    with dec_enc_slice [OF l _ three_max(3), of Compact "dec_struct dec_wire_hub" 0 zero_wire_hub repair_wire]
    show ?thesis by (simp add: enc_slice_def wire_hub_back del: json_print.simps)
  qed
  finally show ?thesis .
qed

lemma map_eq_list_all2: "map f xs = map f ys \<longleftrightarrow> list_all2 (\<lambda>x y. f x = f y) xs ys"
  by (induction xs arbitrary: ys) (auto simp: list_all2_Cons1 map_eq_Cons_conv)

subsection \<open>Properties\<close>

text \<open>
  C36: An install keeps its identity, down to the text of the file: what the first
  \<open>LoadOrCreateIdentity\<close> creates on a disk that works, and writes as indented JSON with hex keys, is
  what every later call reads and returns, whatever name it is given and whatever the random
  source holds then (only an empty name is filled in). The name must be UTF-8, because JSON
  replaces other bytes.
\<close>

theorem identity_file_persists:
  assumes "d (IdentityPath home) = None" "GenerateIdentity C (Some e) (Some x) name = Inr i"
    and "length e = 64" "length x = 32" "length (ed_public C e) = 32"
    and "length (x_public C (clamp x)) = 32" "valid_utf8 (id_name i)"
  shows "case LoadOrCreateIdentity C go_identity_json True disk_write (Some e) (Some x) d home name of (r, d') \<Rightarrow>
    r = Inr i \<and>
    fst (LoadOrCreateIdentity C go_identity_json True wr ea xa d' home nm) =
      Inr (if id_name i = [] then i\<lparr>id_name := nm\<rparr> else i)"
  using assms by (intro identity_persists ident_json_go)

theorem identity_file_persists_witness:
  "id_name (projr (fst (LoadOrCreateIdentity demo_crypto go_identity_json True disk_write None None
     (snd (LoadOrCreateIdentity demo_crypto go_identity_json True disk_write
        (Some (replicate 64 7)) (Some (replicate 32 9)) (\<lambda>p. None) ''h'' ''ala'')) ''h'' ''ola''))) = ''ala''"
proof -
  let ?e = "replicate 64 7 :: bytes" and ?x = "replicate 32 9 :: bytes"
  obtain i where i: "GenerateIdentity demo_crypto (Some ?e) (Some ?x) ''ala'' = Inr i" and name: "id_name i = ''ala''"
    by (simp add: GenerateIdentity_def Let_def demo_crypto_def)
  have "valid_utf8 (id_name i)" by (simp add: name valid_utf8_ascii is_ascii_def)
  with identity_file_persists [where C = demo_crypto and wr = disk_write
      and ea = None and xa = None and home = "''h''" and nm = "''ola''", OF _ i, of "\<lambda>p. None"]
  show ?thesis
    using name by (auto simp: demo_crypto_def split: prod.splits)
qed

fun op_text_ok :: "queue_op \<Rightarrow> bool" where
  "op_text_ok (Push (Some e)) = env_text_ok e"
| "op_text_ok _ = True"

definition items_text_ok :: "envelope option list \<Rightarrow> bool" where
  "items_text_ok xs \<longleftrightarrow> list_all (\<lambda>x. case x of None \<Rightarrow> True | Some e \<Rightarrow> env_text_ok e) xs"

lemma step_items_ok:
  "items_text_ok (q_items (fst s)) \<Longrightarrow> op_text_ok x \<Longrightarrow> items_text_ok (q_items (fst (queue_step J wr s x)))"
proof (cases x)
  case (Push e)
  assume "items_text_ok (q_items (fst s))" "op_text_ok x"
  then have "items_text_ok (q_items (fst s) @ [e])"
    using Push by (cases e) (simp_all add: items_text_ok_def)
  then show ?thesis
    using Push by (cases s) (auto simp: q_push_def Let_def items_text_ok_def list_all_iff dest: in_set_dropD)
next
  case PopAll
  then show ?thesis by (cases s) (simp add: q_pop_all_def Let_def items_text_ok_def)
qed

interpretation qtext: stepper "\<lambda>s x. if op_text_ok x then queue_step J wr s x else s" "\<lambda>s. items_text_ok (q_items (fst s))"
  for J wr
  by unfold_locales (simp add: step_items_ok)

lemma run_items_ok:
  assumes "items_text_ok (q_items (fst s))" "list_all op_text_ok ops"
  shows "items_text_ok (q_items (fst (foldl (queue_step J wr) s ops)))"
proof -
  have "foldl (queue_step J wr) s ops = foldl (\<lambda>s x. if op_text_ok x then queue_step J wr s x else s) s ops"
    using assms(2) by (induction ops arbitrary: s) simp_all
  then show ?thesis using qtext.run_inv [OF assms(1), of J wr ops] by simp
qed

text \<open>
  C25: A crash loses nothing that was queued: after any operations on a queue with a file, on a
  disk that works, opening the file again with the same limit gives the same queue, through the
  indented JSON text that the code writes. The envelopes must have UTF-8 identifiers and types,
  which every sealed envelope has.
\<close>

theorem queue_file_survives:
  assumes "q_path (fst s) \<noteq> []" "ops \<noteq> []" "0 < q_max (fst s)"
    and "items_text_ok (q_items (fst s))" "list_all op_text_ok ops"
  shows "open_queue go_queue_json (snd (foldl (queue_step go_queue_json disk_write) s ops)) (q_path (fst s))
      (int (q_max (fst s))) = fst (foldl (queue_step go_queue_json disk_write) s ops)"
  using run_items_ok [OF assms(4,5), of go_queue_json disk_write]
  by (intro queue_survives_restart assms(1-3) items_back_ok) (simp add: items_text_ok_def)

theorem queue_file_survives_witness:
  "q_items (open_queue go_queue_json
      (snd (foldl (queue_step go_queue_json disk_write)
         (\<lparr>q_path = ''q'', q_max = 1, q_items = []\<rparr>, \<lambda>p. None)
         [Push None, Push (Some demo_envelope)])) ''q'' 1) = [Some demo_envelope]"
proof -
  let ?s = "(\<lparr>q_path = ''q'', q_max = 1, q_items = []\<rparr>, (\<lambda>p. None) :: disk)"
  let ?ops = "[Push None, Push (Some demo_envelope)]"
  have "env_text_ok demo_envelope"
    by (simp add: env_text_ok_def demo_envelope_def valid_utf8_ascii is_ascii_def)
  then have "open_queue go_queue_json (snd (foldl (queue_step go_queue_json disk_write) ?s ?ops)) (q_path (fst ?s))
      (int (q_max (fst ?s))) = fst (foldl (queue_step go_queue_json disk_write) ?s ?ops)"
    by (intro queue_file_survives) (simp_all add: items_text_ok_def)
  then show ?thesis by (simp add: push_items lastn_def)
qed

text \<open>
  C31: The signature on a community list covers what a spoke will use of it: two lists with the
  same signed text agree hub by hub, in order, on name, keys, addresses, port and cloud flag
  (in strings that are UTF-8; in others up to the bytes that JSON replaces).
\<close>

theorem canonical_hubs_determine:
  assumes "js_wire J = go_js_wire" "canonicalHubs J hs = canonicalHubs J ks"
  shows "list_all2 (\<lambda>h k. ch_ed h = ch_ed k \<and> ch_x h = ch_x k \<and> ch_port h = ch_port k \<and> ch_cloud h = ch_cloud k \<and>
       repair (ch_name h) = repair (ch_name k) \<and> repair (ch_v6 h) = repair (ch_v6 k) \<and>
       repair (ch_v4 h) = repair (ch_v4 k)) hs ks"
proof -
  have "go_js_wire (map wire_of hs) = go_js_wire (map wire_of ks)"
    using assms by (simp add: canonicalHubs_def)
  then have "map repair_wire (map wire_of hs) = map repair_wire (map wire_of ks)"
    using wire_list_back [of "map wire_of hs"] wire_list_back [of "map wire_of ks"] by simp
  then have "list_all2 (\<lambda>h k. repair_wire (wire_of h) = repair_wire (wire_of k)) hs ks"
    by (simp add: comp_def map_eq_list_all2)
  then show ?thesis
  proof (rule list_all2_mono)
    fix h k assume "repair_wire (wire_of h) = repair_wire (wire_of k)"
    moreover have "repair (mustHex b) = mustHex b" for b
      using valid_hex [of b] by (simp add: mustHex_def valid_utf8_def)
    ultimately show "ch_ed h = ch_ed k \<and> ch_x h = ch_x k \<and> ch_port h = ch_port k \<and> ch_cloud h = ch_cloud k \<and>
        repair (ch_name h) = repair (ch_name k) \<and> repair (ch_v6 h) = repair (ch_v6 k) \<and> repair (ch_v4 h) = repair (ch_v4 k)"
      by (simp add: repair_wire_def wire_of_def)
  qed
qed

definition demo_wire_json :: community_json where
  "demo_wire_json = \<lparr>js_wire = go_js_wire, js_community = (\<lambda>f. None), un_community = (\<lambda>b. None)\<rparr>"

theorem canonical_hubs_determine_witness:
  "list_all2 (\<lambda>h k. ch_ed h = ch_ed k \<and> ch_x h = ch_x k \<and> ch_port h = ch_port k \<and> ch_cloud h = ch_cloud k \<and>
       repair (ch_name h) = repair (ch_name k) \<and> repair (ch_v6 h) = repair (ch_v6 k) \<and>
       repair (ch_v4 h) = repair (ch_v4 k)) [demo_target] [demo_target\<lparr>ch_rtt := 7\<rparr>]"
  by (rule canonical_hubs_determine [of demo_wire_json])
    (simp_all add: demo_wire_json_def canonicalHubs_def wire_of_def)

end
