(* ===== verification/Mesh_Delivery.thy ===== *)
theory Mesh_Delivery
  imports Store_JSON
begin

section \<open>Delivery through the mesh, on bytes\<close>

text \<open>
  A message from one spoke to another crosses one or more hubs. Here the components meet with the
  program's own JSON: the sending spoke seals and marshals, \<open>WriteFrame\<close> frames, every hub reads
  the frame, verifies, marks the identifier as seen, picks the session and marshals again, and the
  receiving spoke reads the last frame, opens the envelope and shows the text. The path is a list
  of hops; each is a hub in the state it is in when the frame arrives.
\<close>

record hop =
  hop_hub :: server
  hop_clocks :: clocks
  hop_in :: sref
  hop_out :: sref

text \<open>
  The hub takes the frame from the session \<open>hop_in\<close> and answers with exactly one message, which
  goes to \<open>hop_out\<close>; that message, framed, is what the next hop reads.
\<close>

fun relay :: "crypto \<Rightarrow> hop list \<Rightarrow> bytes \<Rightarrow> bytes option" where
  "relay C [] b = Some b"
| "relay C (h # hs) b =
     (case read_frame go_json b of
        (Inr m, []) \<Rightarrow>
          (case snd (hub_handle go_json C (Deliver (hop_clocks h) (hop_in h) None m) (hop_hub h)) of
             [(r, m')] \<Rightarrow>
               (if r = hop_out h
                then (case write_frame go_json buffer_write [] m' of
                        (b', None) \<Rightarrow> relay C hs b' | _ \<Rightarrow> None)
                else None)
           | _ \<Rightarrow> None)
      | _ \<Rightarrow> None)"

text \<open>
  A hop that has a way on: it has not seen the identifier, and the addressee is one of its spokes,
  or gossip names a connected hub for it that is not where the frame came from.
\<close>

definition hop_leads :: "string \<Rightarrow> string \<Rightarrow> hop \<Rightarrow> bool" where
  "hop_leads k i h \<longleftrightarrow>
     map_of (srv_seen (hop_hub h)) i = None \<and>
     (map_of (srv_spokes (hop_hub h)) k = Some (hop_out h) \<or>
      map_of (srv_spokes (hop_hub h)) k = None \<and> next_hop (hop_hub h) k = Some (hop_out h) \<and> hop_out h \<noteq> hop_in h)"

lemma capture_hub_tables [simp]:
  "srv_hubs (capture_dump d s) = srv_hubs s" "srv_where (capture_dump d s) = srv_where s"
  by (simp_all add: capture_dump_def split: option.split)

lemma hop_forwards:
  assumes "envelope_message go_json m e" "env_verify C e = None" "hop_leads (mustHex (env_to e)) (env_id e) h"
  shows "snd (hub_handle go_json C (Deliver ck (hop_in h) None m) (hop_hub h)) =
    [(hop_out h, msgOf TypeEnvelope (js_envelope go_json e))]"
  using assms(2,3)
  by (auto simp: onMsg_envelope [OF assms(1)] forward_new hop_leads_def route_targets_def next_hop_def Let_def
      simp del: go_json_sel split: option.splits)

lemma sealed_message:
  assumes "env_text_ok e"
  shows "envelope_message go_json (msgOf TypeEnvelope (js_envelope go_json e)) e"
  using un_js_envelope [of e] assms
  by (simp add: envelope_message_def env_text_ok_def valid_utf8_def del: go_json_sel)

lemma envelope_frame:
  assumes "length (the (js_message go_json (msgOf TypeEnvelope (js_envelope go_json e)))) \<le> MaxFrame"
  shows "write_frame go_json buffer_write [] (msgOf TypeEnvelope (js_envelope go_json e)) =
      (frame go_json (msgOf TypeEnvelope (js_envelope go_json e)), None)"
    "read_frame go_json (frame go_json (msgOf TypeEnvelope (js_envelope go_json e))) =
      (Inr (msgOf TypeEnvelope (js_envelope go_json e)), [])"
proof -
  have "json_message_ok go_json (msgOf TypeEnvelope (js_envelope go_json e))"
    using packet_message_ok [of "EnvelopePacket e"] by simp
  from write_frame_buffer [OF this assms, of "[]"] read_frame_frame [OF this assms, of "[]"]
  show "write_frame go_json buffer_write [] (msgOf TypeEnvelope (js_envelope go_json e)) =
      (frame go_json (msgOf TypeEnvelope (js_envelope go_json e)), None)"
    "read_frame go_json (frame go_json (msgOf TypeEnvelope (js_envelope go_json e))) =
      (Inr (msgOf TypeEnvelope (js_envelope go_json e)), [])"
    by simp_all
qed

lemma relay_path:
  assumes "env_text_ok e" "env_verify C e = None" "list_all (hop_leads (mustHex (env_to e)) (env_id e)) hs"
    and len: "length (the (js_message go_json (msgOf TypeEnvelope (js_envelope go_json e)))) \<le> MaxFrame"
  shows "relay C hs (frame go_json (msgOf TypeEnvelope (js_envelope go_json e))) =
    Some (frame go_json (msgOf TypeEnvelope (js_envelope go_json e)))"
  using assms(3)
proof (induction hs)
  case (Cons h hs)
  then have "hop_leads (mustHex (env_to e)) (env_id e) h" by simp
  from hop_forwards [OF sealed_message [OF assms(1)] assms(2) this, of "hop_clocks h"] Cons
  show ?case by (simp add: envelope_frame [OF len] del: go_json_sel hub_handle.simps)
qed simp

text \<open>The last hop: a verified envelope whose sender has a box key on record is shown.\<close>

lemma spoke_shows:
  assumes E: "go_env E" and e: "env_text_ok e" "env_verify (en_crypto E) e = None" "env_to e = id_ed_pub (sp_id b)"
    and known: "map_of (sp_peers b) (mustHex (env_from e)) = Some p" "pi_x p \<noteq> zero32"
    and op: "open_env (en_crypto E) (sp_id b) (pi_x p) e = Inr (go_js_chat box)"
  shows "snd (spoke_read E now dump (msgOf TypeEnvelope (js_envelope go_json e)) b) =
    [Show (Fingerprint (env_from e)) (repair (cb_name box)) (repair (cb_text box))]"
proof -
  define u where "u = (if sc_capture (sp_cfg b) then b\<lparr>sp_dump := dump\<rparr> else b)"
  have u: "sp_id u = sp_id b" "sp_peers u = sp_peers b" by (simp_all add: u_def)
  have J: "en_json E = go_json" "un_chat E = go_un_chat" using E by (simp_all add: go_env_def)
  have "un_envelope go_json (js_envelope go_json e) = Some e"
    using sealed_message [OF e(1)] by (simp add: envelope_message_def)
  then have "spoke_read E now dump (msgOf TypeEnvelope (js_envelope go_json e)) b = handleEnvelope E e u"
    by (simp add: spoke_read_def type_consts Let_def J u_def del: go_json_sel)
  then show ?thesis
    using e(2) by (simp add: handleEnvelope_def tryOpen_def u e(3) known op J chat_back Let_def)
qed

text \<open>
  C1: End to end: a text that one connected spoke sends to another reaches it through any chain of
  hubs that leads there. The spoke writes one frame; each hub on the way sends exactly one message,
  to the next session and to no one else, and puts the same bytes on the wire; the addressee, which
  has the sender's box key on record, shows the text under the sender's name and fingerprint.
  Bytes of the text or the name that are not UTF-8 arrive as the replacement character.
\<close>

theorem mesh_delivery:
  assumes C: "sign_correct (en_crypto E)" "box_correct (en_crypto E)" "\<And>p m. length (ed_sign (en_crypto E) p m) = 64"
    and E: "go_env E" and ids: "wf_identity (en_crypto E) (sp_id a)" "wf_identity (en_crypto E) (sp_id b)"
    and up: "sp_sess a \<noteq> None"
    and known: "map_of (sp_peers b) (mustHex (id_ed_pub (sp_id a))) = Some p" "pi_x p = id_x_pub (sp_id a)"
      "id_x_pub (sp_id a) \<noteq> zero32"
    and len: "length (go_js_chat \<lparr>cb_text = body, cb_name = id_name (sp_id a), cb_x = id_x_pub (sp_id a)\<rparr>) \<le> max_plaintext"
    and rnd: "length n = nonce_size" "length i = 16" "ts \<noteq> 0"
    and path: "list_all (hop_leads (mustHex (id_ed_pub (sp_id b))) (hex_encode i)) hs"
  shows "\<exists>m w. spoke_send E (Some n) (Some i) ts True (id_ed_pub (sp_id b)) (id_x_pub (sp_id b)) body a = (None, a, [ToHub m]) \<and>
    write_frame go_json buffer_write [] m = (w, None) \<and>
    relay (en_crypto E) hs w = Some w \<and>
    read_frame go_json w = (Inr m, []) \<and>
    snd (spoke_read E now dump m b) =
      [Show (Fingerprint (id_ed_pub (sp_id a))) (repair (id_name (sp_id a))) (repair body)]"
proof -
  let ?C = "en_crypto E" and ?box = "\<lparr>cb_text = body, cb_name = id_name (sp_id a), cb_x = id_x_pub (sp_id a)\<rparr>"
  have J: "en_json E = go_json" "js_chat E = go_js_chat" "un_chat E = go_un_chat" using E by (simp_all add: go_env_def)
  define e where "e = env_sign ?C (id_ed_priv (sp_id a))
    \<lparr>env_id = hex_encode i, env_from = id_ed_pub (sp_id a), env_to = id_ed_pub (sp_id b), env_ts = ts, env_type = EnvChat,
     env_sig = [], env_ciphertext = n @ box_seal ?C (go_js_chat ?box) n (id_x_pub (sp_id b)) (id_x_priv (sp_id a))\<rparr>"
  let ?m = "msgOf TypeEnvelope (js_envelope go_json e)"
  have sl: "seal ?C (Some n) (Some i) ts (sp_id a) (id_x_pub (sp_id b)) (id_ed_pub (sp_id b)) EnvChat (go_js_chat ?box) = Inr e"
    using len by (simp add: seal_def e_def Let_def)
  have v: "env_verify ?C e = None"
    by (rule seal_verifies [OF C(1,2) ids rnd(3) _ sl]) (use rnd(1) in simp)
  have sel: "env_id e = hex_encode i" "env_from e = id_ed_pub (sp_id a)" "env_to e = id_ed_pub (sp_id b)"
    "env_ciphertext e = n @ box_seal ?C (go_js_chat ?box) n (id_x_pub (sp_id b)) (id_x_priv (sp_id a))"
    by (simp_all add: e_def env_sign_def)
  have x: "id_x_pub (sp_id a) = x_public ?C (id_x_priv (sp_id a))" "id_x_pub (sp_id b) = x_public ?C (id_x_priv (sp_id b))"
    and ed: "length (id_ed_pub (sp_id a)) = 32" "length (id_ed_pub (sp_id b)) = 32"
    using ids unfolding wf_identity_def by blast+
  then have "box_open ?C (box_seal ?C (go_js_chat ?box) n (id_x_pub (sp_id b)) (id_x_priv (sp_id a))) n
      (id_x_pub (sp_id a)) (id_x_priv (sp_id b)) = Some (go_js_chat ?box)"
    using C(2) unfolding box_correct_def by metis
  then have op: "open_env ?C (sp_id b) (id_x_pub (sp_id a)) e = Inr (go_js_chat ?box)"
    using rnd(1) by (simp add: open_env_def v sel Let_def)
  have tx: "env_text_ok e" by (rule sealed_text_ok [OF sl])
  have "length (the (js_message go_json ?m)) \<le> 65536"
    using C(3) rnd(1,2) ed by (intro sealed_fits [OF sl C(2) x(2)]) (simp_all add: EnvChat_def)
  then have fits: "length (the (js_message go_json ?m)) \<le> MaxFrame" by (simp add: MaxFrame_def)
  have "spoke_send E (Some n) (Some i) ts True (id_ed_pub (sp_id b)) (id_x_pub (sp_id b)) body a = (None, a, [ToHub ?m])"
    using up sl by (auto simp: spoke_send_def J)
  moreover have "relay ?C hs (frame go_json ?m) = Some (frame go_json ?m)"
    by (rule relay_path [OF tx v _ fits]) (use path sel in simp)
  moreover have "snd (spoke_read E now dump ?m b) =
      [Show (Fingerprint (id_ed_pub (sp_id a))) (repair (id_name (sp_id a))) (repair body)]"
    using spoke_shows [OF E tx v, of b p ?box now dump] known op by (simp add: sel)
  ultimately show ?thesis using envelope_frame [OF fits] by blast
qed

definition demo_mesh_env :: spoke_env where
  "demo_mesh_env = demo_spoke_env\<lparr>en_crypto := demo_crypto64, en_json := go_json, en_queue := go_queue_json,
     js_chat := go_js_chat, un_chat := go_un_chat, un_gossip_part := go_un_gossip_part\<rparr>"

definition demo_way :: "hop list" where
  "demo_way =
     [\<lparr>hop_hub = demo_hub_server\<lparr>srv_spokes := [], srv_where := [(mustHex (replicate 32 2), mustHex (replicate 32 7))]\<rparr>,
       hop_clocks = demo_clocks, hop_in = 1, hop_out = 2\<rparr>,
      \<lparr>hop_hub = demo_hub_server, hop_clocks = demo_clocks, hop_in = 2, hop_out = 0\<rparr>]"

theorem mesh_delivery_witness:
  "\<exists>m w. spoke_send demo_mesh_env (Some (replicate 24 9)) (Some (replicate 16 1)) 5 True (replicate 32 2) (replicate 32 2) ''hi''
        (demo_online\<lparr>sp_id := demo_identity 1\<rparr>) = (None, demo_online\<lparr>sp_id := demo_identity 1\<rparr>, [ToHub m]) \<and>
    write_frame go_json buffer_write [] m = (w, None) \<and>
    relay demo_crypto64 demo_way w = Some w \<and>
    read_frame go_json w = (Inr m, []) \<and>
    snd (spoke_read demo_mesh_env 6 [] m demo_online) = [Show (Fingerprint (replicate 32 1)) (repair ''demo'') (repair ''hi'')]"
proof -
  let ?a = "demo_online\<lparr>sp_id := demo_identity 1\<rparr>"
  let ?p = "\<lparr>pi_ed = replicate 32 1, pi_x = replicate 32 1, pi_name = ''demo''\<rparr>"
  have ids: "sp_id demo_online = demo_identity 2" "sp_id ?a = demo_identity 1"
    "id_ed_pub (demo_identity k) = replicate 32 k" "id_x_pub (demo_identity k) = replicate 32 k" "id_name (demo_identity k) = ''demo''" for k
    by (simp_all add: demo_online_def demo_spoke_sel demo_identity_def)
  have E: "en_crypto demo_mesh_env = demo_crypto64" "go_env demo_mesh_env"
    by (simp_all add: demo_mesh_env_def go_env_def)
  have p: "map_of (sp_peers demo_online) (mustHex (replicate 32 1)) = Some ?p" "sp_sess ?a \<noteq> None"
    by (simp_all add: demo_online_def)
  have l: "length (go_js_chat \<lparr>cb_text = ''hi'', cb_name = ''demo'', cb_x = replicate 32 1\<rparr>) \<le> max_plaintext" by code_simp
  have w: "list_all (hop_leads (mustHex (replicate 32 2)) (hex_encode (replicate 16 1))) demo_way"
    by (simp add: demo_way_def hop_leads_def demo_spokes next_hop_def)
  from mesh_delivery [where E = demo_mesh_env and a = ?a and b = demo_online and n = "replicate 24 9" and i = "replicate 16 1"
      and ts = 5 and now = 6 and dump = "[]" and hs = demo_way and body = "''hi''" and p = ?p]
  show ?thesis
    unfolding ids E using E demo_crypto64_ok p l w
    by (simp add: nonce_size_def zero32_def replicate_neq)
qed

subsection \<open>Greeting on the wire\<close>

text \<open>A signature for one text that does not pass for a given other one.\<close>

definition sign_binds :: "crypto \<Rightarrow> bytes \<Rightarrow> bytes \<Rightarrow> bytes \<Rightarrow> bool" where
  "sign_binds C priv m m' \<longleftrightarrow> (ed_verify C (ed_public C priv) m' (ed_sign C priv m) \<longrightarrow> m' = m)"

definition hello_utf8 :: "hello \<Rightarrow> bool" where
  "hello_utf8 h \<longleftrightarrow> list_all valid_utf8 [hel_role h, hel_name h, hel_v6 h, hel_v4 h]"

lemma hello_read_verifies:
  assumes C: "sign_correct C" "hel_ed h = ed_public C priv" "length (hel_ed h) = 32"
    and binds: "\<And>h'. un_hello go_json (js_hello go_json (hello_sign C priv h)) = Some h' \<Longrightarrow>
      sign_binds C priv (helloSignedBytes h) (helloSignedBytes h')"
  obtains h' where "un_hello go_json (js_hello go_json (hello_sign C priv h)) = Some h'" "hello_verify C h' \<longleftrightarrow> hello_utf8 h"
proof -
  obtain h' where h': "un_hello go_json (js_hello go_json (hello_sign C priv h)) = Some h'" "hel_ed h' = hel_ed h"
    "hel_sig h' = ed_sign C priv (helloSignedBytes h)" "helloSignedBytes h' = helloSignedBytes h \<longleftrightarrow> hello_utf8 h"
    using hello_signature_travels [of C priv h] by (auto simp: hello_utf8_def)
  have "ed_verify C (hel_ed h) (helloSignedBytes h') (hel_sig h') \<longleftrightarrow> helloSignedBytes h' = helloSignedBytes h"
    using binds [OF h'(1)] C(1,2) h'(3) by (auto simp: sign_binds_def sign_correct_def)
  then have "hello_verify C h' \<longleftrightarrow> hello_utf8 h" using h'(2,4) C(3) by (simp add: hello_verify_def)
  with h'(1) that show thesis by blast
qed

text \<open>
  C24: A hello is signed over the raw bytes of its strings but travels as JSON, which can only carry
  UTF-8. A hub registers whoever greets it with a hello signed by the key it names (and takes the answer)
  when every string of the hello is valid UTF-8, and refuses the greeting, its state unchanged, when one is not: a spoke
  or hub whose name is not UTF-8 (the code takes it from the command line as it is) is refused by every
  hub, although it did everything right. Assumed is only that the signature does not also pass for the
  text that JSON makes of the signed one.
\<close>

theorem greeting_needs_utf8:
  assumes "sign_correct C" "hel_ed h = ed_public C priv" "length (hel_ed h) = 32" "ty \<in> {TypeHello, TypePeerHello}"
    and "\<And>h'. un_hello go_json (js_hello go_json (hello_sign C priv h)) = Some h' \<Longrightarrow>
      sign_binds C priv (helloSignedBytes h) (helloSignedBytes h')"
  shows "if hello_utf8 h
    then \<exists>reply s' out. handleConn go_json C now ts remote proto True (Some (msgOf ty (js_hello go_json (hello_sign C priv h)))) s =
      (Registered reply (length (srv_heap s)), s', out)
    else handleConn go_json C now ts remote proto True (Some (msgOf ty (js_hello go_json (hello_sign C priv h)))) s = (Refused, s, [])"
proof -
  obtain h' where h': "un_hello go_json (js_hello go_json (hello_sign C priv h)) = Some h'" "hello_verify C h' \<longleftrightarrow> hello_utf8 h"
    using hello_read_verifies [OF assms(1-3,5)] by blast
  show ?thesis
    using h' assms(4) by (auto simp: handleConn_def Let_def simp del: go_json_sel split: prod.split)
qed

text \<open>Two spokes with the same keys, one with a byte in its name that is not UTF-8.\<close>

theorem greeting_needs_utf8_witness:
  "let greet = (\<lambda>n. fst (handleConn go_json demo_crypto 0 0 None ''quic'' True
      (Some (msgOf TypeHello (js_hello go_json (hello_sign demo_crypto (replicate 64 3) ((spoke_hello demo_crypto 5 (demo_identity 3))\<lparr>hel_name := n\<rparr>)))))
      demo_hub_server))
   in greet ''ala'' \<noteq> Refused \<and> greet [CHR 0xC5] = Refused"
proof -
  let ?h = "\<lambda>n. (spoke_hello demo_crypto 5 (demo_identity 3))\<lparr>hel_name := n\<rparr>"
  have ed: "hel_ed (?h n) = ed_public demo_crypto (replicate 64 3)" "length (hel_ed (?h n)) = 32" for n
    by (simp_all add: spoke_hello_def demo_identity_def demo_crypto_def)
  have binds: "sign_binds demo_crypto (replicate 64 3) m m'" for m m'
    by (simp add: sign_binds_def demo_crypto_def)
  have u: "hello_utf8 (?h ''ala'')" "\<not> hello_utf8 (?h [CHR 0xC5])"
    unfolding hello_utf8_def spoke_hello_def RoleSpoke_def by (simp_all add: demo_identity_def) code_simp+
  note t = greeting_needs_utf8 [where ty = TypeHello and now = 0 and ts = 0 and remote = None and proto = "''quic''" and s = demo_hub_server,
      OF demo_crypto_ok(1) ed(1) ed(2) _ binds]
  from t [of "''ala''"] t [of "[CHR 0xC5]"] u
  show ?thesis by (auto simp: Let_def simp del: go_json_sel)
qed

end
