(* ===== verification/Dual_Listener.thy ===== *)
theory Dual_Listener
  imports Hub_Server "HOL-Library.Multiset"
begin

section \<open>Listening on QUIC and TLS (\<open>hub/transport.go\<close>, \<open>hub/server.go\<close>)\<close>

text \<open>
  \<open>StartDual\<close> runs an accept loop for QUIC, one for TCP with TLS and one goroutine per QUIC
  connection that waits for its stream; all of them hand framed connections to a channel with 16
  places, which \<open>acceptLoop\<close> of the hub empties. The goroutines are a step system: an event is one
  step of one of them, enabled by the condition its code waits for, and a \<open>select\<close> with two ready
  cases is two enabled events. Connections are numbered in the order in which they are accepted.
\<close>

subsection \<open>The state of a listener\<close>

record dual_conn =
  dc_id :: nat
  dc_proto :: string
  dc_capture :: bool

datatype close_call = CloseWithError nat string | CloseStream | CloseTls

text \<open>
  The stages of a connection: a QUIC goroutine in \<open>AcceptStream\<close> (\<open>dl_streams\<close>) or at its \<open>select\<close>
  (\<open>dl_ready\<close>), the TCP loop at its \<open>select\<close> (\<open>dl_hold\<close>), the channel (\<open>dl_conns\<close>), handed to
  \<open>handleConn\<close> (\<open>dl_taken\<close>), closed by the listener (\<open>dl_closed\<close>). \<open>dl_done\<close> is the cancelled context.
\<close>

record listener =
  dl_capture :: bool
  dl_next :: nat
  dl_streams :: "nat list"
  dl_ready :: "nat list"
  dl_hold :: "nat option"
  dl_conns :: "dual_conn list"
  dl_taken :: "dual_conn list"
  dl_closed :: "(nat \<times> close_call) list"
  dl_quic_loop :: bool
  dl_tcp_loop :: bool
  dl_accept_loop :: bool
  dl_open :: bool
  dl_done :: bool

definition conn_places :: nat where "conn_places = 16"

text \<open>\<open>StartDual\<close>: nothing when \<open>quic.Listen\<close> fails; without a TCP listener only the QUIC loop runs.\<close>

definition StartDual :: "bool \<Rightarrow> bool \<Rightarrow> bool \<Rightarrow> listener option" where
  "StartDual quic_ok tcp capture =
     (if \<not> quic_ok then None
      else Some \<lparr>dl_capture = capture, dl_next = 0, dl_streams = [], dl_ready = [], dl_hold = None, dl_conns = [],
        dl_taken = [], dl_closed = [], dl_quic_loop = True, dl_tcp_loop = tcp, dl_accept_loop = True, dl_open = True, dl_done = False\<rparr>)"

subsection \<open>The steps of the goroutines\<close>

datatype dl_event =
    QuicAccept bool
  | StreamAccepted nat bool
  | QuicSend nat
  | QuicStop nat
  | TcpAccept bool
  | TcpSend
  | TcpStop
  | HandOut
  | AcceptEnds
  | Stop
  | CloseSockets

definition quic_conn :: "listener \<Rightarrow> nat \<Rightarrow> dual_conn" where
  "quic_conn s c = \<lparr>dc_id = c, dc_proto = ''quic'', dc_capture = dl_capture s\<rparr>"

definition tls_conn :: "listener \<Rightarrow> nat \<Rightarrow> dual_conn" where
  "tls_conn s c = \<lparr>dc_id = c, dc_proto = ''tls'', dc_capture = dl_capture s\<rparr>"

fun dl_enabled :: "listener \<Rightarrow> dl_event \<Rightarrow> bool" where
  "dl_enabled s (QuicAccept ok) \<longleftrightarrow> dl_quic_loop s \<and> (ok \<longrightarrow> dl_open s)"
| "dl_enabled s (StreamAccepted c ok) \<longleftrightarrow> c \<in> set (dl_streams s)"
| "dl_enabled s (QuicSend c) \<longleftrightarrow> c \<in> set (dl_ready s) \<and> length (dl_conns s) < conn_places"
| "dl_enabled s (QuicStop c) \<longleftrightarrow> c \<in> set (dl_ready s) \<and> dl_done s"
| "dl_enabled s (TcpAccept ok) \<longleftrightarrow> dl_tcp_loop s \<and> dl_hold s = None \<and> (ok \<longrightarrow> dl_open s)"
| "dl_enabled s TcpSend \<longleftrightarrow> dl_hold s \<noteq> None \<and> length (dl_conns s) < conn_places"
| "dl_enabled s TcpStop \<longleftrightarrow> dl_hold s \<noteq> None \<and> dl_done s"
| "dl_enabled s HandOut \<longleftrightarrow> dl_accept_loop s \<and> dl_conns s \<noteq> []"
| "dl_enabled s AcceptEnds \<longleftrightarrow> dl_accept_loop s \<and> dl_done s"
| "dl_enabled s Stop \<longleftrightarrow> True"
| "dl_enabled s CloseSockets \<longleftrightarrow> dl_done s \<and> dl_open s"

fun dl_effect :: "listener \<Rightarrow> dl_event \<Rightarrow> listener" where
  "dl_effect s (QuicAccept ok) =
     (if ok then s\<lparr>dl_next := Suc (dl_next s), dl_streams := dl_streams s @ [dl_next s]\<rparr> else s\<lparr>dl_quic_loop := False\<rparr>)"
| "dl_effect s (StreamAccepted c ok) =
     (let s1 = s\<lparr>dl_streams := remove1 c (dl_streams s)\<rparr> in
      if ok then s1\<lparr>dl_ready := dl_ready s @ [c]\<rparr> else s1\<lparr>dl_closed := dl_closed s @ [(c, CloseWithError 1 ''stream'')]\<rparr>)"
| "dl_effect s (QuicSend c) = s\<lparr>dl_ready := remove1 c (dl_ready s), dl_conns := dl_conns s @ [quic_conn s c]\<rparr>"
| "dl_effect s (QuicStop c) =
     s\<lparr>dl_ready := remove1 c (dl_ready s), dl_closed := dl_closed s @ [(c, CloseWithError 0 ''stop'')]\<rparr>"
| "dl_effect s (TcpAccept ok) =
     (if ok then s\<lparr>dl_next := Suc (dl_next s), dl_hold := Some (dl_next s)\<rparr> else s\<lparr>dl_tcp_loop := False\<rparr>)"
| "dl_effect s TcpSend =
     (case dl_hold s of None \<Rightarrow> s | Some c \<Rightarrow> s\<lparr>dl_hold := None, dl_conns := dl_conns s @ [tls_conn s c]\<rparr>)"
| "dl_effect s TcpStop =
     (case dl_hold s of None \<Rightarrow> s
      | Some c \<Rightarrow> s\<lparr>dl_hold := None, dl_closed := dl_closed s @ [(c, CloseTls)], dl_tcp_loop := False\<rparr>)"
| "dl_effect s HandOut =
     (case dl_conns s of [] \<Rightarrow> s | c # cs \<Rightarrow> s\<lparr>dl_conns := cs, dl_taken := dl_taken s @ [c]\<rparr>)"
| "dl_effect s AcceptEnds = s\<lparr>dl_accept_loop := False\<rparr>"
| "dl_effect s Stop = s\<lparr>dl_done := True\<rparr>"
| "dl_effect s CloseSockets = s\<lparr>dl_open := False\<rparr>"

definition dl_step :: "listener \<Rightarrow> dl_event \<Rightarrow> listener" where
  "dl_step s e = (if dl_enabled s e then dl_effect s e else s)"

text \<open>The calls that closing a framed connection makes: a QUIC connection closes its stream first.\<close>

definition conn_close :: "dual_conn \<Rightarrow> close_call list" where
  "conn_close c = (if dc_proto c = ''quic'' then [CloseStream, CloseWithError 0 ''bye''] else [CloseTls])"

subsection \<open>No connection is lost, duplicated or handed out twice\<close>

text \<open>All connections by stage, and the TLS connections that went into the channel or wait for it, in order.\<close>

definition dl_all :: "listener \<Rightarrow> nat list" where
  "dl_all s = dl_streams s @ dl_ready s @ (case dl_hold s of None \<Rightarrow> [] | Some c \<Rightarrow> [c]) @
     map dc_id (dl_conns s) @ map dc_id (dl_taken s) @ map fst (dl_closed s)"

definition tls_order :: "listener \<Rightarrow> nat list" where
  "tls_order s = map dc_id (filter (\<lambda>c. dc_proto c = ''tls'') (dl_taken s @ dl_conns s)) @
     (case dl_hold s of None \<Rightarrow> [] | Some c \<Rightarrow> [c])"

definition listener_inv :: "listener \<Rightarrow> bool" where
  "listener_inv s \<longleftrightarrow>
     mset (dl_all s) = mset [0..<dl_next s] \<and> length (dl_conns s) \<le> conn_places \<and>
     sorted_wrt (<) (tls_order s) \<and> (\<not> dl_done s \<longrightarrow> dl_accept_loop s) \<and>
     (\<forall>c \<in> set (dl_taken s @ dl_conns s). dc_capture c = dl_capture s \<and> dc_proto c \<in> {''quic'', ''tls''})"

lemma all_stages:
  assumes "mset (dl_all s) = mset [0..<dl_next s]"
  shows "distinct (dl_all s)" "set (dl_all s) = {..<dl_next s}"
proof -
  from assms show "distinct (dl_all s)" by (metis distinct_upt mset_eq_imp_distinct_iff)
  from mset_eq_setD [OF assms] show "set (dl_all s) = {..<dl_next s}" by (simp add: lessThan_atLeast0)
qed

lemma tls_order_all: "set (tls_order s) \<subseteq> set (dl_all s)"
  by (auto simp: tls_order_def dl_all_def)

lemma mset_effect:
  assumes "dl_enabled s e"
  shows "mset (dl_all (dl_effect s e)) =
    (if e = QuicAccept True \<or> e = TcpAccept True then add_mset (dl_next s) (mset (dl_all s)) else mset (dl_all s))"
  using assms
  by (cases e) (auto simp: dl_all_def quic_conn_def tls_conn_def Let_def neq_Nil_conv split: option.splits)

lemma next_effect:
  "dl_next (dl_effect s e) = (if e = QuicAccept True \<or> e = TcpAccept True then Suc (dl_next s) else dl_next s)"
  by (cases e) (auto simp: Let_def split: option.splits list.splits)

lemma tls_order_effect:
  assumes "dl_enabled s e"
  shows "tls_order (dl_effect s e) = tls_order s @ (if e = TcpAccept True then [dl_next s] else []) \<or>
    (e = TcpStop \<and> tls_order s = tls_order (dl_effect s e) @ [the (dl_hold s)])"
  using assms
  by (cases e) (auto simp: tls_order_def quic_conn_def tls_conn_def Let_def neq_Nil_conv split: option.splits)

lemma listener_step_inv: "listener_inv s \<Longrightarrow> listener_inv (dl_step s e)"
proof (cases "dl_enabled s e")
  case True
  assume inv: "listener_inv s"
  then have m: "mset (dl_all s) = mset [0..<dl_next s]" by (simp add: listener_inv_def)
  have places: "length (dl_conns (dl_effect s e)) \<le> conn_places"
    using inv True by (cases e) (auto simp: listener_inv_def Let_def split: option.splits list.splits)
  have loop: "\<not> dl_done (dl_effect s e) \<longrightarrow> dl_accept_loop (dl_effect s e)"
    using inv True by (cases e) (auto simp: listener_inv_def Let_def split: option.splits list.splits)
  have conns: "\<forall>c \<in> set (dl_taken (dl_effect s e) @ dl_conns (dl_effect s e)).
       dc_capture c = dl_capture (dl_effect s e) \<and> dc_proto c \<in> {''quic'', ''tls''}"
    using inv True
    by (cases e) (auto simp: listener_inv_def quic_conn_def tls_conn_def Let_def split: option.splits list.splits)
  have "sorted_wrt (<) (tls_order (dl_effect s e))"
    using tls_order_effect [OF True] inv all_stages(2) [OF m] tls_order_all [of s]
    by (auto simp: listener_inv_def sorted_wrt_append split: if_splits)
  with m places loop conns True show ?thesis
    by (simp add: dl_step_def listener_inv_def mset_effect next_effect del: mset_upt)
qed (simp add: dl_step_def)

lemma start_inv: "StartDual ok tcp cap = Some s \<Longrightarrow> listener_inv s"
  by (auto simp: StartDual_def listener_inv_def dl_all_def tls_order_def conn_places_def split: if_splits)

interpretation dual: stepper dl_step listener_inv
  by unfold_locales (rule listener_step_inv)

text \<open>
  C23: The listener loses nothing and hands out nothing twice. Whatever steps its goroutines take in
  whatever order, every connection accepted so far is in exactly one stage: waiting for its stream,
  waiting for a place, in the channel, handed to the hub or closed. The channel holds at most 16,
  TLS connections come out in the order in which they were accepted, and each carries its protocol
  and the capture setting of the hub.
\<close>

theorem listener_sound:
  assumes "StartDual True tcp cap = Some s0" "s = foldl dl_step s0 es"
  shows "distinct (dl_all s) \<and> set (dl_all s) = {..<dl_next s} \<and> length (dl_conns s) \<le> 16 \<and>
    sorted_wrt (<) (map dc_id (filter (\<lambda>c. dc_proto c = ''tls'') (dl_taken s))) \<and>
    (\<forall>c \<in> set (dl_taken s). dc_capture c = cap \<and> dc_proto c \<in> {''quic'', ''tls''})"
proof -
  have cap: "dl_capture (foldl dl_step t es) = dl_capture t" for t
  proof (induction es arbitrary: t)
    case (Cons e es)
    have "dl_capture (dl_step t e) = dl_capture t"
      by (cases e) (auto simp: dl_step_def Let_def split: option.splits list.splits)
    with Cons show ?case by simp
  qed simp
  have "dl_capture s = cap" unfolding assms(2) cap using assms(1) by (auto simp: StartDual_def)
  moreover have inv: "listener_inv s"
    unfolding assms(2) using start_inv [OF assms(1)] by (rule dual.run_inv)
  ultimately have cap: "\<forall>c \<in> set (dl_taken s). dc_capture c = cap \<and> dc_proto c \<in> {''quic'', ''tls''}"
    by (simp add: listener_inv_def)
  have m: "mset (dl_all s) = mset [0..<dl_next s]" "length (dl_conns s) \<le> 16" "sorted_wrt (<) (tls_order s)"
    using inv unfolding listener_inv_def conn_places_def by blast+
  then have "sorted_wrt (<) (map dc_id (filter (\<lambda>c. dc_proto c = ''tls'') (dl_taken s)))"
    by (simp add: tls_order_def sorted_wrt_append)
  with cap m(2) all_stages [OF m(1)] show ?thesis by blast
qed

text \<open>A QUIC client that is slow to open its stream is overtaken by a TLS client.\<close>

theorem listener_sound_witness:
  "\<exists>s. foldl dl_step (the (StartDual True True False))
        [QuicAccept True, TcpAccept True, TcpSend, StreamAccepted 0 True, QuicSend 0, HandOut, HandOut] = s \<and>
     map dc_id (dl_taken s) = [1, 0] \<and> distinct (dl_all s) \<and> set (dl_all s) = {..<2}"
proof -
  let ?es = "[QuicAccept True, TcpAccept True, TcpSend, StreamAccepted 0 True, QuicSend 0, HandOut, HandOut]"
  define s0 where "s0 = the (StartDual True True False)"
  have s0: "StartDual True True False = Some s0" by (simp add: s0_def StartDual_def)
  have "map dc_id (dl_taken (foldl dl_step s0 ?es)) = [1, 0]" "dl_next (foldl dl_step s0 ?es) = 2"
    by (simp_all add: s0_def StartDual_def dl_step_def quic_conn_def tls_conn_def conn_places_def)
  with listener_sound [OF s0 refl, of ?es] show ?thesis unfolding s0 option.sel by metis
qed

subsection \<open>Every connection that is ready reaches the hub\<close>

text \<open>The steps that move connections on, and how many of them the waiting connections still need.\<close>

fun dl_moves :: "dl_event \<Rightarrow> bool" where
  "dl_moves (QuicSend c) = True" | "dl_moves TcpSend = True" | "dl_moves HandOut = True" | "dl_moves _ = False"

definition dl_work :: "listener \<Rightarrow> nat" where
  "dl_work s = 2 * length (dl_ready s) + (if dl_hold s = None then 0 else 2) + length (dl_conns s)"

definition dl_waiting :: "listener \<Rightarrow> nat list" where
  "dl_waiting s = dl_ready s @ (case dl_hold s of None \<Rightarrow> [] | Some c \<Rightarrow> [c]) @ map dc_id (dl_conns s)"

fun dl_runs :: "listener \<Rightarrow> dl_event list \<Rightarrow> bool" where
  "dl_runs s [] \<longleftrightarrow> True"
| "dl_runs s (e # es) \<longleftrightarrow> dl_enabled s e \<and> dl_moves e \<and> dl_runs (dl_step s e) es"

lemma moveE:
  assumes "dl_enabled s e" "dl_moves e"
  obtains c where "e = QuicSend c" "c \<in> set (dl_ready s)"
      "dl_step s e = s\<lparr>dl_ready := remove1 c (dl_ready s), dl_conns := dl_conns s @ [quic_conn s c]\<rparr>"
    | c where "e = TcpSend" "dl_hold s = Some c"
      "dl_step s e = s\<lparr>dl_hold := None, dl_conns := dl_conns s @ [tls_conn s c]\<rparr>"
    | c cs where "e = HandOut" "dl_conns s = c # cs"
      "dl_step s e = s\<lparr>dl_conns := cs, dl_taken := dl_taken s @ [c]\<rparr>"
proof (cases e)
  case (QuicSend c)
  with assms that(1) show thesis by (simp add: dl_step_def)
next
  case TcpSend
  with assms obtain c where "dl_hold s = Some c" by auto
  with TcpSend assms that(2) show thesis by (simp add: dl_step_def)
next
  case HandOut
  with assms obtain c cs where "dl_conns s = c # cs" by (auto simp: neq_Nil_conv)
  with HandOut assms that(3) show thesis by (simp add: dl_step_def)
qed (use assms in simp_all)

lemma move_work:
  assumes "dl_enabled s e" "dl_moves e"
  shows "dl_work s = Suc (dl_work (dl_step s e))"
    "mset (dl_waiting (dl_step s e)) + image_mset dc_id (mset (dl_taken (dl_step s e))) =
      mset (dl_waiting s) + image_mset dc_id (mset (dl_taken s))"
    "dl_done (dl_step s e) = dl_done s"
proof -
  show "dl_work s = Suc (dl_work (dl_step s e))"
  proof (cases rule: moveE [OF assms])
    case (1 c)
    then have "length (dl_ready s) = Suc (length (remove1 c (dl_ready s)))"
      by (auto simp: length_remove1 dest: length_pos_if_in_set)
    with 1 show ?thesis by (simp add: dl_work_def del: length_remove1)
  qed (simp_all add: dl_work_def)
  show "mset (dl_waiting (dl_step s e)) + image_mset dc_id (mset (dl_taken (dl_step s e))) =
      mset (dl_waiting s) + image_mset dc_id (mset (dl_taken s))"
    by (cases rule: moveE [OF assms]) (simp_all add: dl_waiting_def quic_conn_def tls_conn_def)
  show "dl_done (dl_step s e) = dl_done s" by (cases rule: moveE [OF assms]) simp_all
qed

lemma moves_run:
  assumes "dl_runs s es"
  shows "dl_work s = length es + dl_work (foldl dl_step s es) \<and> dl_done (foldl dl_step s es) = dl_done s \<and>
    mset (dl_waiting (foldl dl_step s es)) + image_mset dc_id (mset (dl_taken (foldl dl_step s es))) =
      mset (dl_waiting s) + image_mset dc_id (mset (dl_taken s))"
  using assms
proof (induction es arbitrary: s)
  case (Cons e es)
  from Cons.prems have "dl_enabled s e" "dl_moves e" by simp_all
  from move_work [OF this] Cons.prems Cons.IH [of "dl_step s e"] show ?case by simp
qed simp

lemma work_can_move:
  assumes "listener_inv s" "\<not> dl_done s" "dl_work s \<noteq> 0"
  shows "\<exists>e. dl_moves e \<and> dl_enabled s e"
proof (cases "dl_conns s")
  case Nil
  with assms(3) have "dl_ready s \<noteq> [] \<or> dl_hold s \<noteq> None" by (auto simp: dl_work_def split: if_splits)
  then show ?thesis
  proof
    assume "dl_ready s \<noteq> []"
    with Nil have "dl_enabled s (QuicSend (hd (dl_ready s)))" by (simp add: conn_places_def)
    then show ?thesis by (intro exI [of _ "QuicSend (hd (dl_ready s))"]) simp
  next
    assume "dl_hold s \<noteq> None"
    with Nil have "dl_enabled s TcpSend" by (simp add: conn_places_def)
    then show ?thesis by (intro exI [of _ TcpSend]) simp
  qed
next
  case (Cons c cs)
  with assms have "dl_enabled s HandOut" by (simp add: listener_inv_def)
  then show ?thesis by (intro exI [of _ HandOut]) simp
qed

text \<open>When no new connection arrives, the moves come to an end, and only when nothing waits any more.\<close>

lemma moves_end:
  assumes "listener_inv s" "\<not> dl_done s" and moves: "dl_runs s es" "t = foldl dl_step s es"
  shows "length es \<le> 2 * length (dl_waiting s)" "(\<forall>e. dl_moves e \<longrightarrow> \<not> dl_enabled t e) = (dl_waiting t = [])"
proof -
  have invt: "listener_inv t" unfolding moves(2) using assms(1) by (rule dual.run_inv)
  have idle: "dl_work u = 0 \<longleftrightarrow> dl_waiting u = []" "dl_work u \<le> 2 * length (dl_waiting u)" for u
    by (auto simp: dl_work_def dl_waiting_def split: option.splits)
  have stuck: "\<not> dl_enabled t e" if "dl_waiting t = []" "dl_moves e" for e
    using that by (cases e) (auto simp: dl_waiting_def split: option.splits)
  from moves_run [OF moves(1)] idle(1) [of t] idle(2) [of s] work_can_move [OF invt] stuck assms(2) moves(2)
  show "length es \<le> 2 * length (dl_waiting s)" "(\<forall>e. dl_moves e \<longrightarrow> \<not> dl_enabled t e) = (dl_waiting t = [])" by auto
qed

subsection \<open>Fair schedules\<close>

text \<open>
  New connections may arrive for ever, so an infinite schedule \<open>f\<close> is considered: the goroutine steps in
  the order in which they are tried, accepts of new connections at any time and any number of them.
  The scheduler is fair when a send or a receive that can be done again and again is done again and
  again. Go gives this: goroutines that wait to send on a channel are served in the order in which
  they came. Without it the claim would be false, since the TCP loop alone could always take the
  place in the channel that becomes free.
\<close>

primrec dl_at :: "listener \<Rightarrow> (nat \<Rightarrow> dl_event) \<Rightarrow> nat \<Rightarrow> listener" where
  "dl_at s f 0 = s"
| "dl_at s f (Suc n) = dl_step (dl_at s f n) (f n)"

definition dl_fair :: "listener \<Rightarrow> (nat \<Rightarrow> dl_event) \<Rightarrow> bool" where
  "dl_fair s f \<longleftrightarrow> (\<forall>e. dl_moves e \<longrightarrow> (\<forall>n. \<exists>m\<ge>n. dl_enabled (dl_at s f m) e) \<longrightarrow>
     (\<forall>n. \<exists>m\<ge>n. dl_enabled (dl_at s f m) e \<and> f m = e))"

lemma dl_at_inv: "listener_inv s \<Longrightarrow> listener_inv (dl_at s f n)"
  by (induction n) (auto intro: listener_step_inv)

lemma fair_step:
  assumes "dl_fair s f" "dl_moves e" "\<forall>n. \<exists>m\<ge>n. dl_enabled (dl_at s f m) e"
  obtains m where "n \<le> m" "dl_enabled (dl_at s f m) e" "f m = e"
  using assms unfolding dl_fair_def by blast

text \<open>The channel is a queue: until a receive is done, what is in it only gets company.\<close>

lemma conns_step:
  "dl_conns (dl_step s e) = (if e = HandOut \<and> dl_enabled s e then tl (dl_conns s) else dl_conns s) \<or>
   (e \<noteq> HandOut \<and> (\<exists>y. dl_conns (dl_step s e) = dl_conns s @ [y]))"
  by (cases e) (auto simp: dl_step_def Let_def split: option.splits list.splits)

lemma conns_grow:
  assumes "\<forall>i. k \<le> i \<longrightarrow> i < k + j \<longrightarrow> \<not> (f i = HandOut \<and> dl_enabled (dl_at s f i) HandOut)"
  shows "\<exists>zs. dl_conns (dl_at s f (k + j)) = dl_conns (dl_at s f k) @ zs"
  using assms
proof (induction j)
  case (Suc j)
  then obtain zs where "dl_conns (dl_at s f (k + j)) = dl_conns (dl_at s f k) @ zs" by auto
  moreover have "\<not> (f (k + j) = HandOut \<and> dl_enabled (dl_at s f (k + j)) HandOut)" using Suc.prems by simp
  ultimately show ?case using conns_step [of "dl_at s f (k + j)" "f (k + j)"] by (auto split: if_splits)
qed simp

lemma next_receive:
  assumes fair: "dl_fair s f" "\<forall>m\<ge>k. dl_accept_loop (dl_at s f m)" and ne: "dl_conns (dl_at s f k) \<noteq> []"
  shows "\<exists>m zs. k \<le> m \<and> f m = HandOut \<and> dl_conns (dl_at s f m) = dl_conns (dl_at s f k) @ zs"
proof -
  let ?P = "\<lambda>m. k \<le> m \<and> f m = HandOut \<and> dl_enabled (dl_at s f m) HandOut"
  have grow: "\<exists>zs. dl_conns (dl_at s f m) = dl_conns (dl_at s f k) @ zs" if "k \<le> m" "\<forall>i<m. \<not> ?P i" for m
    using conns_grow [of k "m - k" f s] that by simp
  have "\<exists>m. ?P m"
  proof (rule ccontr)
    assume no: "\<nexists>m. ?P m"
    have "dl_enabled (dl_at s f m) HandOut" if "k \<le> m" for m
      using grow [OF that] no ne fair(2) that by auto
    then have "\<forall>n. \<exists>m\<ge>n. dl_enabled (dl_at s f m) HandOut" by (metis le_cases)
    then obtain m where "k \<le> m" "dl_enabled (dl_at s f m) HandOut" "f m = HandOut"
      using fair_step [OF fair(1), of HandOut k] by auto
    with no show False by blast
  qed
  then obtain m where "?P m" "\<forall>i<m. \<not> ?P i" using exists_least_iff [of ?P] by blast
  with grow [of m] show ?thesis by auto
qed

lemma channel_drains:
  assumes fair: "dl_fair s f" "\<forall>m\<ge>k. dl_accept_loop (dl_at s f m)"
  shows "dl_conns (dl_at s f k) = xs @ y # ys \<Longrightarrow> \<exists>m\<ge>k. y \<in> set (dl_taken (dl_at s f m))"
  using fair(2)
proof (induction xs arbitrary: k ys)
  case Nil
  then obtain m zs where m: "k \<le> m" "f m = HandOut" "dl_conns (dl_at s f m) = y # ys @ zs"
    using next_receive [OF fair(1) Nil(2)] by auto
  then have "y \<in> set (dl_taken (dl_at s f (Suc m)))" using Nil(2) by (simp add: dl_step_def)
  with m(1) show ?case by (metis le_SucI)
next
  case (Cons x xs)
  then obtain m zs where m: "k \<le> m" "f m = HandOut" "dl_conns (dl_at s f m) = x # xs @ y # ys @ zs"
    using next_receive [OF fair(1) Cons.prems(2)] by auto
  then have "dl_conns (dl_at s f (Suc m)) = xs @ y # (ys @ zs)" using Cons.prems(2) by (simp add: dl_step_def)
  from Cons.IH [OF this] Cons.prems(2) m(1) obtain m' where "Suc m \<le> m'" "y \<in> set (dl_taken (dl_at s f m'))" by auto
  with m(1) show ?case by (meson Suc_leD le_trans)
qed

text \<open>The channel has a free place again and again.\<close>

lemma place_free:
  assumes fair: "dl_fair s f" "\<forall>m\<ge>k. dl_accept_loop (dl_at s f m)" and inv: "listener_inv s"
  shows "\<exists>m\<ge>k. length (dl_conns (dl_at s f m)) < conn_places"
proof (cases "length (dl_conns (dl_at s f k)) < conn_places")
  case False
  then have "dl_conns (dl_at s f k) \<noteq> []" by (auto simp: conn_places_def)
  from next_receive [OF fair this] obtain m zs where
    m: "k \<le> m" "f m = HandOut" "dl_conns (dl_at s f m) = dl_conns (dl_at s f k) @ zs" by auto
  have "length (dl_conns (dl_at s f m)) \<le> conn_places" using dl_at_inv [OF inv] by (simp add: listener_inv_def)
  moreover have "dl_enabled (dl_at s f m) HandOut" using m fair(2) False by (auto simp: conn_places_def)
  then have "dl_conns (dl_at s f (Suc m)) = tl (dl_conns (dl_at s f m))"
    using conns_step [of "dl_at s f m" HandOut] m(2) by simp
  moreover have "0 < conn_places" by (simp add: conn_places_def)
  ultimately have "length (dl_conns (dl_at s f (Suc m))) < conn_places" by simp
  with m(1) show ?thesis by (meson le_SucI)
qed auto

text \<open>A goroutine that waits to send does so: it waits until its step, and a place is free again and again.\<close>

lemma sender_sends:
  assumes fair: "dl_fair s f" "\<forall>m\<ge>k. dl_accept_loop (dl_at s f m)" and inv: "listener_inv s"
    and e: "dl_moves e" "\<And>m. W (dl_at s f m) \<Longrightarrow> length (dl_conns (dl_at s f m)) < conn_places \<Longrightarrow> dl_enabled (dl_at s f m) e"
    and stays: "\<And>m. k \<le> m \<Longrightarrow> W (dl_at s f m) \<Longrightarrow> f m = e \<and> dl_enabled (dl_at s f m) e \<or> W (dl_at s f (Suc m))"
    and start: "W (dl_at s f k)"
  obtains m where "k \<le> m" "W (dl_at s f m)" "dl_enabled (dl_at s f m) e" "f m = e"
proof -
  let ?P = "\<lambda>m. k \<le> m \<and> f m = e \<and> dl_enabled (dl_at s f m) e"
  have W: "W (dl_at s f (k + j))" if "\<forall>i<k + j. \<not> ?P i" for j
    using that
  proof (induction j)
    case (Suc j)
    then have "W (dl_at s f (k + j))" "\<not> ?P (k + j)" by auto
    with stays [of "k + j"] show ?case by auto
  qed (simp add: start)
  have "\<exists>m. ?P m"
  proof (rule ccontr)
    assume no: "\<nexists>m. ?P m"
    have "\<exists>m\<ge>n. dl_enabled (dl_at s f m) e" for n
    proof -
      from fair(2) have "\<forall>m\<ge>max n k. dl_accept_loop (dl_at s f m)" by simp
      from place_free [OF fair(1) this inv] obtain m where
        m: "max n k \<le> m" "length (dl_conns (dl_at s f m)) < conn_places" by auto
      then have "W (dl_at s f m)" using W [of "m - k"] no by simp
      with e(2) m show ?thesis by auto
    qed
    then obtain m where "k \<le> m" "dl_enabled (dl_at s f m) e" "f m = e"
      using fair_step [OF fair(1) e(1), of k] by auto
    with no show False by blast
  qed
  then obtain m where m: "?P m" "\<forall>i<m. \<not> ?P i" using exists_least_iff [of ?P] by blast
  with W [of "m - k"] have "W (dl_at s f m)" by simp
  with m(1) that show thesis by blast
qed

lemma waiting_enters:
  assumes fair: "dl_fair s f" "\<forall>m\<ge>k. dl_accept_loop (dl_at s f m)" "\<forall>m\<ge>k. \<not> dl_done (dl_at s f m)" and inv: "listener_inv s"
    and c: "c \<in> set (dl_waiting (dl_at s f k))"
  shows "\<exists>m\<ge>k. c \<in> dc_id ` set (dl_conns (dl_at s f m))"
proof -
  from c consider "c \<in> set (dl_ready (dl_at s f k))" | "dl_hold (dl_at s f k) = Some c" | "c \<in> dc_id ` set (dl_conns (dl_at s f k))"
    by (auto simp: dl_waiting_def split: option.splits)
  then show ?thesis
  proof cases
    case 1
    have stay: "c \<in> set xs \<Longrightarrow> c \<noteq> x \<Longrightarrow> c \<in> set (remove1 x xs)" for x and xs :: "nat list" by simp
    have quic: "f m = QuicSend c \<and> dl_enabled (dl_at s f m) (QuicSend c) \<or> c \<in> set (dl_ready (dl_at s f (Suc m)))"
      if "c \<in> set (dl_ready (dl_at s f m))" "f m = QuicSend x" for m x
      using that stay by (cases "x = c") (auto simp: dl_step_def)
    have "f m = QuicSend c \<and> dl_enabled (dl_at s f m) (QuicSend c) \<or> c \<in> set (dl_ready (dl_at s f (Suc m)))"
      if "k \<le> m" "c \<in> set (dl_ready (dl_at s f m))" for m
      using that fair(3) quic by (cases "f m") (auto simp: dl_step_def Let_def split: option.splits list.splits)
    then obtain m where "k \<le> m" "dl_enabled (dl_at s f m) (QuicSend c)" "f m = QuicSend c"
      using sender_sends [OF fair(1,2) inv, of "QuicSend c" "\<lambda>u. c \<in> set (dl_ready u)"] 1 by auto
    then show ?thesis by (intro exI [of _ "Suc m"]) (simp add: dl_step_def quic_conn_def)
  next
    case 2
    have "f m = TcpSend \<and> dl_enabled (dl_at s f m) TcpSend \<or> dl_hold (dl_at s f (Suc m)) = Some c"
      if "k \<le> m" "dl_hold (dl_at s f m) = Some c" for m
      using that fair(3) by (cases "f m") (auto simp: dl_step_def Let_def split: option.splits list.splits)
    then obtain m where "k \<le> m" "dl_hold (dl_at s f m) = Some c" "dl_enabled (dl_at s f m) TcpSend" "f m = TcpSend"
      using sender_sends [OF fair(1,2) inv, of TcpSend "\<lambda>u. dl_hold u = Some c"] 2 by auto
    then show ?thesis by (intro exI [of _ "Suc m"]) (simp add: dl_step_def tls_conn_def)
  qed blast
qed

text \<open>
  C16: Under any fair schedule every connection that is ready reaches the hub, unless the hub is stopped
  first, however many further connections arrive meanwhile on either protocol: a QUIC connection with
  its stream, a TLS connection at its \<open>select\<close> and whatever is in the channel is handed to
  \<open>handleConn\<close> after finitely many steps. Clients that open a QUIC connection and no stream take no place and
  hold nobody up.
\<close>

theorem listener_delivers:
  assumes "StartDual True tcp cap = Some s0" "dl_fair s0 f" "c \<in> set (dl_waiting (dl_at s0 f n))"
  shows "\<exists>m\<ge>n. c \<in> dc_id ` set (dl_taken (dl_at s0 f m)) \<or> dl_done (dl_at s0 f m)"
proof (cases "\<exists>m\<ge>n. dl_done (dl_at s0 f m)")
  case False
  have inv: "listener_inv s0" using start_inv [OF assms(1)] .
  have run: "\<forall>m\<ge>n. \<not> dl_done (dl_at s0 f m)" using False by blast
  then have loop: "\<forall>m\<ge>n. dl_accept_loop (dl_at s0 f m)" using dl_at_inv [OF inv] unfolding listener_inv_def by blast
  from waiting_enters [OF assms(2) loop run inv assms(3)] obtain m y where
    m: "n \<le> m" "y \<in> set (dl_conns (dl_at s0 f m))" "c = dc_id y" by auto
  then obtain xs ys where "dl_conns (dl_at s0 f m) = xs @ y # ys" by (meson split_list)
  moreover have "\<forall>i\<ge>m. dl_accept_loop (dl_at s0 f i)" using loop m(1) by simp
  ultimately obtain i where "m \<le> i" "y \<in> set (dl_taken (dl_at s0 f i))" using channel_drains [OF assms(2)] by blast
  with m show ?thesis by (intro exI [of _ i]) auto
qed auto

text \<open>A QUIC connection among an endless stream of TLS connections.\<close>

definition demo_schedule :: "nat \<Rightarrow> dl_event" where
  "demo_schedule n = (if n = 0 then QuicAccept True else if n = 1 then StreamAccepted 0 True else if n = 5 then QuicSend 0
     else if n mod 3 = 2 then TcpAccept True else if n mod 3 = 0 then TcpSend else HandOut)"

definition dl_idle :: "listener \<Rightarrow> bool" where
  "dl_idle s \<longleftrightarrow> dl_ready s = [] \<and> dl_hold s = None \<and> dl_conns s = [] \<and> dl_tcp_loop s \<and> dl_open s \<and> dl_accept_loop s"

lemma demo_steps:
  assumes "dl_idle s"
  shows "dl_ready (dl_step s (TcpAccept True)) = []" "dl_enabled (dl_step s (TcpAccept True)) TcpSend"
    "dl_ready (dl_step (dl_step s (TcpAccept True)) TcpSend) = []" "dl_enabled (dl_step (dl_step s (TcpAccept True)) TcpSend) HandOut"
    "dl_idle (dl_step (dl_step (dl_step s (TcpAccept True)) TcpSend) HandOut)"
  using assms by (simp_all add: dl_idle_def dl_step_def conn_places_def)

lemma demo_schedule_three:
  "demo_schedule (3 * k + 8) = TcpAccept True" "demo_schedule (3 * k + 9) = TcpSend" "demo_schedule (3 * k + 10) = HandOut"
proof -
  have "(3 * k + 8) mod 3 = 2" "(3 * k + 9) mod 3 = 0" "(3 * k + 10) mod 3 = 1" by presburger+
  then show "demo_schedule (3 * k + 8) = TcpAccept True" "demo_schedule (3 * k + 9) = TcpSend" "demo_schedule (3 * k + 10) = HandOut"
    by (simp_all add: demo_schedule_def)
qed

lemma dl_at_three: "dl_at s f (m + 3) = dl_step (dl_step (dl_step (dl_at s f m) (f m)) (f (m + 1))) (f (m + 2))"
  by (simp add: numeral_3_eq_3)

lemma dl_at_foldl: "dl_at s f n = foldl dl_step s (map f [0..<n])"
  by (induction n) simp_all

lemma demo_idle:
  assumes "dl_idle (dl_at s demo_schedule 8)"
  shows "dl_idle (dl_at s demo_schedule (3 * k + 8))"
proof (induction k)
  case (Suc k)
  have eq: "3 * Suc k + 8 = 3 * k + 8 + 3" "3 * k + 8 + 1 = 3 * k + 9" "3 * k + 8 + 2 = 3 * k + 10" by simp_all
  show ?case unfolding eq dl_at_three demo_schedule_three by (rule demo_steps(5) [OF Suc])
qed (simp add: assms)

lemma demo_cycle:
  assumes "dl_idle (dl_at s demo_schedule 8)"
  shows "dl_ready (dl_at s demo_schedule (3 * k + 8)) = []" "dl_ready (dl_at s demo_schedule (3 * k + 9)) = []"
    "dl_ready (dl_at s demo_schedule (3 * k + 10)) = []"
    "dl_enabled (dl_at s demo_schedule (3 * k + 9)) TcpSend" "dl_enabled (dl_at s demo_schedule (3 * k + 10)) HandOut"
proof -
  note i = demo_idle [OF assms, of k]
  have nine: "dl_at s demo_schedule (3 * k + 9) = dl_step (dl_at s demo_schedule (3 * k + 8)) (TcpAccept True)"
    using demo_schedule_three(1) [of k] dl_at.simps(2) [of s demo_schedule "3 * k + 8"] by (simp add: eval_nat_numeral)
  have ten: "dl_at s demo_schedule (3 * k + 10) = dl_step (dl_at s demo_schedule (3 * k + 9)) TcpSend"
    using demo_schedule_three(2) [of k] dl_at.simps(2) [of s demo_schedule "3 * k + 9"] by (simp add: eval_nat_numeral)
  show "dl_ready (dl_at s demo_schedule (3 * k + 8)) = []" "dl_ready (dl_at s demo_schedule (3 * k + 9)) = []"
    "dl_ready (dl_at s demo_schedule (3 * k + 10)) = []"
    "dl_enabled (dl_at s demo_schedule (3 * k + 9)) TcpSend" "dl_enabled (dl_at s demo_schedule (3 * k + 10)) HandOut"
    using i unfolding ten nine by (simp_all only: demo_steps [OF i]) (simp add: dl_idle_def)
qed

lemma demo_fair:
  assumes i: "dl_idle (dl_at s demo_schedule 8)"
  shows "dl_fair s demo_schedule"
proof -
  have often: "\<exists>m\<ge>n. dl_enabled (dl_at s demo_schedule m) e \<and> demo_schedule m = e" if "e = TcpSend \<or> e = HandOut" for e n
    using that
  proof
    assume "e = TcpSend"
    then show ?thesis using demo_cycle(4) [OF i, of n] demo_schedule_three(2) [of n] by (intro exI [of _ "3 * n + 9"]) simp
  next
    assume "e = HandOut"
    then show ?thesis using demo_cycle(5) [OF i, of n] demo_schedule_three(3) [of n] by (intro exI [of _ "3 * n + 10"]) simp
  qed
  have never: "dl_ready (dl_at s demo_schedule m) = []" if "8 \<le> m" for m
  proof -
    have "m = 3 * ((m - 8) div 3) + 8 \<or> m = 3 * ((m - 8) div 3) + 9 \<or> m = 3 * ((m - 8) div 3) + 10" using that by presburger
    then show ?thesis using demo_cycle(1-3) [OF i, of "(m - 8) div 3"] by metis
  qed
  have "\<not> (\<forall>n. \<exists>m\<ge>n. dl_enabled (dl_at s demo_schedule m) (QuicSend c))" for c
  proof
    assume "\<forall>n. \<exists>m\<ge>n. dl_enabled (dl_at s demo_schedule m) (QuicSend c)"
    then obtain m where "8 \<le> m" "dl_enabled (dl_at s demo_schedule m) (QuicSend c)" by blast
    with never [of m] show False by simp
  qed
  then show ?thesis
    unfolding dl_fair_def using often by (metis dl_moves.elims(2))
qed

theorem listener_delivers_witness:
  "\<exists>s0. StartDual True True False = Some s0 \<and> dl_waiting (dl_at s0 demo_schedule 2) = [0] \<and>
     (\<forall>k. demo_schedule (3 * k + 8) = TcpAccept True) \<and>
     (\<exists>m\<ge>2. 0 \<in> dc_id ` set (dl_taken (dl_at s0 demo_schedule m)) \<or> dl_done (dl_at s0 demo_schedule m))"
proof -
  define s0 where "s0 = the (StartDual True True False)"
  have s0: "StartDual True True False = Some s0" by (simp add: s0_def StartDual_def)
  have f: "map demo_schedule [0..<2] = [QuicAccept True, StreamAccepted 0 True]"
    "map demo_schedule [0..<8] = [QuicAccept True, StreamAccepted 0 True, TcpAccept True, TcpSend, HandOut, QuicSend 0, TcpSend, HandOut]"
    by (simp_all add: upt_rec demo_schedule_def)
  have "dl_idle (dl_at s0 demo_schedule 8)" "dl_waiting (dl_at s0 demo_schedule 2) = [0]"
    unfolding dl_at_foldl f by (simp_all add: s0_def StartDual_def dl_step_def quic_conn_def tls_conn_def dl_idle_def conn_places_def dl_waiting_def)
  with listener_delivers [OF s0 demo_fair, of 0 2] s0 demo_schedule_three(1) show ?thesis by auto
qed

subsection \<open>What the listener does not do\<close>

text \<open>
  Once the accept loop of the hub has ended, a connection left in the channel stays there: it is neither
  handed out nor closed, whatever happens next.
\<close>

lemma buffered_connection_leaks:
  assumes "\<not> dl_accept_loop s" "c \<in> set (dl_conns s)" "listener_inv s"
  shows "c \<in> set (dl_conns (foldl dl_step s es)) \<and> dc_id c \<notin> fst ` set (dl_closed (foldl dl_step s es))"
proof -
  have "\<not> dl_accept_loop (foldl dl_step s es) \<and> c \<in> set (dl_conns (foldl dl_step s es))"
    using assms(1,2)
  proof (induction es rule: rev_induct)
    case (snoc e es)
    then show ?case
      by (cases e) (auto simp: dl_step_def Let_def split: option.splits list.splits)
  qed simp
  moreover have "distinct (dl_all (foldl dl_step s es))"
    using dual.run_inv [OF assms(3)] all_stages(1) by (auto simp: listener_inv_def)
  ultimately show ?thesis by (auto simp: dl_all_def)
qed

text \<open>
  It happens: a TLS connection that waits at its \<open>select\<close> when the hub stops may still be sent.
\<close>

lemma leak_reachable:
  "let s = foldl dl_step (the (StartDual True True False)) [TcpAccept True, Stop, AcceptEnds, TcpSend]
   in \<not> dl_accept_loop s \<and> map dc_id (dl_conns s) = [0] \<and> dl_closed s = []"
  by (simp add: StartDual_def dl_step_def tls_conn_def conn_places_def)

text \<open>
  One failing \<open>Accept\<close> of the TCP listener, for example when the process is out of file descriptors for a
  moment, ends its loop: no TLS connection is accepted ever after, while QUIC goes on.
\<close>

lemma tcp_loop_dies:
  assumes "\<not> dl_tcp_loop s" "dl_hold s = None"
  shows "\<not> dl_tcp_loop (foldl dl_step s es) \<and> dl_hold (foldl dl_step s es) = None \<and>
    filter (\<lambda>c. dc_proto c = ''tls'') (dl_taken (foldl dl_step s es) @ dl_conns (foldl dl_step s es)) =
    filter (\<lambda>c. dc_proto c = ''tls'') (dl_taken s @ dl_conns s)"
  using assms
proof (induction es rule: rev_induct)
  case (snoc e es)
  then show ?case
    by (cases e) (auto simp: dl_step_def Let_def quic_conn_def split: option.splits list.splits)
qed simp

subsection \<open>Sockets and certificates: \<open>Start\<close> up to the listener\<close>

text \<open>The configurations that both sides give to TLS; the certificate is made by the X.509 library.\<close>

definition ALPN :: string where "ALPN = ''starmesh/1''"
definition VersionTLS13 :: "16 word" where "VersionTLS13 = 0x0304"

datatype cert_usage = DigitalSignature | ServerAuth | ClientAuth

record cert_template =
  ct_serial :: int
  ct_common_name :: string
  ct_not_before :: instant
  ct_not_after :: instant
  ct_usage :: "cert_usage list"
  ct_ips :: "ip list"

record tls_config =
  tc_certs :: "(bytes \<times> bytes) list"
  tc_protos :: "string list"
  tc_min_version :: "16 word"
  tc_skip_verify :: bool

definition hub_certificate :: "int \<Rightarrow> instant \<Rightarrow> cert_template" where
  "hub_certificate serial now =
     \<lparr>ct_serial = serial, ct_common_name = ''starmesh'', ct_not_before = now - 3600 * second,
      ct_not_after = now + 10 * 365 * 24 * 3600 * second, ct_usage = [DigitalSignature, ServerAuth, ClientAuth],
      ct_ips = [parse_ip ''127.0.0.1'', parse_ip ''::1'']\<rparr>"

definition selfSignedTLS ::
  "(cert_template \<Rightarrow> bytes \<Rightarrow> bytes \<Rightarrow> bytes option) \<Rightarrow> int option \<Rightarrow> instant \<Rightarrow> identity \<Rightarrow> tls_config option" where
  "selfSignedTLS create serial now i =
     (case serial of
        None \<Rightarrow> None
      | Some n \<Rightarrow>
          (case create (hub_certificate n now) (id_ed_pub i) (id_ed_priv i) of
             None \<Rightarrow> None
           | Some der \<Rightarrow> Some \<lparr>tc_certs = [(der, id_ed_priv i)], tc_protos = [ALPN], tc_min_version = VersionTLS13,
               tc_skip_verify = False\<rparr>))"

definition clientTLS :: tls_config where
  "clientTLS = \<lparr>tc_certs = [], tc_protos = [ALPN], tc_min_version = VersionTLS13, tc_skip_verify = True\<rparr>"

text \<open>
  What the operating system answers to a socket: \<open>os_listen\<close> gets the network, the address and whether
  the socket is restricted to IPv6, and says which address was bound.
\<close>

record start_os =
  os_tls :: "tls_config option"
  os_listen :: "string \<Rightarrow> string \<Rightarrow> bool \<Rightarrow> string option"
  os_quic :: bool

definition listenUDP :: "start_os \<Rightarrow> string \<Rightarrow> int \<Rightarrow> bool \<Rightarrow> string option" where
  "listenUDP os host port v6only = (case listen_target ''udp'' host port v6only of (n, a) \<Rightarrow> os_listen os n a v6only)"

definition listenTCP :: "start_os \<Rightarrow> string \<Rightarrow> int \<Rightarrow> bool \<Rightarrow> string option" where
  "listenTCP os host port v6only = (case listen_target ''tcp'' host port v6only of (n, a) \<Rightarrow> os_listen os n a v6only)"

datatype start_error = NoCertificate | UdpListen | TcpListen | QuicListen

text \<open>
  \<open>Start\<close> until the listener runs: the error or the listener with the address of its UDP socket, the
  hub with the port it has learnt, the sockets opened and those closed again. The port that the UDP
  socket got is the one that TCP is asked for.
\<close>

definition v6_sockets :: "server_config \<Rightarrow> bool" where
  "v6_sockets cfg \<longleftrightarrow> cfg_v6only cfg \<or> cfg_public_v4 cfg = None"

definition open_sockets ::
  "start_os \<Rightarrow> server \<Rightarrow> (start_error + listener \<times> string) \<times> server \<times> string list \<times> string list" where
  "open_sockets os s =
     (if os_tls os = None then (Inl NoCertificate, s, [], [])
      else case listenUDP os (cfg_host (srv_cfg s)) (cfg_port (srv_cfg s)) (v6_sockets (srv_cfg s)) of
        None \<Rightarrow> (Inl UdpListen, s, [], [])
      | Some ua \<Rightarrow>
          (let s1 = s\<lparr>srv_cfg := bound_port ua (srv_cfg s)\<rparr>; cfg = srv_cfg s1 in
           case listenTCP os (cfg_host cfg) (cfg_port cfg) (v6_sockets cfg) of
             None \<Rightarrow> (Inl TcpListen, s1, [''udp''], [''udp''])
           | Some ta \<Rightarrow>
               (case StartDual (os_quic os) True (cfg_capture cfg) of
                  None \<Rightarrow> (Inl QuicListen, s1, [''udp'', ''tcp''], [''udp'', ''tcp''])
                | Some d \<Rightarrow> (Inr (d, ua), s1, [''udp'', ''tcp''], []))))"

definition Start ::
  "go_unicode \<Rightarrow> instant \<Rightarrow> start_os \<Rightarrow> server \<Rightarrow> (start_error + listener \<times> invite list) \<times> server \<times> string list \<times> string list" where
  "Start U now os s =
     (case open_sockets os s of
        (Inl e, s1, socks, closed) \<Rightarrow> (Inl e, s1, socks, closed)
      | (Inr (d, addr), s1, socks, closed) \<Rightarrow>
          (case server_start U now addr s1 of (s2, dialled) \<Rightarrow> (Inr (d, dialled), s2, socks, closed)))"

lemma bound_port_idem [simp]: "bound_port a (bound_port a cfg) = bound_port a cfg"
  by (simp add: bound_port_def split: option.split prod.split)

lemma bound_port_sel [simp]:
  "cfg_host (bound_port a cfg) = cfg_host cfg" "cfg_capture (bound_port a cfg) = cfg_capture cfg"
  "cfg_public_v4 (bound_port a cfg) = cfg_public_v4 cfg" "cfg_v6only (bound_port a cfg) = cfg_v6only cfg"
  by (simp_all add: bound_port_def split: option.split prod.split)

lemma v6_sockets_bound [simp]: "v6_sockets (bound_port a cfg) = v6_sockets cfg"
  by (simp add: v6_sockets_def)

text \<open>A start that fails closes every socket it has opened; one that succeeds closes none.\<close>

lemma start_sockets: "Start U now os s = (r, s', socks, closed) \<Longrightarrow> closed = (case r of Inl e \<Rightarrow> socks | Inr x \<Rightarrow> [])"
  by (auto simp: Start_def open_sockets_def Let_def split: if_splits option.splits prod.splits)

text \<open>
  A hub that starts can be found on both protocols: it has a UDP and a TCP socket of the same
  family, TCP was asked for the port that the UDP socket got, the invite in its state carries that
  port, and the listener starts with nothing accepted. When something fails on the way, all sockets
  opened so far are closed again.
\<close>

theorem start_one_port:
  "case Start U now os s of
     (Inl e, s', socks, closed) \<Rightarrow> closed = socks
   | (Inr (d, dialled), s', socks, closed) \<Rightarrow>
       closed = [] \<and> listener_inv d \<and> dl_all d = [] \<and>
       (\<exists>ua ta iv. listenUDP os (cfg_host (srv_cfg s)) (cfg_port (srv_cfg s)) (v6_sockets (srv_cfg s)) = Some ua \<and>
          listenTCP os (cfg_host (srv_cfg s)) (cfg_port (bound_port ua (srv_cfg s))) (v6_sockets (srv_cfg s)) = Some ta \<and>
          srv_cfg s' = bound_port ua (srv_cfg s) \<and>
          srv_inv s' = Some iv \<and> inv_port iv = word_of_int (cfg_port (bound_port ua (srv_cfg s))))"
proof -
  have d: "listener_inv d" "dl_all d = []" if "StartDual q True cap = Some d" for q cap d
    using that start_inv [OF that] by (auto simp: StartDual_def dl_all_def split: if_splits)
  show ?thesis
    by (auto simp: Start_def open_sockets_def server_start_def buildInvite_def Let_def d
        split: option.splits prod.splits sum.splits if_splits)
qed

text \<open>Both sides speak the same protocol, and the certificate is valid when it is made and for ten years.\<close>

lemma tls_agree:
  assumes "selfSignedTLS create serial now i = Some c"
  shows "tc_protos c = tc_protos clientTLS" "tc_min_version c = tc_min_version clientTLS"
    "\<exists>n der. tc_certs c = [(der, id_ed_priv i)] \<and> create (hub_certificate n now) (id_ed_pub i) (id_ed_priv i) = Some der \<and>
       ct_not_before (hub_certificate n now) \<le> now \<and> now + 3650 * 24 * 3600 * second \<le> ct_not_after (hub_certificate n now)"
  using assms by (auto simp: selfSignedTLS_def clientTLS_def hub_certificate_def second_def split: option.splits)

end
