(* ===== verification/Session_Writers.thy ===== *)
theory Session_Writers
  imports Wire_Frames "HOL-Library.Sublist"
begin

section \<open>Several goroutines write to one connection (\<open>hub/transport.go\<close>, \<open>hub/wire.go\<close>)\<close>

text \<open>
  Handlers, the gossip and the pings of a hub all write to the connection of a session, most of them
  through \<open>session.send\<close>, which holds the session's mutex, the answers of the handshake directly
  through \<open>WriteMsg\<close>; \<open>WriteMsg\<close> holds the mutex of the connection, and \<open>WriteFrame\<close> below it writes a
  header and a body with two calls. Here each goroutine is a list of messages it has yet to send
  and a place in this code; a step is what one goroutine does between two points where another may
  run. A stream that has failed once (or was closed) accepts no more bytes, as \<open>tls.Conn\<close> and QUIC
  streams document; the write that fails may have put out a part of its bytes.
\<close>

datatype place = Idle | HasSession | HasConn | HeaderOut bytes

text \<open>\<open>ws_todo\<close> says for every message whether it goes through \<open>session.send\<close>; \<open>ws_sent\<close> lists what was sent.\<close>

record writers =
  ws_todo :: "nat \<Rightarrow> (bool \<times> message) list"
  ws_place :: "nat \<Rightarrow> place"
  ws_session :: "nat option"
  ws_conn :: "nat option"
  ws_out :: bytes
  ws_broken :: bool
  ws_sent :: "(nat \<times> message) list"

definition fresh_writers :: "(nat \<Rightarrow> (bool \<times> message) list) \<Rightarrow> writers" where
  "fresh_writers todo =
     \<lparr>ws_todo = todo, ws_place = (\<lambda>i. Idle), ws_session = None, ws_conn = None, ws_out = [], ws_broken = False, ws_sent = []\<rparr>"

text \<open>The deferred calls: both mutexes are released, and the message is dealt with.\<close>

definition leave :: "nat \<Rightarrow> writers \<Rightarrow> writers" where
  "leave i s = s\<lparr>ws_place := (ws_place s)(i := Idle), ws_todo := (ws_todo s)(i := tl (ws_todo s i)), ws_conn := None,
     ws_session := (if ws_session s = Some i then None else ws_session s)\<rparr>"

definition body_of :: "json_lib \<Rightarrow> message \<Rightarrow> bytes option" where
  "body_of J m = (case js_message J m of None \<Rightarrow> None | Some b \<Rightarrow> (if MaxFrame < length b then None else Some b))"

inductive write_step :: "json_lib \<Rightarrow> writers \<Rightarrow> writers \<Rightarrow> bool" for J where
  lock_session: "\<lbrakk>ws_todo s i = (True, m) # r; ws_place s i = Idle; ws_session s = None\<rbrakk> \<Longrightarrow>
     write_step J s (s\<lparr>ws_session := Some i, ws_place := (ws_place s)(i := HasSession)\<rparr>)"
| lock_conn: "\<lbrakk>ws_todo s i = (via, m) # r; ws_place s i = (if via then HasSession else Idle); ws_conn s = None\<rbrakk> \<Longrightarrow>
     write_step J s (s\<lparr>ws_conn := Some i, ws_place := (ws_place s)(i := HasConn)\<rparr>)"
| refuse: "\<lbrakk>ws_todo s i = (via, m) # r; ws_place s i = HasConn; body_of J m = None\<rbrakk> \<Longrightarrow> write_step J s (leave i s)"
| header: "\<lbrakk>ws_todo s i = (via, m) # r; ws_place s i = HasConn; body_of J m = Some b; \<not> ws_broken s\<rbrakk> \<Longrightarrow>
     write_step J s (s\<lparr>ws_out := ws_out s @ put_be32 (word_of_nat (length b)), ws_place := (ws_place s)(i := HeaderOut b)\<rparr>)"
| header_fails: "\<lbrakk>ws_todo s i = (via, m) # r; ws_place s i = HasConn; body_of J m = Some b;
       prefix p (put_be32 (word_of_nat (length b))); ws_broken s \<Longrightarrow> p = []\<rbrakk> \<Longrightarrow>
     write_step J s (leave i (s\<lparr>ws_out := ws_out s @ p, ws_broken := True\<rparr>))"
| body: "\<lbrakk>ws_todo s i = (via, m) # r; ws_place s i = HeaderOut b; \<not> ws_broken s\<rbrakk> \<Longrightarrow>
     write_step J s (leave i (s\<lparr>ws_out := ws_out s @ b, ws_sent := ws_sent s @ [(i, m)]\<rparr>))"
| body_fails: "\<lbrakk>ws_place s i = HeaderOut b; prefix p b; ws_broken s \<Longrightarrow> p = []\<rbrakk> \<Longrightarrow>
     write_step J s (leave i (s\<lparr>ws_out := ws_out s @ p, ws_broken := True\<rparr>))"
| breaks: "write_step J s (s\<lparr>ws_broken := True\<rparr>)"

inductive write_run :: "json_lib \<Rightarrow> writers \<Rightarrow> writers \<Rightarrow> bool" for J s where
  run_refl: "write_run J s s"
| run_snoc: "write_run J s t \<Longrightarrow> write_step J t u \<Longrightarrow> write_run J s u"

inductive_cases write_stepE: "write_step J s t"

subsection \<open>The invariant\<close>

text \<open>What the holder of the connection has put out of its frame.\<close>

definition begun :: "writers \<Rightarrow> bytes" where
  "begun s = (case ws_conn s of None \<Rightarrow> []
     | Some i \<Rightarrow> (case ws_place s i of HeaderOut b \<Rightarrow> put_be32 (word_of_nat (length b)) | _ \<Rightarrow> []))"

definition frames_of :: "json_lib \<Rightarrow> writers \<Rightarrow> bytes" where
  "frames_of J s = concat (map (\<lambda>(i, m). frame J m) (ws_sent s))"

definition torn :: "json_lib \<Rightarrow> bytes \<Rightarrow> bool" where
  "torn J p \<longleftrightarrow> p = [] \<or> (\<exists>m b. body_of J m = Some b \<and> prefix p (frame J m))"

definition place_ok :: "json_lib \<Rightarrow> writers \<Rightarrow> nat \<Rightarrow> bool" where
  "place_ok J s i \<longleftrightarrow>
     (ws_conn s = Some i \<longleftrightarrow> ws_place s i = HasConn \<or> (\<exists>b. ws_place s i = HeaderOut b)) \<and>
     (ws_session s = Some i \<longleftrightarrow> ws_place s i \<noteq> Idle \<and> fst (hd (ws_todo s i))) \<and>
     (ws_place s i \<noteq> Idle \<longrightarrow> ws_todo s i \<noteq> []) \<and>
     (ws_place s i = HasSession \<longrightarrow> fst (hd (ws_todo s i))) \<and>
     (\<forall>b. ws_place s i = HeaderOut b \<longrightarrow> body_of J (snd (hd (ws_todo s i))) = Some b)"

definition writers_inv :: "json_lib \<Rightarrow> (nat \<Rightarrow> (bool \<times> message) list) \<Rightarrow> writers \<Rightarrow> bool" where
  "writers_inv J todo s \<longleftrightarrow>
     (\<forall>i. place_ok J s i) \<and>
     (\<not> ws_broken s \<longrightarrow> ws_out s = frames_of J s @ begun s) \<and>
     (ws_broken s \<longrightarrow> (\<exists>p. ws_out s = frames_of J s @ p \<and> torn J p)) \<and>
     (\<forall>(i, m) \<in> set (ws_sent s). body_of J m \<noteq> None) \<and>
     (\<forall>i. subseq (map snd (filter (\<lambda>x. fst x = i) (ws_sent s)) @ map snd (ws_todo s i)) (map snd (todo i)))"

lemma frame_body: "body_of J m = Some b \<Longrightarrow> frame J m = put_be32 (word_of_nat (length b)) @ b"
  by (auto simp: body_of_def frame_def split: option.splits if_splits)

lemma leave_sel [simp]:
  "ws_out (leave i s) = ws_out s" "ws_broken (leave i s) = ws_broken s" "ws_sent (leave i s) = ws_sent s"
  "ws_conn (leave i s) = None" "ws_place (leave i s) = (ws_place s)(i := Idle)"
  "ws_todo (leave i s) = (ws_todo s)(i := tl (ws_todo s i))"
  "ws_session (leave i s) = (if ws_session s = Some i then None else ws_session s)"
  by (simp_all add: leave_def)

lemma leave_places:
  assumes "\<forall>j. place_ok J s j" "ws_conn s = Some i"
  shows "place_ok J (leave i s) j"
  using assms(1) [rule_format, of j] assms(1) [rule_format, of i] assms(2)
  by (cases "j = i") (auto simp: place_ok_def)

lemma place_ok_frame [simp]:
  "place_ok J (s\<lparr>ws_out := x\<rparr>) i = place_ok J s i" "place_ok J (s\<lparr>ws_broken := y\<rparr>) i = place_ok J s i"
  "place_ok J (s\<lparr>ws_sent := z\<rparr>) i = place_ok J s i"
  by (simp_all add: place_ok_def)

lemma begun_leave [simp]: "begun (leave i s) = []"
  by (simp add: begun_def)

lemma frames_leave [simp]: "frames_of J (leave i s) = frames_of J s"
  by (simp add: frames_of_def)

lemma begun_other [simp]:
  "ws_conn s \<noteq> Some i \<Longrightarrow> begun (s\<lparr>ws_session := x, ws_place := (ws_place s)(i := y)\<rparr>) = begun s"
  by (auto simp: begun_def split: option.split)

lemma frames_other [simp]:
  "frames_of J (s\<lparr>ws_session := x, ws_place := y\<rparr>) = frames_of J s"
  "frames_of J (s\<lparr>ws_conn := c, ws_place := y\<rparr>) = frames_of J s"
  "frames_of J (s\<lparr>ws_out := w, ws_place := y\<rparr>) = frames_of J s"
  "frames_of J (s\<lparr>ws_out := w, ws_broken := z\<rparr>) = frames_of J s"
  "frames_of J (s\<lparr>ws_broken := z\<rparr>) = frames_of J s" "frames_of J (s\<lparr>ws_out := w\<rparr>) = frames_of J s"
  by (simp_all add: frames_of_def)

lemma begun_free: "ws_conn s = None \<Longrightarrow> begun s = []"
  by (simp add: begun_def)

lemma begun_torn:
  assumes "\<forall>i. place_ok J s i"
  shows "torn J (begun s)"
proof (cases "begun s = []")
  case False
  then obtain i b where i: "ws_place s i = HeaderOut b" "begun s = put_be32 (word_of_nat (length b))"
    by (auto simp: begun_def split: option.splits place.splits)
  with assms have "body_of J (snd (hd (ws_todo s i))) = Some b" by (auto simp: place_ok_def)
  then show ?thesis using i(2) frame_body by (auto simp: torn_def prefix_def)
qed (simp add: torn_def)

lemma todo_shrinks:
  assumes "subseq (f @ map snd t) l"
  shows "subseq (f @ map snd (tl t)) l"
proof -
  have "subseq (map snd (tl t)) (map snd t)" by (cases t) auto
  then have "subseq (f @ map snd (tl t)) (f @ map snd t)" by (simp add: subseq_append')
  then show ?thesis using assms by (rule subseq_order.trans)
qed

lemma todo_sent:
  "t = (via, m) # r \<Longrightarrow> subseq (f @ map snd t) l \<Longrightarrow> subseq ((f @ [m]) @ map snd (tl t)) l"
  by simp

lemma frames_snoc: "frames_of J (s\<lparr>ws_sent := ws_sent s @ [(i, m)]\<rparr>) = frames_of J s @ frame J m"
  by (simp add: frames_of_def)

text \<open>The parts of the invariant, and how a goroutine that leaves keeps them.\<close>

lemma writers_invD:
  assumes "writers_inv J todo s"
  shows "\<forall>i. place_ok J s i" "\<not> ws_broken s \<Longrightarrow> ws_out s = frames_of J s @ begun s"
    "\<exists>p. ws_out s = frames_of J s @ p \<and> torn J p" "\<forall>(i, m) \<in> set (ws_sent s). body_of J m \<noteq> None"
    "\<forall>i. subseq (map snd (filter (\<lambda>x. fst x = i) (ws_sent s)) @ map snd (ws_todo s i)) (map snd (todo i))"
  using assms begun_torn [of J s] unfolding writers_inv_def by blast+

lemma leave_inv:
  assumes inv: "writers_inv J todo s" and i: "ws_conn s = Some i"
    and out: "out = frames_of J s @ p" "torn J p" "\<not> br \<Longrightarrow> p = []"
  shows "writers_inv J todo (leave i (s\<lparr>ws_out := out, ws_broken := br\<rparr>))"
proof -
  note d = writers_invD [OF inv]
  have "place_ok J (leave i (s\<lparr>ws_out := out, ws_broken := br\<rparr>)) j" for j
    by (rule leave_places) (use d(1) i in \<open>simp_all add: place_ok_def\<close>)
  moreover have "subseq (map snd (filter (\<lambda>x. fst x = j) (ws_sent s)) @ map snd (((ws_todo s)(i := tl (ws_todo s i))) j))
      (map snd (todo j))" for j
    using d(5) todo_shrinks by (cases "j = i") auto
  ultimately show ?thesis
    using d(4) out by (auto simp: writers_inv_def)
qed

lemma conn_holder:
  assumes "writers_inv J todo s" "ws_place s i = HasConn \<or> ws_place s i = HeaderOut b"
  shows "ws_conn s = Some i"
  using writers_invD(1) [OF assms(1)] assms(2) by (auto simp: place_ok_def)

text \<open>A failed write: the connection is broken and at most a torn frame remains.\<close>

lemma fail_inv:
  assumes inv: "writers_inv J todo s" and i: "ws_conn s = Some i"
    and p: "torn J (begun s @ p)" "ws_broken s \<Longrightarrow> p = []"
  shows "writers_inv J todo (leave i (s\<lparr>ws_out := ws_out s @ p, ws_broken := True\<rparr>))"
proof -
  note d = writers_invD [OF inv]
  have "\<exists>q. ws_out s @ p = frames_of J s @ q \<and> torn J q"
    using d(2,3) p by (cases "ws_broken s") simp_all
  then obtain q where "ws_out s @ p = frames_of J s @ q" "torn J q" by blast
  from leave_inv [OF inv i this, of True] show ?thesis by simp
qed

lemma header_inv:
  assumes inv: "writers_inv J todo s" and s: "ws_todo s i = (via, m) # r" "ws_place s i = HasConn"
    "body_of J m = Some b" "\<not> ws_broken s"
  shows "writers_inv J todo (s\<lparr>ws_out := ws_out s @ put_be32 (word_of_nat (length b)), ws_place := (ws_place s)(i := HeaderOut b)\<rparr>)"
    (is "writers_inv J todo ?t")
proof -
  note d = writers_invD [OF inv]
  have c: "ws_conn s = Some i" using conn_holder [OF inv, of i] s(2) by simp
  from c s have "begun s = []" "begun ?t = put_be32 (word_of_nat (length b))" by (simp_all add: begun_def)
  moreover have "place_ok J ?t j" for j
    using d(1) [rule_format, of j] s c by (cases "j = i") (auto simp: place_ok_def)
  ultimately show ?thesis using d s by (auto simp: writers_inv_def)
qed

lemma body_inv:
  assumes inv: "writers_inv J todo s" and s: "ws_todo s i = (via, m) # r" "ws_place s i = HeaderOut b" "\<not> ws_broken s"
  shows "writers_inv J todo (leave i (s\<lparr>ws_out := ws_out s @ b, ws_sent := ws_sent s @ [(i, m)]\<rparr>))"
    (is "writers_inv J todo (leave i ?u)")
proof -
  note d = writers_invD [OF inv]
  have c: "ws_conn s = Some i" using conn_holder [OF inv, of i b] s(2) by simp
  have b: "body_of J m = Some b" using d(1) s by (auto simp: place_ok_def dest!: spec [of _ i])
  from c s have "begun s = put_be32 (word_of_nat (length b))" by (simp add: begun_def)
  with d(2) s frame_body [OF b] have out: "ws_out s @ b = frames_of J s @ frame J m" by simp
  have "place_ok J (leave i ?u) j" for j
    by (rule leave_places) (use d(1) c in \<open>simp_all add: place_ok_def\<close>)
  moreover have "subseq (map snd (filter (\<lambda>x. fst x = j) (ws_sent (leave i ?u))) @ map snd (ws_todo (leave i ?u) j)) (map snd (todo j))" for j
    using d(5) [rule_format, of j] todo_sent [OF s(1)] by (cases "j = i") auto
  ultimately show ?thesis
    using d(4) s out b by (auto simp: writers_inv_def frames_of_def)
qed

lemma write_step_inv:
  assumes "write_step J s t" "writers_inv J todo s"
  shows "writers_inv J todo t"
  using assms(1)
proof cases
  case (lock_session i m r)
  note d = writers_invD [OF assms(2)]
  from lock_session d(1) have free: "ws_conn s \<noteq> Some i" by (auto simp: place_ok_def)
  have "place_ok J t j" for j
    using d(1) [rule_format, of j] lock_session by (cases "j = i") (auto simp: place_ok_def)
  then show ?thesis using d free lock_session(1) by (auto simp: writers_inv_def)
next
  case (lock_conn i via m r)
  note d = writers_invD [OF assms(2)]
  have "place_ok J t j" for j
    using d(1) [rule_format, of j] d(1) [rule_format, of i] lock_conn by (cases "j = i") (auto simp: place_ok_def split: if_splits)
  moreover have "begun t = begun s" using lock_conn by (simp add: begun_def)
  ultimately show ?thesis using d lock_conn(1) by (auto simp: writers_inv_def)
next
  case (refuse i via m r)
  note d = writers_invD [OF assms(2)]
  have c: "ws_conn s = Some i" using conn_holder [OF assms(2), of i] refuse by simp
  from c refuse have "begun s = []" by (simp add: begun_def)
  with d obtain p where p: "ws_out s = frames_of J s @ p" "torn J p" "\<not> ws_broken s \<Longrightarrow> p = []"
    by (metis append_Nil2 same_append_eq)
  from leave_inv [OF assms(2) c p(1,2), of "ws_broken s"] p(3) refuse(1) show ?thesis by simp
next
  case (header_fails i via m r b p)
  have c: "ws_conn s = Some i" using conn_holder [OF assms(2), of i] header_fails by simp
  from c header_fails have "begun s = []" by (simp add: begun_def)
  moreover have "torn J p"
    using frame_body [OF header_fails(4)] header_fails(4,5) by (auto simp: torn_def intro: prefix_order.trans)
  ultimately show ?thesis using fail_inv [OF assms(2) c _ header_fails(6)] header_fails(1) by simp
next
  case (body_fails i b p)
  have c: "ws_conn s = Some i" using conn_holder [OF assms(2), of i b] body_fails by simp
  have b: "body_of J (snd (hd (ws_todo s i))) = Some b"
    using writers_invD(1) [OF assms(2)] body_fails by (auto simp: place_ok_def)
  from c body_fails have "begun s = put_be32 (word_of_nat (length b))" by (simp add: begun_def)
  moreover have "torn J (put_be32 (word_of_nat (length b)) @ p)"
    using b frame_body [OF b] body_fails(3) by (auto simp: torn_def)
  ultimately show ?thesis using fail_inv [OF assms(2) c _ body_fails(4)] body_fails(1) by simp
next
  case breaks
  note d = writers_invD [OF assms(2)]
  then show ?thesis using breaks by (auto simp: writers_inv_def)
qed (auto intro: header_inv body_inv assms(2))

lemma fresh_writers_inv: "writers_inv J todo (fresh_writers todo)"
  by (simp add: writers_inv_def fresh_writers_def place_ok_def begun_def frames_of_def)

lemma write_run_inv: "write_run J s t \<Longrightarrow> writers_inv J todo s \<Longrightarrow> writers_inv J todo t"
  by (induction rule: write_run.induct) (auto intro: write_step_inv)

text \<open>Someone can always go on: the two mutexes are taken in one order and always released.\<close>

lemma writers_progress:
  assumes "writers_inv J todo s" "ws_todo s i \<noteq> []"
  shows "\<exists>t. write_step J s t \<and> ws_place t \<noteq> ws_place s \<and> ws_broken t = ws_broken s"
proof -
  note d = writers_invD(1) [OF assms(1), rule_format]
  show ?thesis
  proof (cases "ws_conn s")
    case (Some j)
    with d [of j] obtain via m r where t: "ws_todo s j = (via, m) # r"
      by (cases "ws_todo s j") (auto simp: place_ok_def)
    from Some d [of j] consider "ws_place s j = HasConn" | b where "ws_place s j = HeaderOut b" by (auto simp: place_ok_def)
    then show ?thesis
    proof cases
      case 1
      show ?thesis
      proof (cases "body_of J m")
        case None
        from write_step.refuse [OF t 1 None] 1 show ?thesis
          by (intro exI [of _ "leave j s"]) (auto simp: fun_eq_iff)
      next
        case (Some b)
        show ?thesis
        proof (cases "ws_broken s")
          case True
          from write_step.header_fails [OF t 1 Some, of "[]"] 1 True show ?thesis
            by (intro exI [of _ "leave j (s\<lparr>ws_out := ws_out s @ [], ws_broken := True\<rparr>)"]) (auto simp: fun_eq_iff)
        next
          case False
          from write_step.header [OF t 1 Some this] 1 show ?thesis
            by (intro exI [of _ "s\<lparr>ws_out := ws_out s @ put_be32 (word_of_nat (length b)), ws_place := (ws_place s)(j := HeaderOut b)\<rparr>"])
              (auto simp: fun_eq_iff)
        qed
      qed
    next
      case 2
      show ?thesis
      proof (cases "ws_broken s")
        case True
        from write_step.body_fails [OF 2, of "[]"] 2 True show ?thesis
          by (intro exI [of _ "leave j (s\<lparr>ws_out := ws_out s @ [], ws_broken := True\<rparr>)"]) (auto simp: fun_eq_iff)
      next
        case False
        from write_step.body [OF t 2 this] 2 show ?thesis
          by (intro exI [of _ "leave j (s\<lparr>ws_out := ws_out s @ b, ws_sent := ws_sent s @ [(j, m)]\<rparr>)"]) (auto simp: fun_eq_iff)
      qed
    qed
  next
    case None
    show ?thesis
    proof (cases "ws_session s")
      case (Some j)
      with d [of j] None have p: "ws_place s j = HasSession" "fst (hd (ws_todo s j))" "ws_todo s j \<noteq> []"
        by (cases "ws_place s j"; auto simp: place_ok_def)+
      then obtain m r where "ws_todo s j = (True, m) # r" by (cases "ws_todo s j") auto
      from write_step.lock_conn [OF this _ None] p(1) show ?thesis
        by (intro exI [of _ "s\<lparr>ws_conn := Some j, ws_place := (ws_place s)(j := HasConn)\<rparr>"]) (auto simp: fun_eq_iff)
    next
      case free: None
      with d [of i] None have p: "ws_place s i = Idle" by (cases "ws_place s i"; auto simp: place_ok_def)
      obtain via m r where t: "ws_todo s i = (via, m) # r" using assms(2) by (cases "ws_todo s i") auto
      show ?thesis
      proof (cases via)
        case True
        from write_step.lock_session [of s i m r J] t True p free show ?thesis
          by (intro exI [of _ "s\<lparr>ws_session := Some i, ws_place := (ws_place s)(i := HasSession)\<rparr>"]) (auto simp: fun_eq_iff)
      next
        case False
        from write_step.lock_conn [of s i via m r J] t False p None show ?thesis
          by (intro exI [of _ "s\<lparr>ws_conn := Some i, ws_place := (ws_place s)(i := HasConn)\<rparr>"]) (auto simp: fun_eq_iff)
      qed
    qed
  qed
qed

subsection \<open>Properties\<close>

text \<open>
  C13: Frames of concurrent senders never interleave. However the goroutines that write to a connection are
  scheduled, the bytes on the wire are whole frames, one after the other, in the order in which they
  were sent, followed at most by the beginning of one frame when the stream broke or a frame is
  being written; each goroutine's messages keep their order, none is sent twice, and the reader at
  the other end gets exactly these messages. As long as one goroutine has something to send, some
  goroutine can take a step (and need not fail): the two mutexes cannot deadlock.
\<close>

theorem frames_never_interleave:
  assumes run: "write_run J (fresh_writers todo) s"
    and json: "\<forall>i. \<forall>(via, m) \<in> set (todo i). js_message J m = None \<or> json_message_ok J m"
  shows "(\<exists>p. ws_out s = concat (map (\<lambda>(i, m). frame J m) (ws_sent s)) @ p \<and> (p = [] \<or> (\<exists>m. prefix p (frame J m)))) \<and>
    (\<forall>i. subseq (map snd (filter (\<lambda>x. fst x = i) (ws_sent s))) (map snd (todo i))) \<and>
    read_frames (length (ws_sent s)) J (ws_out s) = (map snd (ws_sent s), None) \<and>
    ((\<exists>i. ws_todo s i \<noteq> []) \<longrightarrow> (\<exists>t. write_step J s t \<and> ws_place t \<noteq> ws_place s \<and> ws_broken t = ws_broken s))"
proof -
  have inv: "writers_inv J todo s" using run fresh_writers_inv by (rule write_run_inv)
  note d = writers_invD [OF inv]
  from d(3) obtain p where p: "ws_out s = frames_of J s @ p" "torn J p" by blast
  have sub: "subseq (map snd (filter (\<lambda>x. fst x = i) (ws_sent s))) (map snd (todo i))" for i
    using d(5) [rule_format, of i] by (rule subseq_order.trans [rotated]) (use subseq_append' [of _ "[]"] in force)
  have ok: "json_message_ok J m \<and> length (the (js_message J m)) \<le> MaxFrame" if m: "m \<in> set (map snd (ws_sent s))" for m
  proof -
    from m obtain i where i: "(i, m) \<in> set (ws_sent s)" by auto
    then have "m \<in> set (map snd (filter (\<lambda>x. fst x = i) (ws_sent s)))" by force
    then have "m \<in> set (map snd (todo i))" using sub [of i] by (blast dest: list_emb_set)
    with json have "js_message J m = None \<or> json_message_ok J m" by fastforce
    moreover have "body_of J m \<noteq> None" using d(4) i by auto
    ultimately show ?thesis by (auto simp: body_of_def split: option.splits if_splits)
  qed
  have f: "frames_of J s = concat (map (frame J) (map snd (ws_sent s)))"
    by (simp add: frames_of_def case_prod_unfold comp_def)
  have "read_frames (length (map snd (ws_sent s)) + 0) J (concat (map (frame J) (map snd (ws_sent s))) @ p) =
      (case read_frames 0 J p of (ms', e) \<Rightarrow> (map snd (ws_sent s) @ ms', e))"
    by (rule read_frames_stream) (use ok in blast)
  then have "read_frames (length (ws_sent s)) J (ws_out s) = (map snd (ws_sent s), None)" by (simp add: p(1) f)
  moreover have "p = [] \<or> (\<exists>m. prefix p (frame J m))" using p(2) by (auto simp: torn_def)
  ultimately show ?thesis
    using p(1) sub writers_progress [OF inv] unfolding frames_of_def by blast
qed

text \<open>A ping through the session and an answer written directly, whose goroutines take turns.\<close>

definition demo_todo :: "nat \<Rightarrow> (bool \<times> message) list" where
  "demo_todo i = (if i = 0 then [(True, msgOf ''a'' [1, 2])] else if i = 1 then [(False, msgOf ''b'' [])] else [])"

lemma demo_bodies: "body_of demo_json (msgOf ''a'' [1, 2]) = Some [byte_of_char CHR ''a'', 1, 2]"
  "body_of demo_json (msgOf ''b'' []) = Some [byte_of_char CHR ''b'']"
  by (simp_all add: body_of_def demo_json_def msgOf_def MaxFrame_def)

theorem frames_never_interleave_witness:
  "\<exists>s. write_run demo_json (fresh_writers demo_todo) s \<and> map fst (ws_sent s) = [1, 0] \<and>
     read_frames 2 demo_json (ws_out s) = ([msgOf ''b'' [], msgOf ''a'' [1, 2]], None)"
proof -
  let ?b = "[byte_of_char CHR ''b'']" and ?a = "[byte_of_char CHR ''a'', 1, 2]"
  define s0 where "s0 = fresh_writers demo_todo"
  define s1 where "s1 = s0\<lparr>ws_session := Some 0, ws_place := (ws_place s0)(0 := HasSession)\<rparr>"
  define s2 where "s2 = s1\<lparr>ws_conn := Some 1, ws_place := (ws_place s1)(1 := HasConn)\<rparr>"
  define s3 where "s3 = s2\<lparr>ws_out := ws_out s2 @ put_be32 (word_of_nat (length ?b)), ws_place := (ws_place s2)(1 := HeaderOut ?b)\<rparr>"
  define s4 where "s4 = leave 1 (s3\<lparr>ws_out := ws_out s3 @ ?b, ws_sent := ws_sent s3 @ [(1, msgOf ''b'' [])]\<rparr>)"
  define s5 where "s5 = s4\<lparr>ws_conn := Some 0, ws_place := (ws_place s4)(0 := HasConn)\<rparr>"
  define s6 where "s6 = s5\<lparr>ws_out := ws_out s5 @ put_be32 (word_of_nat (length ?a)), ws_place := (ws_place s5)(0 := HeaderOut ?a)\<rparr>"
  define s7 where "s7 = leave 0 (s6\<lparr>ws_out := ws_out s6 @ ?a, ws_sent := ws_sent s6 @ [(0, msgOf ''a'' [1, 2])]\<rparr>)"
  note defs = s0_def s1_def s2_def s3_def s4_def s5_def s6_def s7_def fresh_writers_def demo_todo_def
  have 1: "write_step demo_json s0 s1" unfolding s1_def by (rule write_step.lock_session [where m = "msgOf ''a'' [1, 2]" and r = "[]"]) (simp_all add: defs)
  have 2: "write_step demo_json s1 s2" unfolding s2_def by (rule write_step.lock_conn [where via = False and m = "msgOf ''b'' []" and r = "[]"]) (simp_all add: defs)
  have 3: "write_step demo_json s2 s3" unfolding s3_def by (rule write_step.header [where via = False and m = "msgOf ''b'' []" and r = "[]"]) (simp_all add: defs demo_bodies)
  have 4: "write_step demo_json s3 s4" unfolding s4_def by (rule write_step.body [where via = False and m = "msgOf ''b'' []" and r = "[]"]) (simp_all add: defs)
  have 5: "write_step demo_json s4 s5" unfolding s5_def by (rule write_step.lock_conn [where via = True and m = "msgOf ''a'' [1, 2]" and r = "[]"]) (simp_all add: defs)
  have 6: "write_step demo_json s5 s6" unfolding s6_def by (rule write_step.header [where via = True and m = "msgOf ''a'' [1, 2]" and r = "[]"]) (simp_all add: defs demo_bodies)
  have 7: "write_step demo_json s6 s7" unfolding s7_def by (rule write_step.body [where via = True and m = "msgOf ''a'' [1, 2]" and r = "[]"]) (simp_all add: defs)
  have run: "write_run demo_json s0 s7"
    by (rule run_snoc [OF run_snoc [OF run_snoc [OF run_snoc [OF run_snoc [OF run_snoc [OF run_snoc [OF run_refl 1] 2] 3] 4] 5] 6] 7])
  have sent: "ws_sent s7 = [(1, msgOf ''b'' []), (0, msgOf ''a'' [1, 2])]" by (simp add: defs)
  have "\<forall>i. \<forall>(via, m) \<in> set (demo_todo i). js_message demo_json m = None \<or> json_message_ok demo_json m"
    by (simp add: demo_todo_def json_message_ok_def demo_json_def msgOf_def)
  from frames_never_interleave [OF run [unfolded s0_def] this] run sent show ?thesis
    unfolding s0_def by (intro exI [of _ s7]) (simp add: numeral_2_eq_2)
qed

end
