(* ===== verification/IP_Text.thy ===== *)
theory IP_Text
  imports Net_IP
begin

section \<open>Addresses as text and back\<close>

text \<open>
  The program keeps addresses as text in its cache, its community lists and its answers to a hello:
  \<open>IP.String\<close> writes them, \<open>net.ParseIP\<close> reads them. This theory proves that reading gives back the
  address that was written, in its 16-byte form: dotted decimals, and the groups of an IPv6 address
  with its longest run of zeros left out at the start, in the middle, at the end or throughout.
\<close>

subsection \<open>Dotted decimals\<close>

lemma digit_char [simp]: "m < 10 \<Longrightarrow> is_digit (char_of (48 + m :: nat))"
  by (simp add: is_digit_def)

lemma parse_octet: "n < 256 \<Longrightarrow> parse_ipv4_fields (decimal n @ s) 0 0 acc = parse_ipv4_fields s n (length (decimal n)) acc"
proof (induction n arbitrary: s rule: decimal.induct)
  case (1 n)
  show ?case
  proof (cases "n < 10")
    case True
    then show ?thesis by (simp add: decimal.simps [of n])
  next
    case False
    then have "0 < n div 10" "n mod 10 < 10" "10 * (n div 10) + n mod 10 = n" by (simp_all add: div_greater_zero_iff)
    with 1 show ?thesis by (simp add: decimal.simps [of n] False)
  qed
qed

lemma decimal_nonempty [simp]: "decimal n \<noteq> []"
  by (subst decimal.simps) simp

lemma parse_octet_dot:
  assumes "n < 256" "s \<noteq> []" "length acc < 3"
  shows "parse_ipv4_fields (decimal n @ CHR ''.'' # s) 0 0 acc = parse_ipv4_fields s 0 0 (acc @ [word_of_nat n])"
  using assms by (simp add: parse_octet is_digit_def)

theorem parse_ipv4_string: "length b = 4 \<Longrightarrow> parse_ipv4 (ipv4_string b) = Some b"
proof -
  assume "length b = 4"
  then obtain w x y z where b: "b = [w, x, y, z]" by (auto simp: numeral_eq_Suc length_Suc_conv)
  have small: "unat v < 256" for v :: byte using unat_byte_less [of v] by simp
  show ?thesis
    unfolding b parse_ipv4_def ipv4_string_def
    by (simp add: parse_octet_dot small) (use parse_octet [OF small, of z "[]"] in simp)
qed

subsection \<open>Groups of hexadecimal digits\<close>

lemma length_hex_nat: "n < 16 ^ k \<Longrightarrow> 0 < k \<Longrightarrow> length (hex_nat n) \<le> k"
proof (induction n arbitrary: k rule: hex_nat.induct)
  case (1 n)
  show ?case
  proof (cases "n < 16")
    case False
    with 1(2,3) obtain j where k: "k = Suc j" "0 < j" by (cases k; cases "k - 1"; simp)
    with 1(2) have "n div 16 < 16 ^ j" by (simp add: less_mult_imp_div_less)
    with 1(1) False k show ?thesis by (simp add: hex_nat.simps [of n])
  qed (use 1(3) in \<open>simp add: hex_nat.simps [of n]\<close>)
qed

lemma scan_group: "n < 65536 \<Longrightarrow> scan_hex (hex_nat n @ s) 0 0 = scan_hex s n (length (hex_nat n))"
proof (induction n arbitrary: s rule: hex_nat.induct)
  case (1 n)
  show ?case
  proof (cases "n < 16")
    case True
    then show ?thesis by (simp add: hex_nat.simps [of n] hex_value_table)
  next
    case False
    have "n div 16 < 16 ^ 3" using 1(2) by (simp add: less_mult_imp_div_less)
    then have "length (hex_nat (n div 16)) \<le> 3" by (rule length_hex_nat) simp
    moreover have "16 * (n div 16) + n mod 16 = n" by simp
    ultimately show ?thesis using False 1 by (simp add: hex_nat.simps [of n] hex_value_table)
  qed
qed

lemma hex_nat_nonempty [simp]: "hex_nat n \<noteq> []"
  by (subst hex_nat.simps) simp

lemma scan_group_end:
  assumes "n < 65536" "s = [] \<or> hex_value (hd s) = None"
  shows "scan_hex (hex_nat n @ s) 0 0 = Some (n, length (hex_nat n), s)"
  using assms scan_group [of n s] by (cases s) simp_all

text \<open>What follows a group is a colon or nothing; no group reads as a dotted decimal.\<close>

fun group_bytes :: "nat list \<Rightarrow> bytes" where
  "group_bytes [] = []"
| "group_bytes (g # gs) = word_of_nat (g div 256) # word_of_nat (g mod 256) # group_bytes gs"

lemma length_group_bytes [simp]: "length (group_bytes gs) = 2 * length gs"
  by (induction gs) simp_all

lemma group_bytes_append [simp]: "group_bytes (a @ b) = group_bytes a @ group_bytes b"
  by (induction a) simp_all

lemma group_bytes_zero [simp]: "group_bytes (replicate n 0) = replicate (2 * n) 0"
  by (induction n) simp_all

lemma groups_back: "even (length b) \<Longrightarrow> group_bytes (ipv6_groups b) = b \<and> length (ipv6_groups b) = length b div 2 \<and>
    list_all (\<lambda>g. g < 65536) (ipv6_groups b)"
proof (induction b rule: ipv6_groups.induct)
  case (1 x y r)
  have "unat x < 256" "unat y < 256" using unat_byte_less [of x] unat_byte_less [of y] by simp_all
  with 1 show ?case by simp
qed simp_all

text \<open>One turn of the loop: a group, and what stands after it.\<close>

lemma loop_group:
  assumes "g < 65536" "length acc < 16" "s = [] \<or> hd s = CHR '':''"
  shows "parse_ipv6_loop (Suc fuel) (hex_nat g @ s) acc ell =
     (let acc' = acc @ group_bytes [g] in
      if s = [] then Some (acc', ell, [])
      else if tl s = [] then None
      else if hd (tl s) = CHR '':'' then
        (if ell \<noteq> None then None
         else if tl (tl s) = [] then Some (acc', Some (length acc'), [])
         else parse_ipv6_loop fuel (tl (tl s)) acc' (Some (length acc')))
      else parse_ipv6_loop fuel (tl s) acc' ell)"
proof -
  have "hex_value CHR '':'' = None" by code_simp
  then have "s = [] \<or> hex_value (hd s) = None" using assms(3) by auto
  from scan_group_end [OF assms(1) this] assms show ?thesis by (auto simp: Let_def)
qed

lemma join_head: "gs \<noteq> [] \<Longrightarrow> \<exists>c r. join_groups gs = c # r \<and> c \<noteq> CHR '':''"
proof -
  have t: "hex_table ! n \<noteq> CHR '':''" if "n < 16" for n
  proof -
    have "list_all (\<lambda>n. hex_table ! n \<noteq> CHR '':'') [0..<16]" by code_simp
    then show ?thesis using that by (simp add: list_all_iff)
  qed
  have h: "\<exists>c r. hex_nat n = c # r \<and> c \<noteq> CHR '':''" for n
  proof (induction n rule: hex_nat.induct)
    case (1 n)
    then show ?case using t by (cases "n < 16") (auto simp: hex_nat.simps [of n])
  qed
  assume "gs \<noteq> []"
  then show ?thesis using h [of "hd gs"] by (cases gs rule: join_groups.cases) auto
qed

lemma loop_groups:
  assumes "gs \<noteq> []" "list_all (\<lambda>g. g < 65536) gs" "length acc + 2 * length gs \<le> 16" "length gs \<le> fuel"
  shows "parse_ipv6_loop fuel (join_groups gs) acc ell = Some (acc @ group_bytes gs, ell, [])"
  using assms
proof (induction gs arbitrary: acc fuel rule: join_groups.induct)
  case (2 g)
  then obtain f where "fuel = Suc f" by (cases fuel) auto
  with 2 loop_group [of g acc "[]" f ell] show ?case by simp
next
  case (3 g h gs)
  then obtain f where f: "fuel = Suc f" by (cases fuel) auto
  obtain c r where "join_groups (h # gs) = c # r" "c \<noteq> CHR '':''" using join_head [of "h # gs"] by auto
  with 3 f loop_group [of g acc "CHR '':'' # join_groups (h # gs)" f ell] show ?case by (simp add: Let_def)
qed simp

lemma loop_ellipsis:
  assumes "gs \<noteq> []" "list_all (\<lambda>g. g < 65536) (gs @ hs)" "length acc + 2 * length (gs @ hs) \<le> 16" "length (gs @ hs) \<le> fuel"
  shows "parse_ipv6_loop fuel (join_groups gs @ ''::'' @ join_groups hs) acc None =
    Some (acc @ group_bytes (gs @ hs), Some (length acc + 2 * length gs), [])"
  using assms
proof (induction gs arbitrary: acc fuel rule: join_groups.induct)
  case (2 g)
  then obtain f where f: "fuel = Suc f" by (cases fuel) auto
  show ?case
  proof (cases "hs = []")
    case True
    with 2 f loop_group [of g acc "''::''" f None] show ?thesis by (simp add: Let_def)
  next
    case False
    then obtain c r where "join_groups hs = c # r" using join_head by blast
    with 2 f False loop_group [of g acc "''::'' @ join_groups hs" f None]
      loop_groups [of hs "acc @ group_bytes [g]" f "Some (length acc + 2)"] show ?thesis by (simp add: Let_def)
  qed
next
  case (3 g h gs)
  then obtain f where f: "fuel = Suc f" by (cases fuel) auto
  obtain c r where "join_groups (h # gs) = c # r" "c \<noteq> CHR '':''" using join_head [of "h # gs"] by auto
  with 3 f loop_group [of g acc "CHR '':'' # join_groups (h # gs) @ ''::'' @ join_groups hs" f None] show ?case
    by (simp add: Let_def)
qed simp

subsection \<open>The run of zeros\<close>

definition run_ok :: "nat list \<Rightarrow> (nat \<times> nat) option \<Rightarrow> bool" where
  "run_ok gs best \<longleftrightarrow>
     (case best of None \<Rightarrow> True
      | Some (i, j) \<Rightarrow> i + 2 \<le> j \<and> j \<le> length gs \<and> take (j - i) (drop i gs) = replicate (j - i) 0)"

lemma takeWhile_zeros: "takeWhile (\<lambda>g. g = 0) gs = replicate (length (takeWhile (\<lambda>g. g = 0) gs)) (0 :: nat)"
  by (induction gs) auto

lemma zero_run_ok:
  assumes "i + 2 \<le> zero_run gs i"
  shows "run_ok gs (Some (i, zero_run gs i))"
proof -
  let ?t = "takeWhile (\<lambda>g. g = 0) (drop i gs)"
  have l: "zero_run gs i = i + length ?t" by (simp add: zero_run_def)
  have "length ?t \<le> length (drop i gs)" by (rule length_takeWhile_le)
  moreover have "take (length ?t) (drop i gs) = ?t" by (simp add: takeWhile_eq_take [symmetric])
  ultimately show ?thesis
    using assms takeWhile_zeros [of "drop i gs"] by (simp add: run_ok_def l)
qed

lemma best_run_ok: "run_ok gs (best_zero_run gs)"
proof -
  let ?f = "\<lambda>best i. let j = zero_run gs i; l = j - i;
            cur = (case best of None \<Rightarrow> 0 | Some (s, e) \<Rightarrow> e - s)
        in if 2 \<le> l \<and> cur < l then Some (i, j) else best"
  have "run_ok gs (foldl ?f best is)" if "run_ok gs best" for best "is"
    using that
  proof (induction "is" arbitrary: best)
    case (Cons i "is")
    have "run_ok gs (?f best i)"
      using Cons.prems zero_run_ok [of i gs] by (auto simp: Let_def)
    with Cons.IH show ?case by (simp only: foldl_Cons)
  qed simp
  moreover have "run_ok gs None" by (simp add: run_ok_def)
  ultimately show ?thesis unfolding best_zero_run_def by blast
qed

subsection \<open>Reading what was written\<close>

theorem parse_ipv6_string:
  assumes "length b = 16"
  shows "parse_ipv6 (ipv6_string b) = Some b"
proof -
  define gs where "gs = ipv6_groups b"
  have gs: "group_bytes gs = b" "length gs = 8" "list_all (\<lambda>g. g < 65536) gs"
    using groups_back [of b] assms by (simp_all add: gs_def)
  have no_start: "take 2 (join_groups hs @ r) \<noteq> ''::''" if "hs \<noteq> []" for hs r
    using join_head [OF that] by auto
  show ?thesis
  proof (cases "best_zero_run gs")
    case None
    then have s: "ipv6_string b = join_groups gs" by (simp add: ipv6_string_def gs_def)
    have "gs \<noteq> []" using gs(2) by auto
    from no_start [OF this, of "[]"] loop_groups [OF this gs(3), of "[]" 8 None] gs(1,2) assms show ?thesis
      by (simp add: parse_ipv6_def s)
  next
    case (Some p)
    then obtain i j where ij: "best_zero_run gs = Some (i, j)" by (cases p) simp
    with best_run_ok [of gs] gs(2) have r: "i + 2 \<le> j" "j \<le> 8" "take (j - i) (drop i gs) = replicate (j - i) 0"
      by (simp_all add: run_ok_def)
    define u where "u = take i gs"
    define v where "v = drop j gs"
    have s: "ipv6_string b = join_groups u @ ''::'' @ join_groups v"
      using ij by (simp add: ipv6_string_def gs_def [symmetric] u_def v_def)
    have len: "length u = i" "length v = 8 - j" using r gs(2) by (simp_all add: u_def v_def)
    have small: "list_all (\<lambda>g. g < 65536) (u @ v)"
      using gs(3) unfolding u_def v_def list_all_iff by (auto dest: in_set_takeD in_set_dropD)
    have "gs = u @ take (j - i) (drop i gs) @ drop (j - i) (drop i gs)"
      unfolding u_def by (simp only: append_take_drop_id)
    then have "gs = u @ replicate (j - i) 0 @ v" using r by (simp add: v_def)
    then have b: "b = group_bytes u @ replicate (2 * (j - i)) 0 @ group_bytes v" using gs(1) by (metis group_bytes_append group_bytes_zero)
    have pad: "16 - length (group_bytes u @ group_bytes v) = 2 * (j - i)" using len r by simp
    have fill: "(case Some (group_bytes u @ group_bytes v, Some (2 * length u), []) of None \<Rightarrow> None
      | Some (acc, ell, rest) \<Rightarrow>
          (if rest \<noteq> [] then None
           else if length acc < 16 then
             (case ell of None \<Rightarrow> None
              | Some e \<Rightarrow> Some (take e acc @ replicate (16 - length acc) 0 @ drop e acc))
           else if ell \<noteq> None then None
           else Some acc)) = Some b"
      using len r pad by (simp add: b)
    show ?thesis
    proof (cases "u = []")
      case True
      show ?thesis
      proof (cases "v = []")
        case v: True
        with True len r have "2 * (j - i) = 16" by simp
        with True v b have zero: "b = replicate 16 0" by simp
        have "ipv6_string b = ''::''" using True v by (simp add: s)
        then show ?thesis unfolding parse_ipv6_def by (simp add: zero)
      next
        case False
        obtain c w where "join_groups v = c # w" using join_head [OF False] by blast
        moreover have "parse_ipv6_loop 8 (join_groups v) [] (Some 0) = Some (group_bytes v, Some 0, [])"
          using loop_groups [OF False, of "[]" 8 "Some 0"] small len r by simp
        ultimately show ?thesis using fill True unfolding parse_ipv6_def s by simp
      qed
    next
      case False
      have "parse_ipv6_loop 8 (join_groups u @ ''::'' @ join_groups v) [] None =
          Some (group_bytes u @ group_bytes v, Some (2 * length u), [])"
        using loop_ellipsis [OF False small, of "[]" 8] len r by simp
      then show ?thesis
        using fill no_start [OF False] unfolding parse_ipv6_def s by simp
    qed
  qed
qed

lemma group_chars: "c \<in> set (hex_nat n) \<Longrightarrow> c \<noteq> CHR ''.'' \<and> c \<noteq> CHR '':'' \<and> c \<noteq> CHR ''%''"
proof (induction n rule: hex_nat.induct)
  case (1 n)
  have "list_all (\<lambda>n. hex_table ! n \<noteq> CHR ''.'' \<and> hex_table ! n \<noteq> CHR '':'' \<and> hex_table ! n \<noteq> CHR ''%'') [0..<16]"
    by code_simp
  then have "hex_table ! k \<noteq> CHR ''.'' \<and> hex_table ! k \<noteq> CHR '':'' \<and> hex_table ! k \<noteq> CHR ''%''" if "k < 16" for k
    using that by (simp add: list_all_iff)
  with 1 show ?case by (cases "n < 16") (auto simp: hex_nat.simps [of n])
qed

lemma join_chars: "c \<in> set (join_groups gs) \<Longrightarrow> c \<noteq> CHR ''.'' \<and> c \<noteq> CHR ''%''"
  by (induction gs rule: join_groups.induct) (auto dest: group_chars)

lemma join_colon: "2 \<le> length gs \<Longrightarrow> CHR '':'' \<in> set (join_groups gs)"
  by (induction gs rule: join_groups.induct) auto

lemma ipv6_chars:
  assumes "length b = 16"
  shows "c \<in> set (ipv6_string b) \<Longrightarrow> c \<noteq> CHR ''.'' \<and> c \<noteq> CHR ''%''" "CHR '':'' \<in> set (ipv6_string b)"
proof -
  have "length (ipv6_groups b) = 8" using groups_back [of b] assms by simp
  then show "c \<in> set (ipv6_string b) \<Longrightarrow> c \<noteq> CHR ''.'' \<and> c \<noteq> CHR ''%''" "CHR '':'' \<in> set (ipv6_string b)"
    using join_colon [of "ipv6_groups b"]
    by (auto simp: ipv6_string_def Let_def dest: join_chars split: option.splits)
qed

lemma first_special:
  assumes "c \<in> set s" "p c" "\<And>d. d \<in> set s \<Longrightarrow> p d \<Longrightarrow> d = c"
  shows "\<exists>r. dropWhile (\<lambda>d. \<not> p d) s = c # r"
  using assms
proof (induction s)
  case (Cons d s)
  show ?case
  proof (cases "p d")
    case True
    then have "d = c" using Cons.prems(3) by simp
    with True show ?thesis by simp
  next
    case False
    with Cons.prems(1,2) have "c \<in> set s" by auto
    from Cons.IH [OF this Cons.prems(2)] Cons.prems(3) False show ?thesis by simp
  qed
qed simp

lemma ipv4_chars: "c \<in> set (ipv4_string b) \<Longrightarrow> c \<noteq> CHR '':'' \<and> c \<noteq> CHR ''%''"
proof -
  have "c \<noteq> CHR '':'' \<and> c \<noteq> CHR ''%''" if "c \<in> set (decimal n)" for n
    using decimal_digits [OF that] by auto
  then show "c \<in> set (ipv4_string b) \<Longrightarrow> ?thesis" by (auto simp: ipv4_string_def)
qed

text \<open>
  \<open>net.ParseIP\<close> undoes \<open>IP.String\<close> for every address, in both lengths.
\<close>

theorem parse_ip_string:
  assumes "to16 a = Some b"
  shows "parse_ip (ip_string a) = Some b" "ip_string a \<noteq> []"
proof -
  let ?p = "\<lambda>c. c = CHR ''.'' \<or> c = CHR '':'' \<or> c = CHR ''%''"
  from assms obtain x where x: "a = Some x" "length x = 4 \<or> length x = 16" and b: "b = (if length x = 4 then v4_in_v6_prefix @ x else x)"
    by (auto simp: to16_def split: option.splits if_splits)
  have drop: "(\<lambda>c. c \<noteq> CHR ''.'' \<and> c \<noteq> CHR '':'' \<and> c \<noteq> CHR ''%'') = (\<lambda>c. \<not> ?p c)" by auto
  have "parse_ip (ip_string a) = Some b \<and> ip_string a \<noteq> []"
  proof (cases "to4 a")
    case (Some y)
    have s: "ip_string a = ipv4_string y" using x Some by (auto simp: ip_string_def ip_len_def)
    have y: "length y = 4" "b = v4_in_v6_prefix @ y"
      using Some x b by (auto simp: to4_def split: if_splits) (metis append_take_drop_id)
    have dot: "CHR ''.'' \<in> set (ipv4_string y)" by (simp add: ipv4_string_def)
    have "\<exists>r. dropWhile (\<lambda>d. \<not> ?p d) (ipv4_string y) = CHR ''.'' # r"
      by (rule first_special [OF dot]) (use ipv4_chars in blast)+
    moreover have "ipv4_string y \<noteq> []" using dot by auto
    ultimately show ?thesis
      using parse_ipv4_string [OF y(1)] y(2) unfolding s parse_ip_def drop by auto
  next
    case None
    with x have l: "length x = 16" by (auto simp: to4_def)
    have s: "ip_string a = ipv6_string x" using x None l by (simp add: ip_string_def ip_len_def ip_bytes_def)
    have "\<exists>r. dropWhile (\<lambda>d. \<not> ?p d) (ipv6_string x) = CHR '':'' # r"
      by (rule first_special) (use ipv6_chars [OF l] in auto)
    moreover have "CHR ''%'' \<notin> set (ipv6_string x)" using ipv6_chars(1) [OF l] by blast
    moreover have "ipv6_string x \<noteq> []" using ipv6_chars(2) [OF l] by auto
    ultimately show ?thesis
      using parse_ipv6_string [OF l] l b unfolding s parse_ip_def drop by auto
  qed
  then show "parse_ip (ip_string a) = Some b" "ip_string a \<noteq> []" by simp_all
qed

end
