(* ===== verification/Time_Text.thy ===== *)
theory Time_Text
  imports JSON_Decode
begin

section \<open>Instants as text (\<open>time.Time\<close> in JSON)\<close>

text \<open>
  A \<open>time.Time\<close> is written in the format of RFC 3339 with nanoseconds, in its own time zone: the
  proleptic Gregorian date, the time of day, a fraction without trailing zeros and the offset from
  UTC. The offset in seconds is an argument, because an instant does not know its zone. Reading
  follows the fast path of \<open>time.parseStrictRFC3339\<close>; texts outside that format, which Go still
  tries with its general parser, go to a parameter.
\<close>

subsection \<open>The calendar\<close>

text \<open>Days are counted from 1 January of year 1; a year is split off by cycles of 400, 100, 4 and 1 years.\<close>

definition is_leap :: "int \<Rightarrow> bool" where
  "is_leap y \<longleftrightarrow> y mod 4 = 0 \<and> (y mod 100 \<noteq> 0 \<or> y mod 400 = 0)"

definition year_day :: "int \<Rightarrow> int \<times> nat" where
  "year_day d =
     (let n400 = d div 146097; r400 = d mod 146097;
          n100 = min 3 (r400 div 36524); r100 = r400 - 36524 * n100;
          n4 = r100 div 1461; r4 = r100 mod 1461;
          n1 = min 3 (r4 div 365)
      in (400 * n400 + 100 * n100 + 4 * n4 + n1 + 1, nat (r4 - 365 * n1)))"

definition days_before_year :: "int \<Rightarrow> int" where
  "days_before_year y =
     (let z = y - 1; n400 = z div 400; r400 = z mod 400; n100 = r400 div 100; r100 = r400 mod 100
      in 146097 * n400 + 36524 * n100 + 1461 * (r100 div 4) + 365 * (r100 mod 4))"

definition month_starts :: "bool \<Rightarrow> nat list" where
  "month_starts leap =
     (if leap then [0, 31, 60, 91, 121, 152, 182, 213, 244, 274, 305, 335, 366]
      else [0, 31, 59, 90, 120, 151, 181, 212, 243, 273, 304, 334, 365])"

definition month_day :: "bool \<Rightarrow> nat \<Rightarrow> nat \<times> nat" where
  "month_day leap n =
     (let m = length (takeWhile (\<lambda>s. s \<le> n) (month_starts leap)) in (m, n - month_starts leap ! (m - 1) + 1))"

definition days_in :: "bool \<Rightarrow> nat \<Rightarrow> nat" where
  "days_in leap m = month_starts leap ! m - month_starts leap ! (m - 1)"

definition days_of_date :: "int \<Rightarrow> nat \<Rightarrow> nat \<Rightarrow> int" where
  "days_of_date y m d = days_before_year y + int (month_starts (is_leap y) ! (m - 1)) + int d - 1"

lemma min_div_parts:
  fixes x k :: int
  assumes "0 \<le> x" "0 < k" "x \<le> 4 * k"
  shows "0 \<le> min 3 (x div k) \<and> 0 \<le> x - k * min 3 (x div k) \<and> x - k * min 3 (x div k) \<le> k \<and>
    (x - k * min 3 (x div k) = k \<longrightarrow> min 3 (x div k) = 3 \<and> x = 4 * k)"
proof (cases "x div k \<le> 3")
  case True
  then have m: "min 3 (x div k) = x div k" by simp
  have "x - k * (x div k) = x mod k" by (simp add: minus_mult_div_eq_mod)
  with assms show ?thesis unfolding m by (simp add: pos_imp_zdiv_nonneg_iff less_imp_le) (metis less_irrefl pos_mod_bound)
next
  case False
  then have m: "min 3 (x div k) = 3" by simp
  from False assms(2) have "k * 4 \<le> k * (x div k)" by (intro mult_left_mono) simp_all
  moreover have "k * (x div k) \<le> x" using assms(2) by (simp add: minus_mod_eq_mult_div [symmetric])
  ultimately have "4 * k \<le> x" by linarith
  with assms show ?thesis unfolding m by simp
qed

text \<open>The cycles of a day and the day in its year; the last year of a cycle is the longer one.\<close>

lemma cycle_parts:
  fixes d :: int
  obtains a b c e r where "d = 146097 * a + 36524 * b + 1461 * c + 365 * e + r"
    "0 \<le> b" "b \<le> 3" "0 \<le> c" "c \<le> 24" "0 \<le> e" "e \<le> 3" "0 \<le> r" "r \<le> 365"
    "year_day d = (400 * a + 100 * b + 4 * c + e + 1, nat r)"
    "r = 365 \<longrightarrow> e = 3 \<and> (c = 24 \<longrightarrow> b = 3)"
proof -
  define a where "a = d div 146097"
  define x where "x = d mod 146097"
  define b where "b = min 3 (x div 36524)"
  define y where "y = x - 36524 * b"
  define c where "c = y div 1461"
  define z where "z = y mod 1461"
  define e where "e = min 3 (z div 365)"
  define r where "r = z - 365 * e"
  have x: "d = 146097 * a + x" "0 \<le> x" "x < 146097" by (simp_all add: a_def x_def)
  have y: "0 \<le> b" "b \<le> 3" "0 \<le> y" "y \<le> 36524" "y = 36524 \<Longrightarrow> b = 3"
    using min_div_parts [of x 36524] x(2,3) by (auto simp: b_def y_def)
  have z: "y = 1461 * c + z" "0 \<le> z" "z < 1461" by (simp_all add: c_def z_def)
  with y have c: "0 \<le> c" "c \<le> 24" "c = 24 \<Longrightarrow> z \<le> 1460" "c = 24 \<Longrightarrow> z = 1460 \<Longrightarrow> b = 3" by linarith+
  have e: "0 \<le> e" "e \<le> 3" "0 \<le> r" "r \<le> 365" "r = 365 \<Longrightarrow> e = 3 \<and> z = 1460"
    using min_div_parts [of z 365] z(2,3) by (auto simp: e_def r_def)
  show thesis
  proof (rule that [of a b c e r])
    show "d = 146097 * a + 36524 * b + 1461 * c + 365 * e + r"
      using x(1) z(1) by (simp add: r_def y_def)
    show "year_day d = (400 * a + 100 * b + 4 * c + e + 1, nat r)"
      unfolding year_day_def Let_def r_def e_def z_def c_def y_def b_def x_def a_def by (rule refl)
    show "r = 365 \<longrightarrow> e = 3 \<and> (c = 24 \<longrightarrow> b = 3)" using e(5) c(4) by auto
  qed (use y z c e in simp_all)
qed

lemma year_day_back:
  assumes "year_day d = (y, n)"
  shows "days_before_year y + int n = d" "n \<le> 365" "n = 365 \<Longrightarrow> is_leap y"
proof -
  obtain a b c e r where p: "d = 146097 * a + 36524 * b + 1461 * c + 365 * e + r"
    "0 \<le> b" "b \<le> 3" "0 \<le> c" "c \<le> 24" "0 \<le> e" "e \<le> 3" "0 \<le> r" "r \<le> 365"
    "year_day d = (400 * a + 100 * b + 4 * c + e + 1, nat r)" "r = 365 \<longrightarrow> e = 3 \<and> (c = 24 \<longrightarrow> b = 3)"
    by (rule cycle_parts [of d])
  then have y: "y - 1 = 400 * a + (100 * b + (4 * c + e))" and n: "int n = r" using assms by auto
  have e: "(4 * c + e) div 4 = c" "(4 * c + e) mod 4 = e" "0 \<le> 4 * c + e" "4 * c + e < 100"
    using int_div_pos_eq [of "4 * c + e" 4 c e] int_mod_pos_eq [of "4 * c + e" 4 c e] p(4-7) by simp_all
  have b: "(100 * b + (4 * c + e)) div 100 = b" "(100 * b + (4 * c + e)) mod 100 = 4 * c + e"
    using int_div_pos_eq [OF refl e(3,4), of b] int_mod_pos_eq [OF refl e(3,4), of b] by simp_all
  have r: "0 \<le> 100 * b + (4 * c + e)" "100 * b + (4 * c + e) < 400" using e(3,4) p(2,3) by linarith+
  have a: "(y - 1) div 400 = a" "(y - 1) mod 400 = 100 * b + (4 * c + e)"
    using int_div_pos_eq [OF y r] int_mod_pos_eq [OF y r] by simp_all
  show "days_before_year y + int n = d"
    using p(1) n p(6,7) by (simp add: days_before_year_def a b e Let_def)
  show "n \<le> 365" using n p(9) by simp
  assume "n = 365"
  with n p(11) have l: "e = 3" "c = 24 \<longrightarrow> b = 3" by simp_all
  with y have "y = 400 * a + 100 * b + 4 * c + 4" by simp
  then have y4: "y = 4 * (100 * a + 25 * b + c + 1) + 0" and y100: "y = 100 * (4 * a + b) + (4 * c + 4)" by simp_all
  have "y mod 4 = 0" using int_mod_pos_eq [OF y4] by simp
  moreover have "y mod 100 \<noteq> 0 \<or> y mod 400 = 0"
  proof (cases "c = 24")
    case True
    with l y100 have "y = 400 * (a + 1) + 0" by simp
    from int_mod_pos_eq [OF this] show ?thesis by simp
  next
    case False
    with p(4,5) int_mod_pos_eq [OF y100] show ?thesis by simp
  qed
  ultimately show "is_leap y" by (simp add: is_leap_def)
qed

lemma month_day_back:
  assumes "month_day leap n = (m, d)" "n \<le> 365" "n = 365 \<Longrightarrow> leap"
  shows "1 \<le> m \<and> m \<le> 12 \<and> 1 \<le> d \<and> d \<le> days_in leap m \<and> month_starts leap ! (m - 1) + d = n + 1"
proof -
  define S where "S = month_starts leap"
  have S: "length S = 13" "S ! 0 = 0" "n < S ! 12"
    using assms(2,3) by (cases "n = 365"; simp add: S_def month_starts_def)+
  have m: "m = length (takeWhile (\<lambda>s. s \<le> n) S)" "d = n - S ! (m - 1) + 1"
    using assms(1) by (auto simp: month_day_def S_def Let_def)
  have "takeWhile (\<lambda>s. s \<le> n) S \<noteq> []" using S(1,2) by (cases S) simp_all
  then have pos: "1 \<le> m" unfolding m(1) by (cases "takeWhile (\<lambda>s. s \<le> n) S") simp_all
  have "m \<noteq> 13"
  proof
    assume "m = 13"
    then have "takeWhile (\<lambda>s. s \<le> n) S = S" using m(1) S(1) by (metis takeWhile_eq_take take_all_iff le_refl)
    then have "\<forall>x \<in> set S. x \<le> n" by (simp add: takeWhile_eq_all_conv)
    with S(1,3) show False by (metis nth_mem lessI linorder_not_less eval_nat_numeral(3) numeral_eq_Suc)
  qed
  moreover have "m \<le> 13" unfolding m(1) S(1) [symmetric] by (rule length_takeWhile_le)
  ultimately have le: "m \<le> 12" by simp
  have "n < S ! m" using nth_length_takeWhile [of "\<lambda>s. s \<le> n" S] le S(1) m(1) by simp
  moreover have "S ! (m - 1) \<le> n"
  proof -
    have "takeWhile (\<lambda>s. s \<le> n) S ! (m - 1) \<in> set (takeWhile (\<lambda>s. s \<le> n) S)"
      using pos unfolding m(1) by (intro nth_mem) simp
    then have "takeWhile (\<lambda>s. s \<le> n) S ! (m - 1) \<le> n" by (auto dest: set_takeWhileD)
    then show ?thesis using pos m(1) by (simp add: takeWhile_nth)
  qed
  ultimately show ?thesis
    using pos le m(2) by (simp add: days_in_def S_def [symmetric])
qed

lemma days_in_31: "m \<le> 12 \<Longrightarrow> days_in leap m \<le> 31"
proof -
  have "list_all (\<lambda>m. days_in True m \<le> 31 \<and> days_in False m \<le> 31) [0..<13]" by code_simp
  moreover assume "m \<le> 12"
  ultimately show ?thesis by (cases leap) (simp_all add: list_all_iff)
qed

subsection \<open>Digits\<close>

fun digits :: "nat \<Rightarrow> nat \<Rightarrow> string" where
  "digits 0 n = []"
| "digits (Suc k) n = digits k (n div 10) @ [char_of (48 + n mod 10)]"

lemma length_digits [simp]: "length (digits k n) = k"
  by (induction k arbitrary: n) simp_all

lemma char_digit: "m < 10 \<Longrightarrow> json_digit (char_of (48 + m)) \<and> of_char (char_of (48 + m) :: char) = (48 + m :: nat)"
  by (simp add: json_digit_def byte_in_def)

lemma digits_all: "list_all json_digit (digits k n)"
  by (induction k arbitrary: n) (simp_all add: char_digit)

lemma undecimal_digits: "undecimal (digits k n) = n mod 10 ^ k"
proof (induction k arbitrary: n)
  case (Suc k)
  have "n mod 10 ^ Suc k = 10 * (n div 10 mod 10 ^ k) + n mod 10"
    by (simp add: mod_mult2_eq)
  with Suc show ?case by (simp add: char_digit)
qed simp

lemma undecimal_zeros: "undecimal (replicate k CHR ''0'') = 0"
  by (induction k) simp_all

text \<open>\<open>parseUint\<close> of the RFC 3339 parser.\<close>

definition parse_field :: "string \<Rightarrow> nat \<Rightarrow> nat \<Rightarrow> nat option" where
  "parse_field s lo hi = (if list_all json_digit s \<and> lo \<le> undecimal s \<and> undecimal s \<le> hi then Some (undecimal s) else None)"

lemma parse_digits [simp]: "lo \<le> n \<Longrightarrow> n \<le> hi \<Longrightarrow> n < 10 ^ k \<Longrightarrow> parse_field (digits k n) lo hi = Some n"
  by (simp add: parse_field_def digits_all undecimal_digits del: undecimal.simps)

subsection \<open>Writing and reading\<close>

definition strip_zeros :: "string \<Rightarrow> string" where
  "strip_zeros s = rev (dropWhile (\<lambda>c. c = CHR ''0'') (rev s))"

definition fraction_text :: "nat \<Rightarrow> string" where
  "fraction_text ns = (if ns = 0 then [] else CHR ''.'' # strip_zeros (digits 9 ns))"

definition zone_text :: "int \<Rightarrow> string" where
  "zone_text off =
     (if off = 0 then ''Z''
      else let m = nat (abs off div 60) in
        (if off < 0 \<and> m \<noteq> 0 then ''-'' else ''+'') @ digits 2 (m div 60) @ '':'' @ digits 2 (m mod 60))"

text \<open>\<open>MarshalJSON\<close> refuses a year outside 0 to 9999 and a zone of a day or more.\<close>

definition time_text :: "int \<Rightarrow> instant \<Rightarrow> string option" where
  "time_text off t =
     (let secs = t div second + off;
          (y, n) = year_day (secs div 86400 + 719162);
          (m, d) = month_day (is_leap y) n;
          s = nat (secs mod 86400)
      in if y < 0 \<or> 9999 < y \<or> 86400 \<le> abs off then None
         else Some (digits 4 (nat y) @ ''-'' @ digits 2 m @ ''-'' @ digits 2 d @ ''T'' @
           digits 2 (s div 3600) @ '':'' @ digits 2 (s div 60 mod 60) @ '':'' @ digits 2 (s mod 60) @
           fraction_text (nat (t mod second)) @ zone_text off))"

definition read_fraction :: "string \<Rightarrow> nat \<times> string" where
  "read_fraction s =
     (if starts CHR ''.'' s \<and> tl s \<noteq> [] \<and> json_digit (hd (tl s)) then
        (undecimal (take 9 (takeWhile json_digit (tl s) @ replicate 9 CHR ''0'')), dropWhile json_digit (tl s))
      else (0, s))"

definition read_zone :: "string \<Rightarrow> int option" where
  "read_zone s =
     (if s = ''Z'' then Some 0
      else if length s \<noteq> 6 then None
      else case (parse_field (take 2 (drop 1 s)) 0 23, parse_field (take 2 (drop 4 s)) 0 59) of
        (Some h, Some m) \<Rightarrow>
          (if (s ! 0 = CHR ''-'' \<or> s ! 0 = CHR ''+'') \<and> s ! 3 = CHR '':''
           then Some ((if s ! 0 = CHR ''-'' then - 1 else 1) * (int (h * 60 + m) * 60)) else None)
      | _ \<Rightarrow> None)"

definition read_time :: "string \<Rightarrow> instant option" where
  "read_time s =
     (if length s < 19 then None
      else case (parse_field (take 4 s) 0 9999, parse_field (take 2 (drop 5 s)) 1 12) of
        (Some y, Some m) \<Rightarrow>
          (case (parse_field (take 2 (drop 8 s)) 1 (days_in (is_leap (int y)) m), parse_field (take 2 (drop 11 s)) 0 23,
                 parse_field (take 2 (drop 14 s)) 0 59, parse_field (take 2 (drop 17 s)) 0 59) of
             (Some d, Some h, Some mi, Some se) \<Rightarrow>
               (if s ! 4 = CHR ''-'' \<and> s ! 7 = CHR ''-'' \<and> s ! 10 = CHR ''T'' \<and> s ! 13 = CHR '':'' \<and> s ! 16 = CHR '':'' then
                  (let (ns, r) = read_fraction (drop 19 s) in
                   case read_zone r of
                     None \<Rightarrow> None
                   | Some off \<Rightarrow>
                       Some (((days_of_date (int y) m d - 719162) * 86400 + int (h * 3600 + mi * 60 + se) - off) * second + int ns))
                else None)
           | _ \<Rightarrow> None)
      | _ \<Rightarrow> None)"

lemma strip_pad:
  "strip_zeros s @ replicate (length s - length (strip_zeros s)) CHR ''0'' = s" "length (strip_zeros s) \<le> length s"
  "set (strip_zeros s) \<subseteq> set s"
proof -
  have t: "rev s = takeWhile (\<lambda>c. c = CHR ''0'') (rev s) @ dropWhile (\<lambda>c. c = CHR ''0'') (rev s)" by simp
  have "takeWhile (\<lambda>c. c = CHR ''0'') u = replicate (length (takeWhile (\<lambda>c. c = CHR ''0'') u)) CHR ''0''" for u
    by (induction u) auto
  then obtain n where n: "takeWhile (\<lambda>c. c = CHR ''0'') (rev s) = replicate n CHR ''0''" by blast
  from t have s: "s = strip_zeros s @ replicate n CHR ''0''"
    unfolding n strip_zeros_def by (metis rev_append rev_replicate rev_rev_ident)
  then have "length s = length (strip_zeros s) + n" by (metis length_append length_replicate)
  with s show "strip_zeros s @ replicate (length s - length (strip_zeros s)) CHR ''0'' = s"
    "length (strip_zeros s) \<le> length s" by simp_all
  from s show "set (strip_zeros s) \<subseteq> set s" by (metis Un_upper1 set_append)
qed

lemma read_fraction_text:
  assumes "ns < 10 ^ 9" "r \<noteq> []" "\<not> json_digit (hd r)" "hd r \<noteq> CHR ''.''"
  shows "read_fraction (fraction_text ns @ r) = (ns, r)"
proof (cases "ns = 0")
  case True
  with assms show ?thesis by (cases r) (auto simp: fraction_text_def read_fraction_def)
next
  case False
  define z where "z = strip_zeros (digits 9 ns)"
  have pad: "z @ replicate (9 - length z) CHR ''0'' = digits 9 ns" "length z \<le> 9" "set z \<subseteq> set (digits 9 ns)"
    using strip_pad [of "digits 9 ns"] by (simp_all add: z_def)
  have dz: "list_all json_digit z" using pad(3) digits_all [of 9 ns] by (auto simp: list_all_iff)
  have "z \<noteq> []"
  proof
    assume "z = []"
    with pad(1) have "undecimal (digits 9 ns) = undecimal (replicate 9 CHR ''0'')" by simp
    then have "ns mod 10 ^ 9 = 0" unfolding undecimal_digits undecimal_zeros .
    with assms(1) False show False by simp
  qed
  then obtain c u where z: "z = c # u" by (cases z) auto
  have split: "takeWhile json_digit (z @ r) = z" "dropWhile json_digit (z @ r) = r"
    using dz assms(2,3) by (cases r; simp add: list_all_iff)+
  have "take 9 (z @ replicate 9 CHR ''0'') = z @ replicate (9 - length z) CHR ''0''"
    using pad(2) by (simp add: min_def)
  then have "undecimal (take 9 (z @ replicate 9 CHR ''0'')) = ns mod 10 ^ 9"
    unfolding pad(1) by (simp only: undecimal_digits)
  then have v: "undecimal (take 9 (z @ replicate 9 CHR ''0'')) = ns" using assms(1) by simp
  have "fraction_text ns @ r = CHR ''.'' # c # u @ r" using False z by (simp add: fraction_text_def z_def)
  moreover have "json_digit c" using dz z by simp
  ultimately show ?thesis
    using split v by (simp add: read_fraction_def z del: undecimal.simps)
qed

lemma two_pieces:
  assumes "length A = 2" "length B = 2"
  shows "take 2 (drop 1 (c # A @ CHR '':'' # B)) = A" "take 2 (drop 4 (c # A @ CHR '':'' # B)) = B"
    "(c # A @ CHR '':'' # B) ! 3 = CHR '':''" "c # A @ CHR '':'' # B \<noteq> ''Z''"
proof -
  from assms obtain a b e f where "A = [a, b]" "B = [e, f]" by (auto simp: numeral_2_eq_2 length_Suc_conv)
  then show "take 2 (drop 1 (c # A @ CHR '':'' # B)) = A" "take 2 (drop 4 (c # A @ CHR '':'' # B)) = B"
    "(c # A @ CHR '':'' # B) ! 3 = CHR '':''" "c # A @ CHR '':'' # B \<noteq> ''Z''" by simp_all
qed

lemma read_zone_text:
  assumes "off mod 60 = 0" "abs off < 86400"
  shows "read_zone (zone_text off) = Some off"
proof (cases "off = 0")
  case False
  define m where "m = nat (abs off div 60)"
  have m: "int m * 60 = abs off" "m < 1440" "m \<noteq> 0"
    using assms False by (auto simp: m_def)
  then have h: "m div 60 < 24" "m mod 60 < 60" "m div 60 * 60 + m mod 60 = m"
    by (simp_all add: less_mult_imp_div_less)
  have z: "zone_text off = (if off < 0 then ''-'' else ''+'') @ digits 2 (m div 60) @ '':'' @ digits 2 (m mod 60)"
    using False m(3) by (simp add: zone_text_def m_def Let_def)
  have p: "take 2 (drop 1 (c # digits 2 a @ CHR '':'' # digits 2 b)) = digits 2 a"
    "take 2 (drop 4 (c # digits 2 a @ CHR '':'' # digits 2 b)) = digits 2 b"
    "(c # digits 2 a @ CHR '':'' # digits 2 b) ! 3 = CHR '':''"
    "c # digits 2 a @ CHR '':'' # digits 2 b \<noteq> ''Z''" for c a b
    using two_pieces [of "digits 2 a" "digits 2 b"] by simp_all
  define c where "c = (if off < 0 then CHR ''-'' else CHR ''+'')"
  have zc: "zone_text off = c # digits 2 (m div 60) @ CHR '':'' # digits 2 (m mod 60)" unfolding z c_def by simp
  have f: "parse_field (digits 2 (m div 60)) 0 23 = Some (m div 60)" "parse_field (digits 2 (m mod 60)) 0 59 = Some (m mod 60)"
    using h(1,2) by (intro parse_digits; simp)+
  have "read_zone (zone_text off) = Some ((if c = CHR ''-'' then - 1 else 1) * (int (m div 60 * 60 + m mod 60) * 60))"
    unfolding zc read_zone_def p f by (simp add: p(4) c_def del: digits.simps)
  also have "\<dots> = Some off" unfolding h(3) m(1) c_def by simp
  finally show ?thesis .
qed (simp add: zone_text_def read_zone_def)

text \<open>What is written is read back, whatever the zone.\<close>

lemma date_pieces:
  assumes "length Y = 4" "length M = 2" "length D = 2" "length H = 2" "length I = 2" "length S = 2"
    and s: "s = Y @ CHR ''-'' # M @ CHR ''-'' # D @ CHR ''T'' # H @ CHR '':'' # I @ CHR '':'' # S @ r"
  shows "take 4 s = Y" "take 2 (drop 5 s) = M" "take 2 (drop 8 s) = D" "take 2 (drop 11 s) = H" "take 2 (drop 14 s) = I"
    "take 2 (drop 17 s) = S" "drop 19 s = r" "\<not> length s < 19"
    "s ! 4 = CHR ''-''" "s ! 7 = CHR ''-''" "s ! 10 = CHR ''T''" "s ! 13 = CHR '':''" "s ! 16 = CHR '':''"
proof -
  from assms(1-6) obtain a b c d e f g h i j k l m n where
    "Y = [a, b, c, d]" "M = [e, f]" "D = [g, h]" "H = [i, j]" "I = [k, l]" "S = [m, n]"
    by (auto simp: numeral_eq_Suc length_Suc_conv)
  then show "take 4 s = Y" "take 2 (drop 5 s) = M" "take 2 (drop 8 s) = D" "take 2 (drop 11 s) = H" "take 2 (drop 14 s) = I"
    "take 2 (drop 17 s) = S" "drop 19 s = r" "\<not> length s < 19"
    "s ! 4 = CHR ''-''" "s ! 7 = CHR ''-''" "s ! 10 = CHR ''T''" "s ! 13 = CHR '':''" "s ! 16 = CHR '':''"
    unfolding s by simp_all
qed

lemma zone_text_head: "zone_text off \<noteq> [] \<and> \<not> json_digit (hd (zone_text off)) \<and> hd (zone_text off) \<noteq> CHR ''.''"
  by (simp add: zone_text_def Let_def json_digit_def byte_in_def)

lemma day_seconds:
  fixes n :: nat
  assumes "n < 86400"
  shows "n div 3600 \<le> 23" "n div 60 mod 60 \<le> 59" "n mod 60 \<le> 59" "n div 3600 * 3600 + n div 60 mod 60 * 60 + n mod 60 = n"
proof -
  have "n div 3600 < 24" by (rule less_mult_imp_div_less) (use assms in simp)
  then show "n div 3600 \<le> 23" by simp
  have h: "n div 3600 = n div 60 div 60" by (simp add: div_mult2_eq [symmetric])
  have "n = n div 60 * 60 + n mod 60" "n div 60 = n div 60 div 60 * 60 + n div 60 mod 60" by simp_all
  then show "n div 3600 * 3600 + n div 60 mod 60 * 60 + n mod 60 = n" unfolding h by linarith
qed simp_all

theorem read_time_text:
  assumes "off mod 60 = 0" "time_text off t = Some s"
  shows "read_time s = Some t"
proof -
  define secs where "secs = t div second + off"
  define n where "n = nat (secs mod 86400)"
  obtain y k where y: "year_day (secs div 86400 + 719162) = (y, k)" by fastforce
  obtain m d where md: "month_day (is_leap y) k = (m, d)" by fastforce
  from assms(2) have s: "s = digits 4 (nat y) @ CHR ''-'' # digits 2 m @ CHR ''-'' # digits 2 d @ CHR ''T'' #
      digits 2 (n div 3600) @ CHR '':'' # digits 2 (n div 60 mod 60) @ CHR '':'' # digits 2 (n mod 60) @
      (fraction_text (nat (t mod second)) @ zone_text off)"
    and r: "0 \<le> y" "y \<le> 9999" "abs off < 86400"
    using y md by (auto simp: time_text_def Let_def secs_def n_def split: if_splits)
  from month_day_back [OF md year_day_back(2,3) [OF y]]
  have md: "1 \<le> m" "m \<le> 12" "1 \<le> d" "d \<le> days_in (is_leap y) m" "month_starts (is_leap y) ! (m - 1) + d = k + 1" by auto
  have "d \<le> 31" using md(4) days_in_31 [OF md(2), of "is_leap y"] by simp
  then have f: "parse_field (digits 4 (nat y)) 0 9999 = Some (nat y)" "parse_field (digits 2 m) 1 12 = Some m"
    "parse_field (digits 2 d) 1 (days_in (is_leap y) m) = Some d"
    using md(1-4) r(1,2) by simp_all
  have n: "n < 86400" "int n = secs mod 86400" by (simp_all add: n_def nat_less_iff)
  note t = day_seconds [OF n(1)]
  have g: "parse_field (digits 2 (n div 3600)) 0 23 = Some (n div 3600)"
    by (rule parse_digits) (use t(1) in simp_all)
  have g': "parse_field (digits 2 (n div 60 mod 60)) 0 59 = Some (n div 60 mod 60)"
    by (rule parse_digits) (use t(2) in simp_all)
  have g'': "parse_field (digits 2 (n mod 60)) 0 59 = Some (n mod 60)"
    by (rule parse_digits) (use t(3) in simp_all)
  have ns: "nat (t mod second) < 10 ^ 9" by (simp add: second_def nat_less_iff)
  have fr: "read_fraction (fraction_text (nat (t mod second)) @ zone_text off) = (nat (t mod second), zone_text off)"
    by (rule read_fraction_text [OF ns]) (simp_all add: zone_text_head)
  have "days_of_date y m d = secs div 86400 + 719162"
    using md(5) year_day_back(1) [OF y] by (simp add: days_of_date_def)
  then have date: "(days_of_date y m d - 719162) * 86400 + int n - off = t div second"
    using n(2) by (simp add: secs_def)
  have clock: "int (n div 3600 * 3600 + n div 60 mod 60 * 60 + n mod 60) = int n" unfolding t(4) ..
  have whole: "t div second * second + int (nat (t mod second)) = t" by (simp add: second_def)
  note p = date_pieces [OF length_digits length_digits length_digits length_digits length_digits length_digits s]
  have y': "int (nat y) = y" using r(1) by simp
  have "read_time s = Some (((days_of_date y m d - 719162) * 86400 +
      int (n div 3600 * 3600 + n div 60 mod 60 * 60 + n mod 60) - off) * second + int (nat (t mod second)))"
    unfolding read_time_def p f g g' g'' y' fr option.case prod.case Let_def read_zone_text [OF assms(1) r(3)]
    by (simp only: p(8) if_False simp_thms if_True f(3) option.case prod.case)
  then show ?thesis unfolding clock date whole .
qed

subsection \<open>Which instants can be written\<close>

lemma year_range:
  assumes "year_day d = (y, n)"
  shows "- 366 \<le> d \<Longrightarrow> 0 \<le> y" "d < 3652059 \<Longrightarrow> y \<le> 9999"
proof -
  obtain a b c e r where p: "d = 146097 * a + 36524 * b + 1461 * c + 365 * e + r"
    "0 \<le> b" "b \<le> 3" "0 \<le> c" "c \<le> 24" "0 \<le> e" "e \<le> 3" "0 \<le> r" "r \<le> 365"
    "year_day d = (400 * a + 100 * b + 4 * c + e + 1, nat r)" "r = 365 \<longrightarrow> e = 3 \<and> (c = 24 \<longrightarrow> b = 3)"
    by (rule cycle_parts [of d])
  then have y: "y = 400 * a + 100 * b + 4 * c + e + 1" using assms by simp
  show "0 \<le> y" if d: "- 366 \<le> d"
  proof (rule ccontr)
    assume "\<not> 0 \<le> y"
    then have neg: "400 * a + 100 * b + 4 * c + e + 1 \<le> - 1" by (simp add: y)
    then have "a \<le> - 2 \<or> a = - 1" using p(2,4,6) by linarith
    then show False
    proof
      assume "a = - 1"
      then have "3 \<le> b" "24 \<le> c" using d p(1-9) by linarith+
      then have bc: "b = 3" "c = 24" using p(3,5) by simp_all
      with \<open>a = - 1\<close> neg have "e \<le> 2" by simp
      with \<open>a = - 1\<close> bc d p(1,9) have "r = 365" by simp
      with \<open>e \<le> 2\<close> p(11) show False by simp
    qed (use d p(1-9) in linarith)
  qed
  show "y \<le> 9999" if d: "d < 3652059"
  proof (rule ccontr)
    assume "\<not> y \<le> 9999"
    then have big: "9999 \<le> 400 * a + 100 * b + 4 * c + e" by (simp add: y)
    then have "24 \<le> a" using p(3,5,7) by linarith
    then consider "25 \<le> a" | "a = 24" by linarith
    then show False
    proof cases
      case 2
      then have "b = 3" "c = 24" "e = 3" using big p(2-7) by linarith+
      with 2 d p(1,8) show False by simp
    qed (use d p(1-9) in linarith)
  qed
qed

definition instant_ok :: "instant \<Rightarrow> bool" where
  "instant_ok t \<longleftrightarrow> zero_time \<le> t \<and> t < 253402214400 * second"

definition zone_ok :: "int \<Rightarrow> bool" where
  "zone_ok off \<longleftrightarrow> off mod 60 = 0 \<and> abs off < 86400"

lemma time_written:
  assumes "instant_ok t" "abs off < 86400"
  obtains s where "time_text off t = Some s"
proof -
  define d where "d = (t div second + off) div 86400 + 719162"
  have "- 62135596800 \<le> t div second" "t div second < 253402214400"
    using assms(1) unfolding instant_ok_def zero_time_def second_def by linarith+
  then have "- 62135596800 - 86400 \<le> t div second + off" "t div second + off < 253402214400 + 86400"
    using assms(2) by linarith+
  then have "- 719163 \<le> (t div second + off) div 86400" "(t div second + off) div 86400 < 2932897" by linarith+
  then have d: "- 366 \<le> d" "d < 3652059" by (simp_all add: d_def)
  obtain y n where y: "year_day d = (y, n)" by fastforce
  obtain m k where "month_day (is_leap y) n = (m, k)" by fastforce
  with y year_range [OF y] d assms(2) that show thesis
    by (simp add: time_text_def Let_def d_def [symmetric])
qed

text \<open>The text needs no escapes in JSON.\<close>

lemma plain_digits: "plain_key (digits k n)"
  using digits_all [of k n]
  by (auto simp: plain_key_def list_all_iff json_digit_def byte_in_def html_char_def)

lemma plain_append [simp]: "plain_key (a @ b) \<longleftrightarrow> plain_key a \<and> plain_key b"
  by (simp add: plain_key_def)

lemma plain_zone: "plain_key (zone_text off)"
proof -
  have c: "plain_key ''-''" "plain_key ''+''" "plain_key '':''" "plain_key ''Z''" by code_simp+
  show ?thesis unfolding zone_text_def Let_def using c plain_digits by (simp only: plain_append split: if_splits) simp
qed

lemma plain_fraction: "plain_key (fraction_text n)"
proof -
  have "plain_key (strip_zeros (digits 9 n))"
    using strip_pad(3) [of "digits 9 n"] plain_digits [of 9 n] by (auto simp: plain_key_def list_all_iff)
  then show ?thesis by (simp add: fraction_text_def) (simp add: plain_key_def byte_in_def html_char_def)
qed

lemma plain_time: "time_text off t = Some s \<Longrightarrow> plain_key s"
proof -
  assume "time_text off t = Some s"
  then obtain a b c e f g h k where "s = digits 4 a @ ''-'' @ digits 2 b @ ''-'' @ digits 2 c @ ''T'' @ digits 2 e @ '':'' @
      digits 2 f @ '':'' @ digits 2 g @ fraction_text h @ zone_text k"
    by (auto simp: time_text_def Let_def split: prod.splits if_splits)
  moreover have "plain_key ''-''" "plain_key ''T''" "plain_key '':''" by code_simp+
  ultimately show ?thesis by (simp only: plain_append plain_digits plain_fraction plain_zone simp_thms)
qed

end
