(* ===== verification/Hub_Files.thy ===== *)
theory Hub_Files
  imports Store_JSON Time_Text
begin

section \<open>The cache file and the community file (\<open>hub/cache.go\<close>, \<open>hub/community.go\<close>)\<close>

text \<open>
  Both files hold an array of hub locators. Two members of a locator have decoders of their own,
  \<open>hexBytes\<close> and \<open>time.Time\<close>; an error of theirs ends the decoding of the whole text at once,
  where other complaints are noted and passed over. So a decoder here has a third result: whether
  decoding goes on. The time zone of an entry's instant is an argument of the writer (\<open>zone\<close>),
  what Go's general parser makes of a time outside RFC 3339 an argument of the reader (\<open>lenient\<close>).
\<close>

subsection \<open>Decoding that can be cut short\<close>

type_synonym 'a cut_decoder = "string \<Rightarrow> 'a \<Rightarrow> 'a \<times> bool \<times> bool"

text \<open>The elements of an array, into those the slice already has; on a cut the rest of these stay.\<close>

fun dec_seq :: "'a cut_decoder \<Rightarrow> 'a \<Rightarrow> string list \<Rightarrow> 'a list \<Rightarrow> 'a list \<times> bool \<times> bool" where
  "dec_seq d z [] os = ([], True, True)"
| "dec_seq d z (r # rs) os =
     (let rest = drop 1 os in
      case d r (case os of [] \<Rightarrow> z | x # _ \<Rightarrow> x) of
        (x, ok, go) \<Rightarrow>
          (if \<not> go then (x # rest, False, False)
           else case dec_seq d z rs rest of (xs, ok', go') \<Rightarrow> (x # xs, ok \<and> ok', go')))"

definition dec_array :: "'a cut_decoder \<Rightarrow> 'a \<Rightarrow> 'a list cut_decoder" where
  "dec_array d z raw old =
     (if starts CHR ''['' raw then dec_seq d z (json_parts raw) old
      else if starts CHR ''n'' raw then ([], True, True)
      else (old, False, True))"

text \<open>A member that occurs several times is decoded several times.\<close>

fun dec_again :: "'a cut_decoder \<Rightarrow> string list \<Rightarrow> 'a \<Rightarrow> 'a \<times> bool \<times> bool" where
  "dec_again d [] old = (old, True, True)"
| "dec_again d (v # vs) old =
     (case d v old of
        (x, ok, go) \<Rightarrow>
          (if \<not> go then (x, False, False)
           else case dec_again d vs x of (y, ok', go') \<Rightarrow> (y, ok \<and> ok', go')))"

text \<open>The members up to and including the first that cuts.\<close>

fun until :: "('a \<Rightarrow> bool) \<Rightarrow> 'a list \<Rightarrow> 'a list" where
  "until p [] = []"
| "until p (x # xs) = (if p x then [x] else x # until p xs)"

lemma until_none: "list_all (\<lambda>x. \<not> p x) xs \<Longrightarrow> until p xs = xs"
  by (induction xs) simp_all

subsection \<open>One locator\<close>

text \<open>\<open>Time.UnmarshalJSON\<close> takes what is between the quotes as it stands.\<close>

definition dec_time :: "(string \<Rightarrow> instant option) \<Rightarrow> instant decoder" where
  "dec_time lenient raw old =
     (if raw = ''null'' then (old, True)
      else if length raw < 2 \<or> hd raw \<noteq> CHR 0x22 \<or> last raw \<noteq> CHR 0x22 then (old, False)
      else case read_time (butlast (tl raw)) of
        Some t \<Rightarrow> (t, True)
      | None \<Rightarrow> (case lenient (butlast (tl raw)) of Some t \<Rightarrow> (t, True) | None \<Rightarrow> (zero_time, False)))"

definition hub_members :: "string \<Rightarrow> cached_hub \<Rightarrow> (string \<times> jtree) list" where
  "hub_members seen h =
     opt_member (ch_name h \<noteq> []) ''name'' (enc_str (ch_name h)) @
     [(''ed25519'', enc_hex (ch_ed h))] @
     opt_member (ch_x h \<noteq> []) ''x25519'' (enc_hex (ch_x h)) @
     opt_member (ch_v6 h \<noteq> []) ''ipv6'' (enc_str (ch_v6 h)) @
     opt_member (ch_v4 h \<noteq> []) ''ipv4'' (enc_str (ch_v4 h)) @
     [(''port'', enc_int (uint (ch_port h)))] @
     opt_member (ch_rtt h \<noteq> 0) ''last_rtt_ms'' (enc_int (ch_rtt h)) @
     [(''last_seen'', JLit (json_key seen))] @
     opt_member (ch_source h \<noteq> []) ''source'' (enc_str (ch_source h)) @
     opt_member (ch_cloud h) ''cloud_seed'' (enc_bool (ch_cloud h)) @
     opt_member (ch_short h \<noteq> []) ''short'' (enc_str (ch_short h))"

definition hub_tree :: "(cached_hub \<Rightarrow> int) \<Rightarrow> cached_hub \<Rightarrow> jtree option" where
  "hub_tree zone h =
     (case time_text (zone h) (ch_seen h) of None \<Rightarrow> None | Some seen \<Rightarrow> Some (JObj (hub_members seen h)))"

definition hub_member_cuts :: "(string \<Rightarrow> instant option) \<Rightarrow> string \<times> string \<Rightarrow> bool" where
  "hub_member_cuts lenient m \<longleftrightarrow>
     (case m of (k, v) \<Rightarrow>
        (fold_key k = fold_key ''ed25519'' \<or> fold_key k = fold_key ''x25519'') \<and> \<not> snd (dec_hex v []) \<or>
        fold_key k = fold_key ''last_seen'' \<and> \<not> snd (dec_time lenient v zero_time))"

definition dec_hub_members :: "(string \<Rightarrow> instant option) \<Rightarrow> members \<Rightarrow> cached_hub \<Rightarrow> cached_hub \<times> bool" where
  "dec_hub_members lenient ms old =
     (let (name, k1) = field dec_str ''name'' ms (ch_name old);
          (ed, k2) = field dec_hex ''ed25519'' ms (ch_ed old);
          (x, k3) = field dec_hex ''x25519'' ms (ch_x old);
          (v6, k4) = field dec_str ''ipv6'' ms (ch_v6 old);
          (v4, k5) = field dec_str ''ipv4'' ms (ch_v4 old);
          (port, k6) = field dec_uint ''port'' ms (ch_port old);
          (rtt, k7) = field dec_int64 ''last_rtt_ms'' ms (ch_rtt old);
          (seen, k8) = field (dec_time lenient) ''last_seen'' ms (ch_seen old);
          (src, k9) = field dec_str ''source'' ms (ch_source old);
          (cloud, k10) = field dec_bool ''cloud_seed'' ms (ch_cloud old);
          (short, k11) = field dec_str ''short'' ms (ch_short old)
      in (\<lparr>ch_name = name, ch_ed = ed, ch_x = x, ch_v6 = v6, ch_v4 = v4, ch_port = port, ch_rtt = rtt, ch_seen = seen,
           ch_source = src, ch_cloud = cloud, ch_short = short\<rparr>,
          k1 \<and> k2 \<and> k3 \<and> k4 \<and> k5 \<and> k6 \<and> k7 \<and> k8 \<and> k9 \<and> k10 \<and> k11))"

definition dec_hub :: "(string \<Rightarrow> instant option) \<Rightarrow> cached_hub cut_decoder" where
  "dec_hub lenient raw old =
     (if starts CHR ''{'' raw then
        (let ms = object_members raw in
         case dec_hub_members lenient (until (hub_member_cuts lenient) ms) old of
           (h, ok) \<Rightarrow> (h, ok, list_all (\<lambda>m. \<not> hub_member_cuts lenient m) ms))
      else (old, starts CHR ''n'' raw, True))"

definition zero_hub :: cached_hub where
  "zero_hub = \<lparr>ch_name = [], ch_ed = [], ch_x = [], ch_v6 = [], ch_v4 = [], ch_port = 0, ch_rtt = 0, ch_seen = zero_time,
     ch_source = [], ch_cloud = False, ch_short = []\<rparr>"

definition repair_hub :: "cached_hub \<Rightarrow> cached_hub" where
  "repair_hub h = h\<lparr>ch_name := repair (ch_name h), ch_v6 := repair (ch_v6 h), ch_v4 := repair (ch_v4 h),
     ch_source := repair (ch_source h), ch_short := repair (ch_short h)\<rparr>"

lemma dec_time_text:
  assumes "off mod 60 = 0" "time_text off t = Some ts"
  shows "dec_time lenient (json_key ts) old = (t, True)"
  using read_time_text [OF assms] by (simp add: dec_time_def json_key_def)

lemma file_names [simp]:
  "fold_key ''last_rtt_ms'' = ''LAST_RTT_MS''" "fold_key ''last_seen'' = ''LAST_SEEN''" "fold_key ''source'' = ''SOURCE''"
  "fold_key ''short'' = ''SHORT''" "fold_key ''hubs'' = ''HUBS''" "fold_key ''version'' = ''VERSION''"
  "fold_key ''root_pubkey'' = ''ROOT_PUBKEY''"
  "plain_key ''last_rtt_ms''" "plain_key ''last_seen''" "plain_key ''source''" "plain_key ''short''" "plain_key ''hubs''"
  "plain_key ''version''" "plain_key ''root_pubkey''"
  by code_simp+

lemma hub_members_ok: "plain_key seen \<Longrightarrow> tree_ok cp (Suc n) (JObj (hub_members seen h))"
  by (simp add: hub_members_def value_text_key)

lemma hub_tree_ok: "hub_tree zone h = Some t \<Longrightarrow> tree_ok cp (Suc n) t"
  using hub_members_ok plain_time by (auto simp: hub_tree_def split: option.splits)

lemma hub_back:
  assumes "hub_tree zone h = Some t" "zone h mod 60 = 0" "- (2 ^ 63) \<le> ch_rtt h" "ch_rtt h < 2 ^ 63"
  shows "dec_hub lenient (json_print sty d t) zero_hub = (repair_hub h, True, True)"
proof -
  from assms(1) obtain seen where seen: "time_text (zone h) (ch_seen h) = Some seen" and t: "t = JObj (hub_members seen h)"
    by (auto simp: hub_tree_def split: option.splits)
  have tree: "tree_ok False (Suc 0) (JObj (hub_members seen h))" by (rule hub_members_ok [OF plain_time [OF seen]])
  have time: "dec_time lenient (json_key seen) old = (ch_seen h, True)" for old
    by (rule dec_time_text [OF assms(2) seen])
  define ms where "ms = object_members (json_print sty d t)"
  have ms: "ms = map (\<lambda>(k, t). (k, json_print sty (Suc d) t)) (hub_members seen h)"
    unfolding ms_def t by (rule members_print [OF tree _ three_max(4)]) simp
  have cuts: "list_all (\<lambda>m. \<not> hub_member_cuts lenient m) ms"
    unfolding ms by (simp add: hub_members_def hub_member_cuts_def time)
  have texts: "field_texts ''name'' ms = (if ch_name h \<noteq> [] then [json_print sty (Suc d) (enc_str (ch_name h))] else [])"
    "field_texts ''ed25519'' ms = [json_print sty (Suc d) (enc_hex (ch_ed h))]"
    "field_texts ''x25519'' ms = (if ch_x h \<noteq> [] then [json_print sty (Suc d) (enc_hex (ch_x h))] else [])"
    "field_texts ''ipv6'' ms = (if ch_v6 h \<noteq> [] then [json_print sty (Suc d) (enc_str (ch_v6 h))] else [])"
    "field_texts ''ipv4'' ms = (if ch_v4 h \<noteq> [] then [json_print sty (Suc d) (enc_str (ch_v4 h))] else [])"
    "field_texts ''port'' ms = [json_print sty (Suc d) (enc_int (uint (ch_port h)))]"
    "field_texts ''last_rtt_ms'' ms = (if ch_rtt h \<noteq> 0 then [json_print sty (Suc d) (enc_int (ch_rtt h))] else [])"
    "field_texts ''last_seen'' ms = [json_key seen]"
    "field_texts ''source'' ms = (if ch_source h \<noteq> [] then [json_print sty (Suc d) (enc_str (ch_source h))] else [])"
    "field_texts ''cloud_seed'' ms = (if ch_cloud h then [json_print sty (Suc d) (enc_bool (ch_cloud h))] else [])"
    "field_texts ''short'' ms = (if ch_short h \<noteq> [] then [json_print sty (Suc d) (enc_str (ch_short h))] else [])"
    unfolding ms hub_members_def by simp_all
  have fields: "field dec_str ''name'' ms [] = (repair (ch_name h), True)" "field dec_hex ''ed25519'' ms [] = (ch_ed h, True)"
    "field dec_hex ''x25519'' ms [] = (ch_x h, True)" "field dec_str ''ipv6'' ms [] = (repair (ch_v6 h), True)"
    "field dec_str ''ipv4'' ms [] = (repair (ch_v4 h), True)" "field dec_uint ''port'' ms 0 = (ch_port h, True)"
    "field dec_int64 ''last_rtt_ms'' ms 0 = (ch_rtt h, True)" "field (dec_time lenient) ''last_seen'' ms zero_time = (ch_seen h, True)"
    "field dec_str ''source'' ms [] = (repair (ch_source h), True)" "field dec_bool ''cloud_seed'' ms False = (ch_cloud h, True)"
    "field dec_str ''short'' ms [] = (repair (ch_short h), True)"
    unfolding field_def texts using assms(3,4) by (simp_all add: dec_enc_str time)
  have "dec_hub_members lenient ms zero_hub = (repair_hub h, True)"
    unfolding dec_hub_members_def zero_hub_def cached_hub.simps fields Let_def prod.case by (simp add: repair_hub_def)
  moreover have "starts CHR ''{'' (json_print sty d t)" by (simp add: t)
  ultimately show ?thesis
    using cuts by (simp add: dec_hub_def ms_def [symmetric] until_none Let_def)
qed

subsection \<open>Arrays of locators\<close>

fun all_some :: "'a option list \<Rightarrow> 'a list option" where
  "all_some [] = Some []"
| "all_some (None # xs) = None"
| "all_some (Some x # xs) = map_option (Cons x) (all_some xs)"

definition hub_array :: "jtree list \<Rightarrow> jtree" where
  "hub_array ts = (if ts = [] then JLit ''null'' else JArr ts)"

text \<open>
  What can be written: a round-trip time of 64 bits, an instant up to the year 9999, a zone of whole
  minutes. Strings are written whatever bytes they have, but only UTF-8 is read back unchanged.
\<close>

definition hub_file_ok :: "(cached_hub \<Rightarrow> int) \<Rightarrow> cached_hub \<Rightarrow> bool" where
  "hub_file_ok zone h \<longleftrightarrow> - (2 ^ 63) \<le> ch_rtt h \<and> ch_rtt h < 2 ^ 63 \<and> zone_ok (zone h) \<and> instant_ok (ch_seen h)"

definition hub_utf8 :: "cached_hub \<Rightarrow> bool" where
  "hub_utf8 h \<longleftrightarrow> list_all valid_utf8 [ch_name h, ch_v6 h, ch_v4 h, ch_source h, ch_short h]"

definition hub_text_ok :: "(cached_hub \<Rightarrow> int) \<Rightarrow> cached_hub \<Rightarrow> bool" where
  "hub_text_ok zone h \<longleftrightarrow> hub_utf8 h \<and> hub_file_ok zone h"

lemma repair_hub_id: "repair_hub h = h \<longleftrightarrow> hub_utf8 h"
  by (cases h) (simp add: repair_hub_def hub_utf8_def valid_utf8_def)

lemma repair_hubs_id: "map repair_hub hs = hs \<longleftrightarrow> list_all hub_utf8 hs"
  by (induction hs) (simp_all add: repair_hub_id)

lemma hubs_text_ok: "list_all (hub_text_ok zone) hs \<longleftrightarrow> list_all hub_utf8 hs \<and> list_all (hub_file_ok zone) hs"
  by (auto simp: hub_text_ok_def list_all_iff)

lemma hub_tree_exists:
  assumes "hub_file_ok zone h"
  obtains t where "hub_tree zone h = Some t" "tree_ok False (Suc 0) t"
    "\<And>sty d. dec_hub lenient (json_print sty d t) zero_hub = (repair_hub h, True, True)"
proof -
  from assms have ok: "instant_ok (ch_seen h)" "zone h mod 60 = 0" "abs (zone h) < 86400"
    "- (2 ^ 63) \<le> ch_rtt h" "ch_rtt h < 2 ^ 63"
    by (simp_all add: hub_file_ok_def zone_ok_def)
  obtain s where "time_text (zone h) (ch_seen h) = Some s" using time_written [OF ok(1,3)] .
  then obtain t where t: "hub_tree zone h = Some t" by (simp add: hub_tree_def)
  from that [OF t hub_tree_ok [OF t] hub_back [OF t ok(2,4,5)]] show thesis .
qed

lemma hub_trees_exist:
  assumes "list_all (hub_file_ok zone) hs"
  obtains ts where "all_some (map (hub_tree zone) hs) = Some ts" "list_all (tree_ok False (Suc 0)) ts"
    "\<forall>sty d. dec_seq (dec_hub lenient) zero_hub (map (json_print sty d) ts) [] = (map repair_hub hs, True, True)"
proof -
  have "\<exists>ts. all_some (map (hub_tree zone) hs) = Some ts \<and> list_all (tree_ok False (Suc 0)) ts \<and>
    (\<forall>sty d. dec_seq (dec_hub lenient) zero_hub (map (json_print sty d) ts) [] = (map repair_hub hs, True, True))"
    using assms
  proof (induction hs)
    case (Cons h hs)
    then obtain ts where ts: "all_some (map (hub_tree zone) hs) = Some ts" "list_all (tree_ok False (Suc 0)) ts"
      "\<forall>sty d. dec_seq (dec_hub lenient) zero_hub (map (json_print sty d) ts) [] = (map repair_hub hs, True, True)" by auto
    from Cons.prems obtain t where "hub_tree zone h = Some t" "tree_ok False (Suc 0) t"
      "\<And>sty d. dec_hub lenient (json_print sty d t) zero_hub = (repair_hub h, True, True)"
      using hub_tree_exists [of zone h lenient] by auto
    with ts show ?case by (intro exI [of _ "t # ts"]) simp
  qed simp
  then show thesis using that by blast
qed

lemma hub_array_back:
  assumes "list_all (tree_ok False (Suc 0)) ts"
    "\<And>sty d. dec_seq (dec_hub lenient) zero_hub (map (json_print sty d) ts) [] = (hs, True, True)"
  shows "dec_array (dec_hub lenient) zero_hub (json_print sty d (hub_array ts)) [] = (hs, True, True)"
    "tree_ok False (Suc (Suc 0)) (hub_array ts)"
proof -
  show ok: "tree_ok False (Suc (Suc 0)) (hub_array ts)"
    using assms(1) by (simp add: hub_array_def value_text_word list_all_iff)
  show "dec_array (dec_hub lenient) zero_hub (json_print sty d (hub_array ts)) [] = (hs, True, True)"
  proof (cases ts)
    case Nil
    with assms(2) have "hs = []" by simp
    with Nil show ?thesis by (simp add: hub_array_def dec_array_def)
  next
    case Cons
    then have a: "hub_array ts = JArr ts" by (simp add: hub_array_def)
    have "starts CHR ''['' (json_print sty d (JArr ts))" by simp
    then show ?thesis
      using array_parts [OF ok [unfolded a] _ three_max(3), of sty d] assms(2)
      by (simp add: a dec_array_def del: json_print.simps)
  qed
qed

subsection \<open>The two files\<close>

definition dec_cache :: "(string \<Rightarrow> instant option) \<Rightarrow> members \<Rightarrow> cached_hub list \<Rightarrow> cached_hub list \<times> bool" where
  "dec_cache lenient ms old =
     (case dec_again (dec_array (dec_hub lenient) zero_hub) (field_texts ''hubs'' ms) old of (hs, ok, go) \<Rightarrow> (hs, ok))"

definition go_cache_json :: "(cached_hub \<Rightarrow> int) \<Rightarrow> (string \<Rightarrow> instant option) \<Rightarrow> cache_json" where
  "go_cache_json zone lenient =
     \<lparr>js_hubs = (\<lambda>hs. map_option (\<lambda>ts. json_marshal_indent (JObj [(''hubs'', hub_array ts)])) (all_some (map (hub_tree zone) hs))),
      un_hubs = (\<lambda>b. fst (json_unmarshal (dec_struct (dec_cache lenient)) [] b))\<rparr>"

text \<open>\<open>LoadCommunity\<close> gives up on any complaint, so only the texts without one matter.\<close>

definition dec_community :: "(string \<Rightarrow> instant option) \<Rightarrow> members \<Rightarrow> community_file \<Rightarrow> community_file \<times> bool" where
  "dec_community lenient ms old =
     (let (v, k1) = field dec_int64 ''version'' ms (cf_version old);
          (root, k2) = field dec_hex ''root_pubkey'' ms (cf_root old);
          (hs, k3, go) = dec_again (dec_array (dec_hub lenient) zero_hub) (field_texts ''hubs'' ms) (cf_hubs old);
          (sig, k4) = field dec_hex ''sig'' ms (cf_sig old)
      in (\<lparr>cf_version = v, cf_root = root, cf_hubs = hs, cf_sig = sig\<rparr>, k1 \<and> k2 \<and> k3 \<and> k4))"

definition zero_community :: community_file where
  "zero_community = \<lparr>cf_version = 0, cf_root = [], cf_hubs = [], cf_sig = []\<rparr>"

definition community_members :: "community_file \<Rightarrow> jtree list \<Rightarrow> (string \<times> jtree) list" where
  "community_members f ts =
     [(''version'', enc_int (cf_version f)), (''root_pubkey'', enc_hex (cf_root f)), (''hubs'', hub_array ts),
      (''sig'', enc_hex (cf_sig f))]"

definition go_community_json :: "(cached_hub \<Rightarrow> int) \<Rightarrow> (string \<Rightarrow> instant option) \<Rightarrow> community_json" where
  "go_community_json zone lenient =
     \<lparr>js_wire = go_js_wire,
      js_community = (\<lambda>f. map_option (\<lambda>ts. json_marshal_indent (JObj (community_members f ts)))
        (all_some (map (hub_tree zone) (cf_hubs f)))),
      un_community = json_unmarshal_ok (dec_struct (dec_community lenient)) zero_community\<rparr>"

lemma cache_back:
  assumes "list_all (hub_file_ok zone) hs"
  obtains b where "js_hubs (go_cache_json zone lenient) hs = Some b"
    "un_hubs (go_cache_json zone lenient) b = map repair_hub hs"
proof -
  obtain ts where ts: "all_some (map (hub_tree zone) hs) = Some ts" "list_all (tree_ok False (Suc 0)) ts"
    "\<forall>sty d. dec_seq (dec_hub lenient) zero_hub (map (json_print sty d) ts) [] = (map repair_hub hs, True, True)"
    by (rule hub_trees_exist [where lenient = lenient, OF assms])
  note arr = hub_array_back [OF ts(2) ts(3) [rule_format]]
  have "tree_ok False (Suc (Suc (Suc 0))) (JObj [(''hubs'', hub_array ts)])" using arr(2) by simp
  from unmarshal_indent [OF this three_max(2), of "dec_cache lenient" "[]"]
  have "json_unmarshal (dec_struct (dec_cache lenient)) [] (json_marshal_indent (JObj [(''hubs'', hub_array ts)])) = (map repair_hub hs, True)"
    by (simp add: dec_cache_def arr(1) del: json_print.simps)
  with ts(1) that show thesis by (simp add: go_cache_json_def)
qed

text \<open>The community file ends with a line feed.\<close>

lemma trailing_newline:
  assumes "value_text cp n v" "n \<le> max_nesting"
  shows "json_unmarshal dec z (bytes_of v @ [10]) = dec v z"
proof -
  have lf: "string_of (bytes_of v @ [10]) = v @ [CHR 0x0A]"
    by (simp add: string_of_def bytes_of_def comp_def) code_simp
  from assms(2) have "length [] + n \<le> max_nesting" by simp
  from value_textD [OF assms(1) this] obtain es st where es: "scan_trace (BeginValue, []) v = Some (es, (st, []))" "ended (st, [])"
    by blast
  have "\<exists>w. scan_step (st, []) CHR 0x0A = Some ((EndTop, []), w)"
    using es(2) by (auto simp: ended_def end_value_def json_space_def digit_or_def after_zero_def json_digit_def byte_in_def)
  then have "json_valid (v @ [CHR 0x0A])"
    using es(1) by (auto simp: json_valid_def scan_text_def scan_trace_append scan_eof_def simp del: scan_step.simps)
  moreover have "strip_blank (v @ [CHR 0x0A]) = v"
  proof -
    have v: "v \<noteq> []" "\<not> json_space (hd v)" "\<not> json_space (last v)"
      using value_text_last [OF assms] assms(1) by (auto simp: value_text_def)
    then have "dropWhile json_space (v @ [CHR 0x0A]) = v @ [CHR 0x0A]" "dropWhile json_space (rev v) = rev v"
      by (cases v; simp) (cases v rule: rev_cases; use v(3) in simp)
    moreover have "json_space CHR 0x0A" by (simp add: json_space_def)
    ultimately show ?thesis by (simp add: strip_blank_def)
  qed
  ultimately show ?thesis by (simp add: json_unmarshal_def lf)
qed

lemma community_back:
  assumes hubs: "list_all (hub_text_ok zone) (cf_hubs f)" and "- (2 ^ 63) \<le> cf_version f" "cf_version f < 2 ^ 63"
  obtains b where "js_community (go_community_json zone lenient) f = Some b"
    "un_community (go_community_json zone lenient) (b @ [10]) = Some f"
proof -
  obtain ts where ts: "all_some (map (hub_tree zone) (cf_hubs f)) = Some ts" "list_all (tree_ok False (Suc 0)) ts"
    "\<forall>sty d. dec_seq (dec_hub lenient) zero_hub (map (json_print sty d) ts) [] = (cf_hubs f, True, True)"
    using hub_trees_exist [of zone "cf_hubs f" lenient] hubs unfolding hubs_text_ok repair_hubs_id [symmetric] by auto
  note arr = hub_array_back [OF ts(2) ts(3) [rule_format]]
  let ?t = "JObj (community_members f ts)"
  have ok: "tree_ok False (Suc (Suc (Suc 0))) ?t" using arr(2) by (simp add: community_members_def)
  have "value_text False (Suc (Suc (Suc 0))) (json_print Indented 0 ?t)" by (rule print_value [OF ok]) simp
  from trailing_newline [OF this three_max(2), of "dec_struct (dec_community lenient)" zero_community]
  have "json_unmarshal (dec_struct (dec_community lenient)) zero_community (json_marshal_indent ?t @ [10]) =
      dec_community lenient (map (\<lambda>(k, t). (k, json_print Indented (Suc 0) t)) (community_members f ts)) zero_community"
    unfolding json_marshal_indent_def by (simp only: dec_struct_print [OF ok _ three_max(2)] simp_thms)
  also have "\<dots> = (f, True)"
    using assms(2,3)
    by (simp add: community_members_def dec_community_def field_def arr(1) zero_community_def del: json_print.simps)
  finally show thesis using that ts(1) by (simp add: go_community_json_def json_unmarshal_ok_def)
qed

subsection \<open>What a spoke keeps\<close>

lemma remember_mem:
  assumes "x \<in> set (c_hubs (remember now h c))"
  shows "x \<in> set (c_hubs c) \<or> x = merge_hub now h None \<or> (\<exists>old \<in> set (c_hubs c). x = merge_hub now h (Some old))"
proof -
  have "x \<in> set (remember_scan (h\<lparr>ch_port := port_or_default (ch_port h), ch_seen := now\<rparr>) hs) \<Longrightarrow>
      x \<in> set hs \<or> x = merge_hub now h None \<or> (\<exists>old \<in> set hs. x = merge_hub now h (Some old))" for hs
    by (induction hs) (auto simp: merge_hub_def Let_def split: if_splits)
  then show ?thesis using assms by (simp add: remember_hubs)
qed

lemma remember_file_ok:
  assumes "list_all (hub_file_ok zone) (c_hubs c)" "\<And>h. zone_ok (zone h)" "hub_file_ok zone h" "instant_ok now"
  shows "list_all (hub_file_ok zone) (c_hubs (remember now h c))"
  using assms unfolding list_all_iff by (auto simp: hub_file_ok_def merge_hub_def dest!: remember_mem)

lemma remember_utf8:
  assumes "list_all hub_utf8 (c_hubs c)" "hub_utf8 h"
  shows "list_all hub_utf8 (c_hubs (remember now h c))"
  using assms unfolding list_all_iff by (auto simp: hub_utf8_def merge_hub_def dest!: remember_mem)

text \<open>
  C39: What the cache file keeps: whatever hubs a spoke remembers, \<open>Save\<close> writes a file from which
  \<open>OpenCache\<close> gets back the same entries in the same order, down to the nanoseconds of the instants,
  whatever time zones (of whole minutes) these are written in, with the bytes of a string that are not
  UTF-8 replaced. So the cache is the same exactly when all its strings are UTF-8; a name that \<open>marshal\<close>
  has cut within a rune is not. Instants have years up to 9999 and round-trip times 64 bits, as in Go.
\<close>

theorem cache_file_survives:
  assumes "\<And>h. zone_ok (zone h)" and path: "c_path c0 = path" "path \<noteq> []"
    and start: "list_all (hub_file_ok zone) (c_hubs c0)"
    and ops: "list_all (\<lambda>(now, h). instant_ok now \<and> hub_file_ok zone h) ops"
    and c: "c = foldl (\<lambda>c (now, h). remember now h c) c0 ops"
  shows "\<exists>b. cache_save (go_cache_json zone lenient) disk_write c d = (d(path := Some b), True) \<and>
    open_cache (go_cache_json zone lenient) (d(path := Some b)) path = c\<lparr>c_hubs := map repair_hub (c_hubs c)\<rparr> \<and>
    (open_cache (go_cache_json zone lenient) (d(path := Some b)) path = c \<longleftrightarrow> list_all hub_utf8 (c_hubs c))"
proof -
  have "list_all (hub_file_ok zone) (c_hubs (foldl (\<lambda>c (now, h). remember now h c) k ops)) \<and>
      c_path (foldl (\<lambda>c (now, h). remember now h c) k ops) = c_path k"
    if "list_all (hub_file_ok zone) (c_hubs k)" for k
    using ops that
  proof (induction ops arbitrary: k)
    case (Cons op ops)
    obtain now h where op: "op = (now, h)" by fastforce
    have "list_all (hub_file_ok zone) (c_hubs (remember now h k))"
      by (rule remember_file_ok) (use Cons.prems assms(1) op in simp_all)
    moreover have "c_path (remember now h k) = c_path k" by (simp add: remember_def Let_def)
    ultimately show ?case using Cons.IH [of "remember now h k"] Cons.prems op by simp
  qed simp
  from this [OF start] c path have k: "list_all (hub_file_ok zone) (c_hubs c)" "c_path c = path" by simp_all
  from cache_back [OF k(1), of lenient] obtain b where b: "js_hubs (go_cache_json zone lenient) (c_hubs c) = Some b"
    "un_hubs (go_cache_json zone lenient) b = map repair_hub (c_hubs c)" .
  have "cache_save (go_cache_json zone lenient) disk_write c d = (d(path := Some b), True)"
    using k(2) path(2) b(1) by (simp add: cache_save_def disk_write_def)
  moreover have "open_cache (go_cache_json zone lenient) (d(path := Some b)) path = c\<lparr>c_hubs := map repair_hub (c_hubs c)\<rparr>"
    using k(2) b(2) by (cases c) (simp add: open_cache_def)
  moreover have "c\<lparr>c_hubs := map repair_hub (c_hubs c)\<rparr> = c \<longleftrightarrow> list_all hub_utf8 (c_hubs c)"
    unfolding repair_hubs_id [symmetric] by (cases c) simp
  ultimately show ?thesis by auto
qed

text \<open>
  A file with one entry that does not decode loses all entries after it, without an error; the next
  \<open>Save\<close> makes that permanent.
\<close>

lemma bad_entry_drops_rest:
  assumes "list_all2 (\<lambda>r x. d r z = (x, True, True)) rs xs" "d r z = (x, ok, False)"
  shows "dec_seq d z (rs @ r # rs') [] = (xs @ [x], False, False)"
  using assms by (induction rule: list_all2_induct) simp_all

text \<open>
  C32: A community list reaches its users as a file: what \<open>SignCommunity\<close> signs and \<open>Save\<close> writes as JSON,
  \<open>LoadCommunity\<close> reads, verifies and gives back, every hub with its source and short code filled
  in, to those who pin the signer's key or pin nothing; who pins another key gets an error.
\<close>

theorem community_file_travels:
  assumes C: "sign_correct C" "length (ed_public C root) = 32" and J: "J = go_community_json zone lenient"
    and f: "SignCommunity C J root hubs = Inr f" and hubs: "list_all (hub_text_ok zone) hubs"
  shows "fst (community_save J disk_write f path d) = None \<and>
    LoadCommunity C J (snd (community_save J disk_write f path d)) path pinned =
      (if pinned = None \<or> pinned = Some (ed_public C root) then Inr (f\<lparr>cf_hubs := map fill_hub hubs\<rparr>)
       else Inl CommPin)"
proof -
  have "cf_hubs f = hubs" "cf_version f = 1" using f by (auto simp: SignCommunity_def split: option.splits)
  with hubs community_back [of zone f lenient] obtain b where
    b: "js_community J f = Some b" "un_community J (b @ [10]) = Some f" unfolding J by auto
  then have "fst (community_save J disk_write f path d) = None" by (simp add: community_save_def disk_write_def)
  with community_roundtrip [OF C f b, of path d pinned] show ?thesis by blast
qed

definition utc :: "cached_hub \<Rightarrow> int" where "utc h = 0"

lemma demo_hub_file: "hub_text_ok utc demo_hub" "zone_ok (utc h)"
  by (simp_all add: hub_text_ok_def hub_utf8_def hub_file_ok_def demo_hub_def zone_ok_def utc_def instant_ok_def zero_time_def second_def valid_utf8_ascii is_ascii_def)

text \<open>Two hubs, one with a byte in its name that is not UTF-8: that byte comes back as three others.\<close>

theorem cache_file_survives_witness:
  "\<exists>b. cache_save (go_cache_json utc (\<lambda>s. None)) disk_write
      (foldl (\<lambda>c (now, h). remember now h c) \<lparr>c_path = ''c'', c_hubs = []\<rparr>
        [(1700000000123456000, demo_hub), (5, demo_hub\<lparr>ch_ed := [], ch_name := [CHR 0xC5]\<rparr>)]) (\<lambda>p. None) =
      ((\<lambda>p. None)(''c'' := Some b), True) \<and>
    map ch_name (c_hubs (open_cache (go_cache_json utc (\<lambda>s. None)) ((\<lambda>p. None)(''c'' := Some b)) ''c'')) =
      [ch_name demo_hub, [CHR 0xEF, CHR 0xBF, CHR 0xBD]]"
proof -
  let ?ops = "[(1700000000123456000, demo_hub), (5, demo_hub\<lparr>ch_ed := [], ch_name := [CHR 0xC5]\<rparr>)]"
  define c where "c = foldl (\<lambda>c (now, h). remember now h c) \<lparr>c_path = ''c'', c_hubs = []\<rparr> ?ops"
  have hubs: "map ch_name (c_hubs c) = [ch_name demo_hub, [CHR 0xC5]]"
    by (simp add: c_def remember_def demo_hub_def)
  have rep: "repair (ch_name demo_hub) = ch_name demo_hub" "repair [CHR 0xC5] = [CHR 0xEF, CHR 0xBF, CHR 0xBD]"
    unfolding demo_hub_def by code_simp+
  have "instant_ok 1700000000123456000" "instant_ok 5" by (simp_all add: instant_ok_def zero_time_def second_def)
  then have ok: "list_all (\<lambda>(now, h). instant_ok now \<and> hub_file_ok utc h) ?ops"
    using demo_hub_file(1) by (simp add: hub_text_ok_def hub_file_ok_def utc_def)
  have z: "zone_ok (utc h)" for h by (simp add: demo_hub_file(2))
  have "map (ch_name \<circ> repair_hub) (c_hubs c) = map repair (map ch_name (c_hubs c))" by (simp add: repair_hub_def)
  then have names: "map (ch_name \<circ> repair_hub) (c_hubs c) = [ch_name demo_hub, [CHR 0xEF, CHR 0xBF, CHR 0xBD]]"
    unfolding hubs by (simp only: list.map rep)
  have path: "c_path \<lparr>c_path = ''c'', c_hubs = []\<rparr> = ''c''" "''c'' \<noteq> []"
    "list_all (hub_file_ok utc) (c_hubs \<lparr>c_path = ''c'', c_hubs = []\<rparr>)" by simp_all
  obtain b where
    b: "cache_save (go_cache_json utc (\<lambda>s. None)) disk_write c (\<lambda>p. None) = ((\<lambda>p. None)(''c'' := Some b), True)"
    "open_cache (go_cache_json utc (\<lambda>s. None)) ((\<lambda>p. None)(''c'' := Some b)) ''c'' = c\<lparr>c_hubs := map repair_hub (c_hubs c)\<rparr>"
    using cache_file_survives [OF z path ok c_def, of "\<lambda>s. None" "\<lambda>p. None"] by blast
  have "map ch_name (c_hubs (open_cache (go_cache_json utc (\<lambda>s. None)) ((\<lambda>p. None)(''c'' := Some b)) ''c'')) =
      [ch_name demo_hub, [CHR 0xEF, CHR 0xBF, CHR 0xBD]]"
    unfolding b(2) using names by (cases c) simp
  with b(1) show ?thesis unfolding c_def by (intro exI conjI)
qed

theorem community_file_travels_witness:
  "\<exists>f. LoadCommunity demo_crypto (go_community_json utc (\<lambda>s. None))
     (snd (community_save (go_community_json utc (\<lambda>s. None)) disk_write f ''c'' (\<lambda>p. None))) ''c'' (Some (replicate 32 3)) =
   Inr (f\<lparr>cf_hubs := [demo_hub\<lparr>ch_source := SrcCommunity\<rparr>]\<rparr>)"
proof -
  let ?J = "go_community_json utc (\<lambda>s. None)" and ?root = "replicate 64 3 :: bytes"
  obtain f where f: "SignCommunity demo_crypto ?J ?root [demo_hub] = Inr f"
    by (simp add: SignCommunity_def canonicalHubs_def go_community_json_def go_js_wire_def)
  have pub: "ed_public demo_crypto ?root = replicate 32 3" by (simp add: demo_crypto_def)
  have "fill_hub demo_hub = demo_hub\<lparr>ch_source := SrcCommunity\<rparr>"
    by (simp add: fill_hub_def demo_hub_def ch_invite_def)
  then show ?thesis
    using community_file_travels [OF demo_crypto_ok(1) _ refl f, of "''c''" "\<lambda>p. None" "Some (replicate 32 3)"] demo_hub_file(1)
    by (intro exI [of _ f]) (simp add: pub)
qed

end
