(* ===== verification/Scanned_Hubs.thy ===== *)
theory Scanned_Hubs
  imports IP_Text Hub_Files
begin

section \<open>From a scanned invite to the cache file and back (\<open>hub/spoke.go\<close>, \<open>hub/cache.go\<close>)\<close>

text \<open>
  A spoke that scans an invite decodes it (\<open>Decode\<close>), turns it into a locator with its addresses as
  text (\<open>cachedFromInvite\<close>), remembers it (\<open>Remember\<close>) and saves the cache as JSON; after a restart it
  opens the file and turns the locator into an invite again (\<open>CachedHub.Invite\<close>). This theory
  composes the models of the five steps: the hub that comes out has the key, the addresses, the
  port, the name and the seed flag of the hub that made the invite.
\<close>

subsection \<open>One locator\<close>

lemma nibble_ascii: "n < 16 \<Longrightarrow> of_char (hex_table ! n) < (128::nat)"
proof -
  have "list_all (\<lambda>n. of_char (hex_table ! n) < (128::nat)) [0..<16]" by code_simp
  then show "n < 16 \<Longrightarrow> ?thesis" by (simp add: list_all_iff)
qed

lemma hex_nat_ascii: "is_ascii (hex_nat n)"
proof (induction n rule: hex_nat.induct)
  case (1 n)
  then show ?case by (cases "n < 16") (auto simp: hex_nat.simps [of n] is_ascii_def nibble_ascii)
qed

lemma decimal_ascii: "is_ascii (decimal n)"
  by (auto simp: is_ascii_def list_all_iff dest!: decimal_digits)

lemma ascii_Cons: "is_ascii (c # s) \<longleftrightarrow> of_char c < (128::nat) \<and> is_ascii s"
  by (simp add: is_ascii_def)

lemma ascii_Nil: "is_ascii []"
  by (simp add: is_ascii_def)

lemma join_ascii: "is_ascii (join_groups gs)"
  by (induction gs rule: join_groups.induct) (simp_all add: hex_nat_ascii ascii_Cons ascii_Nil)

lemma ip_string_ascii:
  assumes "to16 a \<noteq> None"
  shows "is_ascii (ip_string a)"
proof -
  have "is_ascii (ipv4_string b)" for b
    by (simp add: ipv4_string_def decimal_ascii ascii_Cons)
  moreover have "is_ascii (ipv6_string b)" for b
    using join_ascii by (simp add: ipv6_string_def Let_def ascii_Cons split: option.splits prod.splits)
  ultimately show ?thesis using assms
    by (auto simp: ip_string_def to16_def ip_len_def split: option.splits if_splits)
qed

text \<open>What \<open>copy\<close> and the two conversions keep of an address.\<close>

definition text_of_ip :: "ip \<Rightarrow> string" where
  "text_of_ip a = (if a \<noteq> None then ip_string a else [])"

lemma text_of_ip_back:
  assumes "a = None \<or> to16 a = a"
  shows "(if text_of_ip a \<noteq> [] then parse_ip (text_of_ip a) else None) = a" "valid_utf8 (text_of_ip a)"
proof -
  have "(if text_of_ip a \<noteq> [] then parse_ip (text_of_ip a) else None) = a \<and> valid_utf8 (text_of_ip a)"
  proof (cases a)
    case (Some b)
    then have "to16 a = Some b" using assms by simp
    with parse_ip_string [OF this] ip_string_ascii [of a] Some show ?thesis
      by (simp add: text_of_ip_def valid_utf8_ascii)
  qed (simp add: text_of_ip_def)
  then show "(if text_of_ip a \<noteq> [] then parse_ip (text_of_ip a) else None) = a" "valid_utf8 (text_of_ip a)"
    by simp_all
qed

lemma short_display_utf8: "valid_utf8 (ShortDisplay iv)"
proof -
  have "is_ascii (ShortCode iv)"
    using ShortCode_cases [of iv] short_text_plain(1) [of "ShortCode iv"] by (auto simp: is_ascii_def)
  then show ?thesis
    by (intro valid_utf8_ascii)
      (auto simp: ShortDisplay_def Let_def is_ascii_def list_all_iff dest: in_set_takeD in_set_dropD)
qed

text \<open>The addresses of a decoded invite are in 16-byte form.\<close>

lemma canon_addresses:
  "canon_ipv6 a = None \<or> to16 (canon_ipv6 a) = canon_ipv6 a"
  "canon_ipv4 a = None \<or> to16 (canon_ipv4 a) = canon_ipv4 a"
  by (auto simp: canon_ipv6_def canon_ipv4_def net_ipv4_def dest: length_to16 length_to4 split: option.splits)

lemma cached_back:
  assumes "wf_invite iv" "inv_version iv = invite_version"
    and "inv_ipv6 iv = None \<or> to16 (inv_ipv6 iv) = inv_ipv6 iv" "inv_ipv4 iv = None \<or> to16 (inv_ipv4 iv) = inv_ipv4 iv"
    and "inv_cloud_seed iv \<or> inv_ipv6 iv \<noteq> None"
  shows "ch_invite (cachedFromInvite iv src) = Some (iv\<lparr>inv_expiry := zero_time\<rparr>)"
  using text_of_ip_back(1) [OF assms(3)] text_of_ip_back(1) [OF assms(4)] assms
  unfolding ch_invite_def cachedFromInvite_def text_of_ip_def [symmetric]
  by (cases iv) (auto simp: wf_invite_def Let_def)

lemma cached_text_ok:
  assumes "inv_ipv6 iv = None \<or> to16 (inv_ipv6 iv) = inv_ipv6 iv" "inv_ipv4 iv = None \<or> to16 (inv_ipv4 iv) = inv_ipv4 iv"
    and "valid_utf8 (inv_name iv)" "valid_utf8 src" "\<And>h. zone_ok (zone h)"
  shows "hub_text_ok zone (cachedFromInvite iv src)"
  using text_of_ip_back(2) [OF assms(1)] text_of_ip_back(2) [OF assms(2)] short_display_utf8 [of iv] assms(3-5)
  unfolding hub_text_ok_def hub_utf8_def hub_file_ok_def cachedFromInvite_def text_of_ip_def [symmetric]
  by (simp add: instant_ok_def zero_time_def second_def)

text \<open>The fields \<open>Remember\<close> fills in are none that the invite of a locator is made of, but the port.\<close>

lemma ch_invite_merge: "ch_port h \<noteq> 0 \<Longrightarrow> ch_invite (merge_hub now h old) = ch_invite h"
  by (cases h) (auto simp: ch_invite_def merge_hub_def port_or_default_def Let_def)

text \<open>
  The hypothesis on names below is needed: \<open>marshal\<close> cuts a name after 32 bytes, also within a rune, and
  the JSON of the cache then changes what is left of the rune.
\<close>

lemma cut_name_changes:
  assumes "wf_invite iv" "encode_invite iv = Inr s" "decode_invite U s r = Inr k"
    and "inv_name iv = replicate 31 CHR ''a'' @ [CHR 0xC5, CHR 0xBC]"
  shows "valid_utf8 (inv_name iv) \<and> \<not> valid_utf8 (inv_name k) \<and> unquote_str (quote_str (inv_name k)) \<noteq> inv_name k"
proof -
  have "k = canon_invite iv" using assms(3) unfolding decode_encode [OF assms(1,2)] by (simp split: if_splits)
  then have k: "inv_name k = take 32 (inv_name iv)" by (simp add: canon_invite_def)
  have v: "valid_utf8 (replicate 31 CHR ''a'' @ [CHR 0xC5, CHR 0xBC])"
    "\<not> valid_utf8 (take 32 (replicate 31 CHR ''a'' @ [CHR 0xC5, CHR 0xBC]))" by code_simp+
  then show ?thesis unfolding k assms(4) unquote_quote valid_utf8_def by simp
qed

subsection \<open>The composition\<close>

text \<open>
  C15: A hub that was scanned once is found again after a restart. An invite that encodes and that the spoke
  decodes is remembered and saved; when the 32 bytes of the hub's name that an invite keeps are valid UTF-8,
  the cache opens to a list whose first entry with the hub's key stands for the same invite in normal form, only its expiry
  gone: the cache keeps the hub for good.
\<close>

theorem scanned_hub_survives:
  assumes iv: "wf_invite iv" "encode_invite iv = Inr s" "decode_invite U s r = Inr k" "valid_utf8 (take 32 (inv_name iv))"
    and zone: "\<And>h. zone_ok (zone h)" and now: "instant_ok now"
    and c0: "c_path c0 \<noteq> []" "list_all (hub_text_ok zone) (c_hubs c0)"
    and c: "c = remember now (cachedFromInvite k SrcInvite) c0"
  shows "\<exists>b h. cache_save (go_cache_json zone lenient) disk_write c d = (d(c_path c0 := Some b), True) \<and>
    find (\<lambda>x. ch_ed x = inv_pub_key iv)
      (cache_list (open_cache (go_cache_json zone lenient) (d(c_path c0 := Some b)) (c_path c0))) = Some h \<and>
    ch_invite h = Some (canon_invite iv\<lparr>inv_expiry := zero_time\<rparr>)"
proof -
  let ?h = "cachedFromInvite k SrcInvite"
  from iv(3) have k: "k = canon_invite iv" "inv_cloud_seed k \<or> inv_ipv6 k \<noteq> None"
    unfolding decode_encode [OF iv(1,2)] by (auto simp: canon_invite_def split: if_splits)
  then have ip: "inv_ipv6 k = None \<or> to16 (inv_ipv6 k) = inv_ipv6 k" "inv_ipv4 k = None \<or> to16 (inv_ipv4 k) = inv_ipv4 k"
    using canon_addresses by (simp_all add: canon_invite_def)
  have "valid_utf8 SrcInvite" by (simp add: SrcInvite_def valid_utf8_ascii is_ascii_def)
  then have fits: "hub_text_ok zone ?h"
    using cached_text_ok [OF ip] zone iv(4) by (simp add: k(1) canon_invite_def)
  have inv: "ch_invite ?h = Some (canon_invite iv\<lparr>inv_expiry := zero_time\<rparr>)"
    using cached_back [OF _ _ ip k(2)] iv(1) by (simp add: k(1) canon_invite_def wf_invite_def)
  have hub: "ch_port ?h \<noteq> 0" "ch_ed ?h = inv_pub_key iv"
    by (simp_all add: cachedFromInvite_def k(1) canon_invite_def port_or_default_def default_port_def)
  from c0(2) fits have "list_all (hub_file_ok zone) (c_hubs c)" "list_all hub_utf8 (c_hubs c)"
    using remember_file_ok [OF _ zone _ now] remember_utf8 by (simp_all add: c hubs_text_ok hub_text_ok_def)
  then obtain b where b: "js_hubs (go_cache_json zone lenient) (c_hubs c) = Some b"
    "un_hubs (go_cache_json zone lenient) b = c_hubs c" using cache_back repair_hubs_id by metis
  have "c_path c = c_path c0" by (simp add: c remember_def Let_def)
  then have saved: "cache_save (go_cache_json zone lenient) disk_write c d = (d(c_path c0 := Some b), True)"
    using b(1) c0(1) by (simp add: cache_save_def disk_write_def)
  have "cache_list (open_cache (go_cache_json zone lenient) (d(c_path c0 := Some b)) (c_path c0)) = c_hubs c"
    by (simp add: cache_list_def open_cache_def b(2))
  moreover have "find (\<lambda>x. ch_ed x = inv_pub_key iv) (c_hubs c) =
      Some (merge_hub now ?h (cache_view c0 (inv_pub_key iv)))"
    by (simp add: c cache_view_def remember_hubs scan_find hub(2))
  ultimately show ?thesis using saved ch_invite_merge [OF hub(1)] inv by auto
qed

theorem scanned_hub_survives_witness:
  "\<exists>s k b h. encode_invite demo_invite = Inr s \<and> decode_invite plain_unicode s None = Inr k \<and>
    cache_save (go_cache_json utc (\<lambda>s. None)) disk_write
      (remember 1700000000123456000 (cachedFromInvite k SrcInvite) \<lparr>c_path = ''c'', c_hubs = []\<rparr>) (\<lambda>p. None) =
      ((\<lambda>p. None)(''c'' := Some b), True) \<and>
    find (\<lambda>x. ch_ed x = inv_pub_key demo_invite)
      (cache_list (open_cache (go_cache_json utc (\<lambda>s. None)) ((\<lambda>p. None)(''c'' := Some b)) ''c'')) = Some h \<and>
    ch_invite h = Some (canon_invite demo_invite\<lparr>inv_expiry := zero_time\<rparr>)"
proof -
  obtain s where s: "encode_invite demo_invite = Inr s" using encode_total [OF demo_ok(2)] by blast
  have "canon_ipv6 (inv_ipv6 demo_invite) \<noteq> None"
    unfolding canon_ipv6_def demo_ok(3) by (simp add: demo_invite_def numeral_eq_Suc)
  then have k: "decode_invite plain_unicode s None = Inr (canon_invite demo_invite)"
    by (simp add: decode_encode [OF demo_ok(1) s])
  have n: "valid_utf8 (take 32 (inv_name demo_invite))"
    by (simp add: demo_invite_def valid_utf8_ascii is_ascii_def)
  have i: "instant_ok 1700000000123456000" by (simp add: instant_ok_def zero_time_def second_def)
  have z: "zone_ok (utc h)" for h by (simp add: utc_def zone_ok_def)
  from scanned_hub_survives [OF demo_ok(1) s k n z i, of "\<lparr>c_path = ''c'', c_hubs = []\<rparr>"] s k
  show ?thesis by fastforce
qed

end
