(* ===== verification/Candidate_Order.thy ===== *)
theory Candidate_Order
  imports Spoke_Behaviour
begin

section \<open>Which hubs a spoke tries, and in which order (\<open>hub/spoke.go\<close>, \<open>hub/cache.go\<close>)\<close>

text \<open>
  \<open>candidates\<close> collects hubs from six sources in a loop that also feeds the cache, sorts and
  deduplicates them with \<open>DialOrder\<close> and moves the recent failures to the end. Here the result is
  characterised by what it contains and how any two of its members are ordered, without these loops.
\<close>

subsection \<open>The invites of a spoke\<close>


definition invite_hubs :: "bool \<Rightarrow> invite list \<Rightarrow> cached_hub list" where
  "invite_hubs seed ivs = map (\<lambda>iv. cachedFromInvite iv SrcInvite) (filter (\<lambda>iv. inv_cloud_seed iv = seed) ivs)"

lemma invite_hubs_Cons [simp]:
  "invite_hubs seed [] = []"
  "invite_hubs seed (iv # ivs) =
     (if inv_cloud_seed iv = seed then cachedFromInvite iv SrcInvite # invite_hubs seed ivs else invite_hubs seed ivs)"
  by (simp_all add: invite_hubs_def)




subsection \<open>The sources\<close>

text \<open>The hub of the open session, and the one whose address the user gave.\<close>

definition open_hub :: "spoke \<Rightarrow> cached_hub option" where
  "open_hub s =
     (case (sp_sess s, sp_hub_ok s) of
        (Some _, Some k) \<Rightarrow> Some (empty_hub\<lparr>ch_name := hok_name k, ch_ed := hok_ed k, ch_source := SrcOpen\<rparr>)
      | _ \<Rightarrow> None)"

definition manual_hub :: "spoke_config \<Rightarrow> cached_hub option" where
  "manual_hub cfg =
     (if sc_manual_v6 cfg = [] then None
      else Some (empty_hub\<lparr>ch_v6 := sc_manual_v6 cfg, ch_port := port_or_default (sc_manual_port cfg),
                           ch_source := SrcInvite, ch_ed := sc_manual_key cfg\<rparr>))"

text \<open>
  The hubs of each source, best first: the hub of the open session, the cached hubs that are not
  cloud seeds, the community list, the invites and the address given by hand, then the cloud seeds
  of all sources. Two of them are the same hub when key and addresses agree.
\<close>

definition tier_hubs :: "spoke \<Rightarrow> invite list \<Rightarrow> cached_hub set list" where
  "tier_hubs s ivs =
     [set_option (open_hub s),
      {h \<in> set (cache_list (sp_cache s)). \<not> ch_cloud h},
      set (sc_community (sp_cfg s)),
      set (invite_hubs False ivs) \<union> set_option (manual_hub (sp_cfg s)),
      set (invite_hubs True ivs) \<union> set (sc_seeds (sp_cfg s)) \<union> {h \<in> set (cache_list (sp_cache s)). ch_cloud h}]"

definition tier_keys :: "spoke \<Rightarrow> invite list \<Rightarrow> string set list" where
  "tier_keys s ivs = map (image dial_key) (tier_hubs s ivs)"



subsection \<open>Lists in tiers\<close>






subsection \<open>The order of the candidates\<close>




definition option_list :: "'a option \<Rightarrow> 'a list" where
  "option_list m = (case m of None \<Rightarrow> [] | Some x \<Rightarrow> [x])"

lemma set_option_list [simp]: "set (option_list m) = set_option m"
  by (cases m) (simp_all add: option_list_def)

definition hub_lists :: "spoke \<Rightarrow> invite list \<Rightarrow> cached_hub list list" where
  "hub_lists s ivs =
     [segment SrcOpen (option_list (open_hub s)), segment SrcCache (filter (\<lambda>h. \<not> ch_cloud h) (cache_list (sp_cache s))),
      segment SrcCommunity (sc_community (sp_cfg s)),
      segment SrcInvite (invite_hubs False ivs @ option_list (manual_hub (sp_cfg s))),
      segment SrcCloud (invite_hubs True ivs @ sc_seeds (sp_cfg s)) @ segment SrcCloud (filter ch_cloud (cache_list (sp_cache s)))]"




lemma tier_lengths [simp]: "length (tier_hubs s ivs) = 5" "length (hub_lists s ivs) = 5" "length (tier_keys s ivs) = 5"
  by (simp_all add: tier_hubs_def hub_lists_def tier_keys_def)







subsection \<open>A spoke with a hub that failed\<close>







end
