(* ===== verification/Spec2Isabelle.thy ===== *)
theory Spec2Isabelle
  imports Command_Line Mesh_Delivery Dual_Listener Session_Writers Scanned_Hubs Candidate_Order
begin

text \<open>
  Starmesh is a mesh of hubs that relay sealed messages between spokes. A hub listens on a public
  IPv6 address, hands out an invite, keeps a session per connected spoke and per neighbouring hub,
  forwards signed envelopes between them and spreads by gossip which keys it can reach. A spoke
  finds hubs through invites, its cache, a signed community list and the local network, keeps one
  connection, seals its messages for their addressee and queues them while it is offline. This
  development models the Go program under \<open>src/invite\<close> and \<open>src/hub\<close>.

  Theories and the code they model:
  \<^item> \<open>Prelude\<close>: bytes, big-endian integers, decimal text, instants, the disk, list lemmas;
    \<open>Interfaces\<close>: the locales \<open>codec\<close>, \<open>stepper\<close>, \<open>projection\<close> that the components interpret.
  \<^item> \<open>Text_Encodings\<close>, \<open>Go_Strings\<close>, \<open>Net_IP\<close>: what the code uses of \<open>encoding/hex\<close>,
    \<open>encoding/base32\<close>, \<open>strings\<close>, \<open>unicode/utf8\<close> and \<open>net\<close>, with \<open>hub/hex.go\<close>; \<open>IP_Text\<close>: the text of
    an address reads back; \<open>Crc32\<close>,
    \<open>Sha256\<close>: the checksum of \<open>invite/codec.go\<close> with its bit-serial reference, and the hash.
  \<^item> \<open>Invite_Codec\<close>: \<open>invite/codec.go\<close>, the invite text, its binary form and short codes.
  \<^item> \<open>Envelope\<close>: \<open>hub/envelope.go\<close>; \<open>Identity_Store\<close>: \<open>hub/identity.go\<close>, \<open>hub/home.go\<close>.
  \<^item> \<open>Wire_Frames\<close>: \<open>hub/wire.go\<close> and the framed connection of \<open>hub/transport.go\<close>; \<open>Transport\<close>: how
    connections are dialled there; \<open>Session_Writers\<close>: goroutines that write to one connection, with the
    mutexes of \<open>session.send\<close> and \<open>WriteMsg\<close>; \<open>Handshake\<close>: \<open>hub/handshake.go\<close>, signed hellos, the Bloom
    filter, the replay table; \<open>Dual_Listener\<close>: the goroutines of \<open>DualListener\<close> that accept
    connections, the certificates of \<open>hub/handshake.go\<close> and \<open>Start\<close> of \<open>hub/server.go\<close> with its sockets.
  \<^item> \<open>JSON_Scanner\<close>, \<open>JSON_Strings\<close>, \<open>Base64\<close>, \<open>JSON_Trees\<close>, \<open>JSON_Decode\<close>, \<open>Time_Text\<close>: what the code uses
    of \<open>encoding/json\<close> (its scanner as a pushdown automaton, string escapes, compact and indented
    printing, decoding into Go values), \<open>encoding/base64\<close> and the text of \<open>time.Time\<close>.
  \<^item> \<open>Wire_JSON\<close>: the JSON of the messages of \<open>hub/wire.go\<close> and \<open>hub/envelope.go\<close>; \<open>Store_JSON\<close>: that of
    the identity file, the queue file, the chat text and the signed text of a community list;
    \<open>Hub_Files\<close>: that of the cache file and the community file.
  \<^item> \<open>Offline_Queue\<close>: \<open>hub/queue.go\<close>; \<open>Hub_Cache\<close>: \<open>hub/cache.go\<close>; \<open>Community\<close>:
    \<open>hub/community.go\<close>; \<open>Capability_Probe\<close>: \<open>hub/capability.go\<close>, \<open>hub/ra.go\<close>.
  \<^item> \<open>Hub_Server\<close>: \<open>hub/server.go\<close>, the hub as a state machine; \<open>Hub_Invariants\<close>, \<open>Hub_Routing\<close>,
    \<open>Hub_Gossip\<close>: what holds of it.
  \<^item> \<open>Spoke_Client\<close>: \<open>hub/spoke.go\<close>, the spoke as a state machine; \<open>Spoke_Behaviour\<close>: what holds
    of it; \<open>Candidate_Order\<close>: which hubs it tries and in which order.
  \<^item> \<open>Lan_Discovery\<close>: \<open>hub/mdns.go\<close>; \<open>Local_API\<close>: \<open>hub/api.go\<close>; \<open>Invite_Print\<close>: \<open>hub/qr.go\<close>;
    \<open>Command_Line\<close>: \<open>hub/cmd/starmesh/main.go\<close>.
  \<open>Scanned_Hubs\<close> follows a hub from its invite through a spoke's cache file to the next start.
  \<open>Mesh_Delivery\<close> composes the components on bytes: a text sealed by one spoke, framed, relayed by any
  chain of hubs and shown by another spoke; and a greeting is accepted when its strings are UTF-8. This root theory holds the same for one hub and any JSON
  library.

  How state and operations correspond. A Go struct is a record with the fields of the struct
  (prefixed), a method is a function of the record that returns it updated, together with the
  messages it writes as a list of outputs; an error is a value of a datatype, in a sum or an
  option. A hub refers to its sessions by their position in a list, which stands for the pointer;
  a Go map is an association list with distinct keys, or a partial function where only its lookup
  matters; the order of the association list stands for the order in which a range over the map
  happens to run, so a theorem about all lists holds for every order. Integers that can overflow
  are words of their width; times are integers of nanoseconds. Handlers run to completion: the code
  holds its mutexes around every access to the maps, and a handler is one step of \<open>hub_step\<close> or
  \<open>spoke_step\<close>; interleavings are the orders of steps. Messages sent on one session arrive in
  order (\<open>frame_stream_roundtrip\<close>), also when several goroutines write: \<open>Session_Writers\<close> takes the
  writers of one connection apart into the steps between which others may run (\<open>write_step\<close>) and shows
  that frames stay whole and that the two mutexes never deadlock. The accept side of a hub is
  modelled as goroutines too: there an event is one step of one of them (\<open>dl_event\<close>), and the order of
  events is the schedule.

  Parameters. The cryptographic primitives (\<open>crypto\<close>), the X.509 library, the Unicode tables, the
  disk, random bytes, the clock, time zones, the network and the QR encoder are arguments. What is
  assumed of them is a named hypothesis where it is used: \<open>sign_correct\<close> and \<open>box_correct\<close> for Ed25519
  and the NaCl box. The components take their JSON as an argument too (\<open>json_lib\<close> and smaller
  records), so that their lemmas hold for any library; \<open>go_json\<close>, \<open>go_identity_json\<close>, \<open>go_queue_json\<close>,
  \<open>go_cache_json\<close>, \<open>go_community_json\<close>, \<open>go_js_chat\<close> are the values that the program has, with no
  hypothesis left. No property assumes that signatures cannot be forged; the safety properties say
  which verification has succeeded.

  What the groups of lemmas show. Codecs: exact round trips, which inputs are refused, that
  signed texts determine their fields, detection of changed bytes. Hub: the tables stay sound in
  all reachable states (\<open>hub_inv\<close>) and refer to sessions that are not closed, an envelope identifier is forwarded at most once, to the
  right session, gossip is passed on at most once, and the situations in which the code loses a
  route; connections are handed to it once each, in bounded space and under any fair schedule. Spoke: the
  tables stay sound (\<open>spoke_inv\<close>), which hubs it tries and which one is connected, what is shown, what becomes of queued
  messages, how long it waits. Storage: identity, queue and cache survive a restart, as the text of
  their files (in the cache with bytes that are not UTF-8 replaced), and a hub that was scanned once is found in the cache again. JSON: what is marshalled is
  read back, which strings change on the way (bytes that are not UTF-8), which sealed messages
  fit a frame: all those to a key of 32 bytes. Probe and command line: a host advertises only addresses it has.

  Bounds and fuel. The loops are structural recursions, except \<open>map_runes\<close> (measured by the
  length of the string) and the IPv6 parser, whose fuel of eight is the number of groups that
  fit in sixteen bytes. Limits of the code (message, plaintext and queue sizes, the replay window
  of ten minutes, the twenty-second backoff, eight places in the discovery channel, sixteen for accepted connections, the nesting limit of
  JSON) are constants
  of the model with the values of the code.

  Limits of the JSON model: an empty slice that is not nil is written as \<open>null\<close>, as a nil one; \<open>null\<close> among
  the elements of an array leaves a zero value, where Go may leave what the slice's memory held
  before; a text for \<open>time.Time\<close> outside RFC 3339 goes to a parameter (\<open>lenient\<close>).
  Limits of the other models: an empty slice is not told from nil, so \<open>SendToName\<close> takes a peer with an
  empty key for none; a spoke reads the clock once for all candidates of one attempt to connect; a hub
  registers a session and announces it in one step.

  Not modelled: the QUIC and TLS connections (third-party and library code, reached only through
  \<open>Dial\<close> and the accept loops); deadlines on reads, which appear as failed reads; logging and usage
  texts; flag parsing; the JSON of the local API's answers and of \<open>invite decode\<close>, which are only
  printed; the Flutter app, the deployment files and the tests.
\<close>

section \<open>Properties across components\<close>

text \<open>
  End to end: a message that one connected spoke sends to another, whose hub they share,
  is put on the wire as one envelope, the hub passes it to the session of the addressee and to
  no one else, and the addressee, which has the sender's box key on record, shows exactly the
  text, under the sender's name and fingerprint. The JSON texts of the envelope and of the sealed
  box must read back as what was written.
\<close>

theorem message_end_to_end:
  assumes C: "sign_correct (en_crypto E)" "box_correct (en_crypto E)"
    and ids: "wf_identity (en_crypto E) (sp_id a)" "wf_identity (en_crypto E) (sp_id b)"
    and up: "sp_sess a \<noteq> None"
    and known: "map_of (sp_peers b) (mustHex (id_ed_pub (sp_id a))) = Some p" "pi_x p = id_x_pub (sp_id a)"
      "id_x_pub (sp_id a) \<noteq> zero32"
    and box: "box = \<lparr>cb_text = msg, cb_name = id_name (sp_id a), cb_x = id_x_pub (sp_id a)\<rparr>"
      "un_chat E (js_chat E box) = Some box" "length (js_chat E box) \<le> max_plaintext"
    and rnd: "length n = nonce_size" "ts \<noteq> 0"
    and json: "\<And>e. seal (en_crypto E) (Some n) (Some i) ts (sp_id a) (id_x_pub (sp_id b)) (id_ed_pub (sp_id b))
        EnvChat (js_chat E box) = Inr e \<Longrightarrow> un_envelope (en_json E) (js_envelope (en_json E) e) = Some e"
    and hub: "map_of (srv_spokes h) (mustHex (id_ed_pub (sp_id b))) = Some sp"
      "map_of (srv_seen h) (hex_encode i) = None"
  shows "\<exists>m. spoke_send E (Some n) (Some i) ts True (id_ed_pub (sp_id b)) (id_x_pub (sp_id b)) msg a = (None, a, [ToHub m]) \<and>
    snd (hub_handle (en_json E) (en_crypto E) (Deliver ck r d m) h) = [(sp, m)] \<and>
    snd (spoke_read E now dump m b) = [Show (Fingerprint (id_ed_pub (sp_id a))) (id_name (sp_id a)) msg]"
proof -
  let ?C = "en_crypto E" and ?J = "en_json E"
  define e where "e = env_sign ?C (id_ed_priv (sp_id a))
    \<lparr>env_id = hex_encode i, env_from = id_ed_pub (sp_id a), env_to = id_ed_pub (sp_id b), env_ts = ts, env_type = EnvChat,
     env_sig = [], env_ciphertext = n @ box_seal ?C (js_chat E box) n (id_x_pub (sp_id b)) (id_x_priv (sp_id a))\<rparr>"
  define m where "m = msgOf TypeEnvelope (js_envelope ?J e)"
  have sl: "seal ?C (Some n) (Some i) ts (sp_id a) (id_x_pub (sp_id b)) (id_ed_pub (sp_id b)) EnvChat (js_chat E box) = Inr e"
    using box(3) by (simp add: seal_def e_def Let_def)
  have v: "env_verify ?C e = None"
    by (rule seal_verifies [OF C ids rnd(2) _ sl]) (use rnd(1) in simp)
  have sel: "env_id e = hex_encode i" "env_from e = id_ed_pub (sp_id a)" "env_to e = id_ed_pub (sp_id b)"
    "env_ciphertext e = n @ box_seal ?C (js_chat E box) n (id_x_pub (sp_id b)) (id_x_priv (sp_id a))"
    by (simp_all add: e_def env_sign_def)
  have "id_x_pub (sp_id a) = x_public ?C (id_x_priv (sp_id a))" "id_x_pub (sp_id b) = x_public ?C (id_x_priv (sp_id b))"
    and len: "length (id_x_pub (sp_id a)) = 32"
    using ids unfolding wf_identity_def by blast+
  then have "box_open ?C (box_seal ?C (js_chat E box) n (id_x_pub (sp_id b)) (id_x_priv (sp_id a))) n
      (id_x_pub (sp_id a)) (id_x_priv (sp_id b)) = Some (js_chat E box)"
    using C(2) unfolding box_correct_def by metis
  then have op: "open_env ?C (sp_id b) (id_x_pub (sp_id a)) e = Inr (js_chat E box)"
    using rnd(1) by (simp add: open_env_def v sel Let_def)
  have msg: "envelope_message ?J m e"
    by (simp add: envelope_message_def m_def json [OF sl])
  have "spoke_send E (Some n) (Some i) ts True (id_ed_pub (sp_id b)) (id_x_pub (sp_id b)) msg a = (None, a, [ToHub m])"
    using up sl by (auto simp: spoke_send_def m_def simp flip: box(1))
  moreover have "snd (hub_handle ?J ?C (Deliver ck r d m) h) = [(sp, m)]"
    using hub v msg by (simp add: onMsg_envelope forward_new route_targets_def sel m_def)
  moreover have "snd (spoke_read E now dump m b) = [Show (Fingerprint (id_ed_pub (sp_id a))) (id_name (sp_id a)) msg]"
  proof -
    define u where "u = (if sc_capture (sp_cfg b) then b\<lparr>sp_dump := dump\<rparr> else b)"
    have u: "sp_id u = sp_id b" "sp_peers u = sp_peers b" by (simp_all add: u_def)
    have "spoke_read E now dump m b = handleEnvelope E e u"
      by (simp add: spoke_read_def m_def type_consts Let_def json [OF sl] flip: u_def)
    then show ?thesis
      using v by (simp add: handleEnvelope_def tryOpen_def u sel known op box(2) Let_def) (simp add: box(1))
  qed
  ultimately show ?thesis by blast
qed

theorem message_end_to_end_witness:
  "\<exists>m. spoke_send demo_spoke_env (Some (replicate 24 9)) (Some [1]) 5 True (replicate 32 2) (replicate 32 2) ''hi''
        (demo_online\<lparr>sp_id := demo_identity 1\<rparr>) = (None, demo_online\<lparr>sp_id := demo_identity 1\<rparr>, [ToHub m]) \<and>
    snd (hub_handle (en_json demo_spoke_env) demo_crypto (Deliver demo_clocks 1 None m) demo_hub_server) = [(0, m)] \<and>
    snd (spoke_read demo_spoke_env 6 [] m demo_online) = [Show (Fingerprint (replicate 32 1)) ''demo'' ''hi'']"
proof -
  let ?a = "demo_online\<lparr>sp_id := demo_identity 1\<rparr>"
  let ?box = "\<lparr>cb_text = ''hi'', cb_name = ''demo'', cb_x = replicate 32 1\<rparr>"
  have ids: "sp_id demo_online = demo_identity 2" "sp_id ?a = demo_identity 1"
    "id_ed_pub (demo_identity k) = replicate 32 k" "id_x_pub (demo_identity k) = replicate 32 k"
    "id_name (demo_identity k) = ''demo''" for k
    by (simp_all add: demo_online_def demo_spoke_sel demo_identity_def)
  have E: "en_crypto demo_spoke_env = demo_crypto" "js_chat demo_spoke_env ?box = demo_plain"
    by (simp_all add: demo_spoke_env_def demo_plain_def)
  have "seal demo_crypto (Some (replicate 24 9)) (Some [1]) 5 (demo_identity 1) (replicate 32 2) (replicate 32 2)
      EnvChat demo_plain = Inr demo_sealed"
    by (simp add: seal_def demo_sealed_def max_plaintext_def demo_plain_def Let_def demo_identity_def)
  then have j: "seal demo_crypto (Some (replicate 24 9)) (Some [1]) 5 (demo_identity 1) (replicate 32 2) (replicate 32 2)
      EnvChat demo_plain = Inr e \<Longrightarrow> un_envelope (en_json demo_spoke_env) (js_envelope (en_json demo_spoke_env) e) = Some e" for e
    by (simp add: demo_spoke_env_def)
  have peers: "map_of (sp_peers demo_online) (mustHex (replicate 32 1)) =
      Some \<lparr>pi_ed = replicate 32 1, pi_x = replicate 32 1, pi_name = ''demo''\<rparr>"
    by (simp add: demo_online_def)
  note r = message_end_to_end [where E = demo_spoke_env and a = ?a and b = demo_online and h = demo_hub_server
      and n = "replicate 24 9" and i = "[1]" and ts = 5 and msg = "''hi''" and box = ?box and r = 1 and d = None
      and ck = demo_clocks and now = 6 and dump = "[]" and sp = 0, unfolded E ids,
      OF demo_crypto_ok demo_identity_ok demo_identity_ok _ peers _ _ refl _ _ _ _ j]
  show ?thesis
    by (rule r) (simp_all add: demo_spokes zero32_def replicate_neq nonce_size_def max_plaintext_def demo_plain_def,
      simp_all add: demo_online_def demo_spoke_env_def)
qed

end
